(* ===== verification/Chain_Prelude.thy ===== *)
theory Chain_Prelude
  imports Main "HOL-Library.Word" "HOL-Library.Multiset"
begin

text \<open>
  The shared layer of the development: the exception classes of the chain library as a
  datatype, the result type of fallible operations with its sequencing operators, the
  unsigned machine arithmetic that is written out on \<open>nat\<close>, the 256-bit digest type with
  the order the code uses on it, and generic interfaces (an invariant of a transition
  system, the least element of an ordered index) that several components instantiate.
\<close>

unbundle bit_operations_syntax

named_theorems res_simps \<open>how the result operators decide success and failure\<close>
named_theorems rangeI \<open>values stay inside their machine width\<close>

section \<open>Exceptions and results\<close>

text \<open>
  The exception classes that the modelled code throws (\<open>exceptions.hpp\<close>), with two
  more for what containers and the database throw (\<open>Std_out_of_range\<close> for a missing key,
  \<open>Std_logic_error\<close> for a violated uniqueness) and \<open>Undefined_behaviour\<close> where the C++
  standard gives the expression no meaning.
\<close>

datatype (plugins only: code size) chain_exception =
    Name_type_exception
  | Symbol_type_exception
  | Asset_type_exception
  | Overflow_exception
  | Block_validate_exception
  | Unlinkable_block_exception
  | Producer_double_confirm
  | Producer_schedule_exception
  | Wrong_producer
  | Wrong_signing_key
  | Invalid_block_header_extension
  | Ill_formed_protocol_feature_activation
  | Fork_database_exception
  | Fork_db_block_not_found
  | Resource_limit_exception
  | Rate_limiting_state_inconsistent
  | Tx_cpu_usage_exceeded
  | Tx_net_usage_exceeded
  | Block_resource_exhausted
  | Transaction_exception
  | Ram_usage_exceeded
  | Permission_query_exception
  | Invalid_permission
  | Irrelevant_auth_exception
  | Unsatisfied_authorization
  | Unlinkable_min_permission_action
  | Action_validate_exception
  | Action_type_exception
  | Tx_not_found
  | Tx_irrelevant_sig
  | Protocol_feature_exception
  | Protocol_feature_validation_exception
  | Protocol_feature_iterator_exception
  | Invalid_table_payer
  | Missing_auth_exception
  | Invalid_action_args_exception
  | Eosio_assert_message_exception
  | Account_name_exists_exception
  | Account_query_exception
  | Set_exact_code
  | Invalid_contract_vm_type
  | Invalid_contract_vm_version
  | Key_blacklist_exception
  | Actor_whitelist_exception
  | Actor_blacklist_exception
  | Contract_whitelist_exception
  | Contract_blacklist_exception
  | Action_blacklist_exception
  | Database_exception
  | Misc_exception
  | Subjective_block_production_exception
  | Protocol_feature_bad_block_exception
  | Deadline_exception
  | Leeway_deadline_exception
  | Block_cpu_usage_exceeded
  | Block_net_usage_exceeded
  | Greylist_net_usage_exceeded
  | Greylist_cpu_usage_exceeded
  | Tx_cpu_usage_underflow
  | Tx_duplicate
  | Tx_no_action
  | Tx_no_auths
  | Expired_tx_exception
  | Tx_exp_too_far_exception
  | Invalid_ref_block_exception
  | Deferred_tx_duplicate
  | Invalid_table_iterator
  | Table_access_violation
  | Table_operation_not_permitted
  | Block_log_exception
  | Fc_assert_exception
  | Std_logic_error
  | Std_out_of_range
  | Undefined_behaviour

type_synonym 'a res = "chain_exception + 'a"

text \<open>\<open>EOS_ASSERT(c, e, ...)\<close> followed by the rest of the function.\<close>

definition eos_assert :: "bool \<Rightarrow> 'e \<Rightarrow> ('e + 'a) \<Rightarrow> 'e + 'a" where
  "eos_assert c e k = (if c then k else Inl e)"

text \<open>A call whose exception propagates to the caller.\<close>

definition ebind :: "'e + 'a \<Rightarrow> ('a \<Rightarrow> 'e + 'b) \<Rightarrow> 'e + 'b" where
  "ebind r k = (case r of Inl e \<Rightarrow> Inl e | Inr x \<Rightarrow> k x)"

text \<open>A range-based \<open>for\<close> loop whose body may throw.\<close>

fun efold :: "('x \<Rightarrow> 's \<Rightarrow> 'e + 's) \<Rightarrow> 'x list \<Rightarrow> 's \<Rightarrow> 'e + 's" where
  "efold f [] s = Inr s"
| "efold f (x # xs) s = (case f x s of Inl e \<Rightarrow> Inl e | Inr s' \<Rightarrow> efold f xs s')"

text \<open>Reading a row that must exist.\<close>

definition from_some :: "'e \<Rightarrow> 'a option \<Rightarrow> 'e + 'a" where
  "from_some e x = (case x of None \<Rightarrow> Inl e | Some y \<Rightarrow> Inr y)"

text \<open>
  \<open>EOS_RETHROW_EXCEPTIONS(e, ...)\<close>: exceptions of the chain library pass unchanged, those of
  other libraries are replaced.
\<close>

definition rethrow_as :: "chain_exception \<Rightarrow> 'a res \<Rightarrow> 'a res" where
  "rethrow_as e r =
     (case r of Inl x \<Rightarrow> Inl (if x \<in> {Overflow_exception, Std_out_of_range, Std_logic_error} then e else x)
      | Inr y \<Rightarrow> Inr y)"

lemma rethrow_as_Inr [res_simps]: "rethrow_as e r = Inr y \<longleftrightarrow> r = Inr y"
  by (cases r) (simp_all add: rethrow_as_def)

lemma eos_assert_Inr [res_simps]: "eos_assert c e k = Inr x \<longleftrightarrow> c \<and> k = Inr x"
  by (simp add: eos_assert_def)

lemma eos_assert_Inl [res_simps]:
  "eos_assert c e k = Inl x \<longleftrightarrow> (\<not> c \<and> x = e) \<or> (c \<and> k = Inl x)"
  by (auto simp: eos_assert_def)

lemma eos_assert_simps [simp]:
  "eos_assert True e k = k" "eos_assert False e k = Inl e"
  by (simp_all add: eos_assert_def)

lemma ebind_Inr [res_simps]: "ebind r k = Inr y \<longleftrightarrow> (\<exists>x. r = Inr x \<and> k x = Inr y)"
  by (cases r) (simp_all add: ebind_def)

lemma ebind_Inl [res_simps]:
  "ebind r k = Inl e \<longleftrightarrow> r = Inl e \<or> (\<exists>x. r = Inr x \<and> k x = Inl e)"
  by (cases r) (simp_all add: ebind_def)

lemma ebind_simps [simp]: "ebind (Inl e) k = Inl e" "ebind (Inr x) k = k x"
  by (simp_all add: ebind_def)

lemma ebind_assoc: "ebind (ebind r f) g = ebind r (\<lambda>x. ebind (f x) g)"
  by (cases r) simp_all

lemma from_some_Inr [res_simps]: "from_some e x = Inr y \<longleftrightarrow> x = Some y"
  by (cases x) (simp_all add: from_some_def)

lemma from_some_Inl [res_simps]: "from_some e x = Inl d \<longleftrightarrow> x = None \<and> d = e"
  by (cases x) (auto simp: from_some_def)

lemma from_some_simps [simp]: "from_some e None = Inl e" "from_some e (Some y) = Inr y"
  by (simp_all add: from_some_def)

lemma efold_Cons_Inr:
  "efold f (x # xs) s = Inr t \<longleftrightarrow> (\<exists>s'. f x s = Inr s' \<and> efold f xs s' = Inr t)"
  by (auto split: sum.splits)

lemma efold_append:
  "efold f (xs @ ys) s = ebind (efold f xs s) (efold f ys)"
  by (induction xs arbitrary: s) (auto split: sum.splits)

text \<open>The loop rule: what every successful round keeps holds after the loop.\<close>

lemma efold_invariant:
  assumes "efold f xs s = Inr t" and "I s"
    and "\<And>x s s'. x \<in> set xs \<Longrightarrow> I s \<Longrightarrow> f x s = Inr s' \<Longrightarrow> I s'"
  shows "I t"
  using assms
proof (induction xs arbitrary: s)
  case Nil
  then show ?case by simp
next
  case (Cons x xs)
  from Cons.prems(1) obtain s' where s': "f x s = Inr s'" and rest: "efold f xs s' = Inr t"
    by (auto split: sum.splits)
  from Cons.prems(2) s' have "I s'" by (auto intro: Cons.prems(3))
  with rest show ?case by (rule Cons.IH) (auto intro: Cons.prems(3))
qed

section \<open>Unsigned arithmetic on naturals\<close>

text \<open>
  Counters of type \<open>uint32_t\<close>, \<open>uint64_t\<close> and \<open>uint128_t\<close> whose arithmetic matters are
  naturals below the width; every operation of the source that can leave the width is
  written with the wrap-around the C++ standard gives it.
\<close>

type_synonym u16 = nat
type_synonym u32 = nat
type_synonym u64 = nat
type_synonym u128 = nat
type_synonym i64 = int

abbreviation u32_max :: nat where "u32_max \<equiv> 4294967295"
abbreviation u64_max :: nat where "u64_max \<equiv> 18446744073709551615"
abbreviation i64_max :: nat where "i64_max \<equiv> 9223372036854775807"

definition wrap32 :: "nat \<Rightarrow> u32" where "wrap32 n = n mod 2 ^ 32"
definition wrap64 :: "nat \<Rightarrow> u64" where "wrap64 n = n mod 2 ^ 64"
definition wrap128 :: "nat \<Rightarrow> u128" where "wrap128 n = n mod 2 ^ 128"

text \<open>Unsigned subtraction: modulo the width, for operands below it.\<close>

definition sub32 :: "u32 \<Rightarrow> u32 \<Rightarrow> u32" where
  "sub32 a b = (a + 2 ^ 32 - b) mod 2 ^ 32"

definition sub64 :: "u64 \<Rightarrow> u64 \<Rightarrow> u64" where
  "sub64 a b = (a + 2 ^ 64 - b) mod 2 ^ 64"

lemma wrap_less [rangeI]: "wrap32 n < 2 ^ 32" "wrap64 n < 2 ^ 64" "wrap128 n < 2 ^ 128"
  by (simp_all add: wrap32_def wrap64_def wrap128_def)

lemma wrap32_id [simp]: "n < 2 ^ 32 \<Longrightarrow> wrap32 n = n"
  by (simp add: wrap32_def)

lemma wrap64_id [simp]: "n < 2 ^ 64 \<Longrightarrow> wrap64 n = n"
  by (simp add: wrap64_def)

lemma wrap128_id [simp]: "n < 2 ^ 128 \<Longrightarrow> wrap128 n = n"
  by (simp add: wrap128_def)

lemma sub32_less [rangeI]: "sub32 a b < 2 ^ 32"
  by (simp add: sub32_def)

lemma sub64_less [rangeI]: "sub64 a b < 2 ^ 64"
  by (simp add: sub64_def)

lemma sub32_id: "b \<le> a \<Longrightarrow> a < 2 ^ 32 \<Longrightarrow> sub32 a b = a - b"
  by (simp add: sub32_def mod_if)

lemma sub64_id: "b \<le> a \<Longrightarrow> a < 2 ^ 64 \<Longrightarrow> sub64 a b = a - b"
  by (simp add: sub64_def mod_if)

section \<open>Digests\<close>

text \<open>
  \<open>fc::sha256\<close>: four 64-bit words. The library orders digests by \<open>sha256_less\<close>, the
  lexicographic order of the four words (\<open>types.hpp\<close>).
\<close>

datatype sha256 = Sha256 (hash0: "64 word") (hash1: "64 word") (hash2: "64 word") (hash3: "64 word")

definition sha256_less :: "sha256 \<Rightarrow> sha256 \<Rightarrow> bool" where
  "sha256_less a b \<longleftrightarrow>
     hash0 a < hash0 b \<or> hash0 a = hash0 b \<and>
     (hash1 a < hash1 b \<or> hash1 a = hash1 b \<and>
     (hash2 a < hash2 b \<or> hash2 a = hash2 b \<and> hash3 a < hash3 b))"

instantiation sha256 :: linorder
begin

definition less_sha256 :: "sha256 \<Rightarrow> sha256 \<Rightarrow> bool" where
  "less_sha256 a b \<longleftrightarrow> sha256_less a b"

definition less_eq_sha256 :: "sha256 \<Rightarrow> sha256 \<Rightarrow> bool" where
  "less_eq_sha256 a b \<longleftrightarrow> sha256_less a b \<or> a = b"

instance
proof
  fix x y z :: sha256
  show "x < y \<longleftrightarrow> x \<le> y \<and> \<not> y \<le> x"
    by (auto simp: less_sha256_def less_eq_sha256_def sha256_less_def)
  show "x \<le> x"
    by (simp add: less_eq_sha256_def)
  show "x \<le> y \<Longrightarrow> y \<le> z \<Longrightarrow> x \<le> z"
    by (auto simp: less_eq_sha256_def sha256_less_def)
  show "x \<le> y \<Longrightarrow> y \<le> x \<Longrightarrow> x = y"
    by (auto simp: less_eq_sha256_def sha256_less_def)
  show "x \<le> y \<or> y \<le> x"
    by (auto simp: less_eq_sha256_def sha256_less_def intro: sha256.expand)
qed

end

text \<open>The default-constructed digest: all words zero.\<close>

definition null_digest :: sha256 where
  "null_digest = Sha256 0 0 0 0"

section \<open>Invariants of transition systems\<close>

text \<open>
  A component whose operations are the steps of a relation promises an invariant: it holds
  initially and every step keeps it. What follows for whole runs is proved once.
\<close>

locale invariant_system =
  fixes init :: "'s \<Rightarrow> bool" and step :: "'s \<Rightarrow> 's \<Rightarrow> bool" and inv :: "'s \<Rightarrow> bool"
  assumes init_inv: "init s \<Longrightarrow> inv s"
    and step_inv: "inv s \<Longrightarrow> step s t \<Longrightarrow> inv t"
begin

lemma run_inv: "step\<^sup>*\<^sup>* s t \<Longrightarrow> inv s \<Longrightarrow> inv t"
  by (induction rule: rtranclp_induct) (auto intro: step_inv)

lemma reachable_inv: "init s \<Longrightarrow> step\<^sup>*\<^sup>* s t \<Longrightarrow> inv t"
  by (blast intro: run_inv init_inv)

end

section \<open>The first element of an ordered index\<close>

text \<open>
  An ordered index of a multi-index container is modelled by the list of its rows and its
  comparator; \<open>begin()\<close> is the row that no other row precedes.
\<close>

fun index_begin :: "('r \<Rightarrow> 'r \<Rightarrow> bool) \<Rightarrow> 'r list \<Rightarrow> 'r option" where
  "index_begin lt [] = None"
| "index_begin lt (r # rs) =
     (case index_begin lt rs of None \<Rightarrow> Some r | Some m \<Rightarrow> Some (if lt m r then m else r))"

lemma index_begin_in: "index_begin lt rs = Some m \<Longrightarrow> m \<in> set rs"
  by (induction rs arbitrary: m) (auto split: option.splits if_splits)

lemma index_begin_None [simp]: "index_begin lt rs = None \<longleftrightarrow> rs = []"
  by (cases rs) (auto split: option.splits)

locale strict_weak_order =
  fixes lt :: "'r \<Rightarrow> 'r \<Rightarrow> bool"
  assumes lt_irrefl: "\<not> lt a a"
    and lt_trans: "lt a b \<Longrightarrow> lt b c \<Longrightarrow> lt a c"
    and lt_negtrans: "lt a c \<Longrightarrow> lt a b \<or> lt b c"
begin

lemma lt_asym: "lt a b \<Longrightarrow> \<not> lt b a"
  using lt_irrefl lt_trans by blast

lemma index_begin_least:
  "index_begin lt rs = Some m \<Longrightarrow> r \<in> set rs \<Longrightarrow> \<not> lt r m"
proof (induction rs arbitrary: m)
  case Nil
  then show ?case by simp
next
  case (Cons a rs)
  show ?case
  proof (cases "index_begin lt rs")
    case None
    with Cons.prems show ?thesis by (auto simp: lt_irrefl)
  next
    case (Some b)
    from Cons.prems(1) Some have m: "m = (if lt b a then b else a)" by simp
    have rs: "\<not> lt r b" if "r \<in> set rs" using Cons.IH [OF Some that] .
    show ?thesis
    proof (cases "r = a")
      case True
      with m show ?thesis by (auto simp: lt_irrefl dest: lt_asym)
    next
      case False
      with Cons.prems(2) rs have "\<not> lt r b" by simp
      with m show ?thesis using lt_negtrans [of r a b] lt_trans by (auto split: if_splits)
    qed
  qed
qed

end

text \<open>A comparator on a key that is linearly ordered is a strict weak order.\<close>

lemma strict_weak_order_key:
  fixes key :: "'r \<Rightarrow> 'k :: linorder"
  assumes "\<And>a b. lt a b \<longleftrightarrow> key a < key b"
  shows "strict_weak_order lt"
  by unfold_locales (auto simp: assms)

section \<open>Ordered vectors: flat sets and flat maps\<close>

text \<open>
  A comparator that also distinguishes different elements. \<open>boost::container::flat_set\<close> and
  \<open>flat_map\<close> keep a vector that is strictly increasing in it.
\<close>

locale strict_linear_order = strict_weak_order +
  assumes lt_total: "a \<noteq> b \<Longrightarrow> lt a b \<or> lt b a"

fun flat_insert :: "('a \<Rightarrow> 'a \<Rightarrow> bool) \<Rightarrow> 'a \<Rightarrow> 'a list \<Rightarrow> 'a list" where
  "flat_insert lt x [] = [x]"
| "flat_insert lt x (y # ys) =
     (if lt x y then x # y # ys else if lt y x then y # flat_insert lt x ys else y # ys)"

text \<open>\<open>std::sort\<close>: the sorted permutation; equivalent elements keep their order.\<close>

fun sort_insert :: "('a \<Rightarrow> 'a \<Rightarrow> bool) \<Rightarrow> 'a \<Rightarrow> 'a list \<Rightarrow> 'a list" where
  "sort_insert lt x [] = [x]"
| "sort_insert lt x (y # ys) = (if lt y x then y # sort_insert lt x ys else x # y # ys)"

definition std_sort :: "('a \<Rightarrow> 'a \<Rightarrow> bool) \<Rightarrow> 'a list \<Rightarrow> 'a list" where
  "std_sort lt xs = foldr (sort_insert lt) xs []"

text \<open>\<open>std::set_union\<close> of two sorted ranges.\<close>

fun set_union :: "('a \<Rightarrow> 'a \<Rightarrow> bool) \<Rightarrow> 'a list \<Rightarrow> 'a list \<Rightarrow> 'a list" where
  "set_union lt [] ys = ys"
| "set_union lt xs [] = xs"
| "set_union lt (x # xs) (y # ys) =
     (if lt x y then x # set_union lt xs (y # ys)
      else if lt y x then y # set_union lt (x # xs) ys
      else x # set_union lt xs ys)"

lemma mset_sort_insert [simp]: "mset (sort_insert lt x ys) = add_mset x (mset ys)"
  by (induction ys) auto

lemma mset_std_sort [simp]: "mset (std_sort lt xs) = mset xs"
  by (induction xs) (auto simp: std_sort_def)

lemma set_std_sort [simp]: "set (std_sort lt xs) = set xs"
  using mset_eq_setD [OF mset_std_sort] .

lemma length_std_sort [simp]: "length (std_sort lt xs) = length xs"
  using mset_eq_length [OF mset_std_sort] .

context strict_linear_order
begin

lemma set_flat_insert: "set (flat_insert lt x ys) = insert x (set ys)"
  using lt_total by (induction ys) auto

lemma sorted_flat_insert: "sorted_wrt lt ys \<Longrightarrow> sorted_wrt lt (flat_insert lt x ys)"
  using lt_trans by (induction ys) (auto simp: set_flat_insert)

lemma set_set_union: "set (set_union lt xs ys) = set xs \<union> set ys"
  using lt_total by (induction lt xs ys rule: set_union.induct) (auto, metis)

lemma fold_flat_insert:
  "sorted_wrt lt s \<Longrightarrow>
   sorted_wrt lt (foldl (\<lambda>s v. flat_insert lt v s) s vs) \<and>
   set (foldl (\<lambda>s v. flat_insert lt v s) s vs) = set s \<union> set vs"
  by (induction vs arbitrary: s) (auto simp: set_flat_insert sorted_flat_insert)

lemma sorted_lt_distinct: "sorted_wrt lt xs \<Longrightarrow> distinct xs"
  using lt_irrefl by (induction xs) auto

lemma sorted_set_unique:
  "sorted_wrt lt xs \<Longrightarrow> sorted_wrt lt ys \<Longrightarrow> set xs = set ys \<Longrightarrow> xs = ys"
proof (induction xs arbitrary: ys)
  case Nil
  then show ?case by simp
next
  case (Cons x xs)
  then obtain y ys' where ys: "ys = y # ys'" by (cases ys) auto
  from Cons.prems ys have "x = y" using lt_asym by (auto simp: set_eq_iff) metis
  moreover from Cons.prems ys this have "set xs = set ys'"
    using sorted_lt_distinct [OF Cons.prems(1)] sorted_lt_distinct [OF Cons.prems(2)] by auto
  ultimately show ?case using Cons ys by auto
qed

end

text \<open>
  A table promises that a lookup after an update finds the new row under the updated key and
  the old row under every other key. Building a table row by row is reasoned about once.
\<close>

locale table =
  fixes lookup :: "'m \<Rightarrow> 'k \<Rightarrow> 'v option" and update :: "'k \<Rightarrow> 'v \<Rightarrow> 'm \<Rightarrow> 'm"
  assumes lookup_update: "lookup (update k v m) k' = (if k' = k then Some v else lookup m k')"
begin

lemma lookup_build:
  "lookup (foldl (\<lambda>m k. update k (f k) m) m ks) k =
     (if k \<in> set ks then Some (f k) else lookup m k)"
  by (induction ks arbitrary: m) (auto simp: lookup_update)

lemma lookup_commute:
  "k \<noteq> k' \<Longrightarrow> lookup (update k v (update k' v' m)) = lookup (update k' v' (update k v m))"
  by (auto simp: lookup_update fun_eq_iff)

end

fun fm_set :: "'k :: linorder \<Rightarrow> 'v \<Rightarrow> ('k \<times> 'v) list \<Rightarrow> ('k \<times> 'v) list" where
  "fm_set k v [] = [(k, v)]"
| "fm_set k v ((k', v') # m) =
     (if k < k' then (k, v) # (k', v') # m
      else if k = k' then (k, v) # m else (k', v') # fm_set k v m)"

definition fm_keys :: "('k \<times> 'v) list \<Rightarrow> 'k list" where
  "fm_keys m = map fst m"

interpretation fm: table map_of fm_set
proof
  fix k k' :: "'k :: linorder" and v :: 'v and m
  show "map_of (fm_set k v m) k' = (if k' = k then Some v else map_of m k')"
    by (induction m rule: fm_set.induct [of _ k v]) (auto)
qed

lemma fm_set_keys [simp]: "set (map fst (fm_set k v m)) = insert k (set (map fst m))"
  by (induction k v m rule: fm_set.induct) auto

lemma fm_set_sorted [simp]: "sorted_wrt (<) (map fst m) \<Longrightarrow> sorted_wrt (<) (map fst (fm_set k v m))"
proof (induction k v m rule: fm_set.induct)
  case (2 k v k' v' m)
  then show ?case
    using fm_set_keys [of k v m] by (auto simp del: fm_set_keys)
qed simp

section \<open>Accumulators\<close>

text \<open>
  An accumulator is fed items one by one and summarises all of them: its state represents the
  list of the items appended so far, appending never fails below its capacity, and its root is
  the specified function of that list.
\<close>

locale accumulator =
  fixes empty_acc :: 'm and append_acc :: "'d \<Rightarrow> 'm \<Rightarrow> 'e + 'm" and root_acc :: "'m \<Rightarrow> 'r"
    and represents :: "'m \<Rightarrow> 'd list \<Rightarrow> bool" and spec :: "'d list \<Rightarrow> 'r" and capacity :: nat
  assumes represents_empty: "represents empty_acc []"
    and represents_append: "represents m xs \<Longrightarrow> length xs + 1 < capacity \<Longrightarrow>
      \<exists>m'. append_acc d m = Inr m' \<and> represents m' (xs @ [d])"
    and root_spec: "represents m xs \<Longrightarrow> root_acc m = spec xs"
begin

lemma append_list:
  "represents m xs \<Longrightarrow> length xs + length ds < capacity \<Longrightarrow>
   \<exists>m'. efold append_acc ds m = Inr m' \<and> represents m' (xs @ ds)"
proof (induction ds arbitrary: m xs)
  case Nil
  then show ?case by simp
next
  case (Cons d ds)
  then obtain m' where m': "append_acc d m = Inr m'" "represents m' (xs @ [d])"
    using represents_append [of m xs d] by auto
  with Cons.IH [OF m'(2)] Cons.prems show ?case by simp
qed

lemma root_of_all:
  assumes "length ds < capacity"
  shows "\<exists>m. efold append_acc ds empty_acc = Inr m \<and> root_acc m = spec ds"
  using append_list [OF represents_empty, of ds] assms root_spec by fastforce

end

end
