(* ===== verification/Chain_Names.thy ===== *)
theory Chain_Names
  imports Chain_Prelude
begin

text \<open>
  Account, action and permission names (\<open>name.hpp\<close>, \<open>name.cpp\<close>): a 64-bit value that packs
  up to thirteen characters of a 32-letter alphabet, five bits per character and four for
  the thirteenth. The lemmas show that printing and parsing are inverse to each other and
  which strings \<open>name::set\<close> accepts.
\<close>

section \<open>The model\<close>

type_synonym name = "64 word"

definition char_to_symbol :: "char \<Rightarrow> 64 word" where
  "char_to_symbol c =
     (let n = (of_char c :: nat) in
      if of_char (CHR ''a'') \<le> n \<and> n \<le> of_char (CHR ''z'')
      then of_nat (n - of_char (CHR ''a'')) + 6
      else if of_char (CHR ''1'') \<le> n \<and> n \<le> of_char (CHR ''5'')
      then of_nat (n - of_char (CHR ''1'')) + 1
      else 0)"

text \<open>
  A C string is the list of its characters before the terminating NUL; reading the position
  after the last character gives the NUL.
\<close>

definition c_str :: "string \<Rightarrow> string" where
  "c_str s = takeWhile (\<lambda>c. c \<noteq> CHR 0x00) s"

definition c_char :: "string \<Rightarrow> nat \<Rightarrow> char" where
  "c_char s i = (if i < length s then s ! i else CHR 0x00)"

text \<open>The \<open>for\<close> loop of \<open>string_to_name\<close>: the value and the final index.\<close>

fun string_to_name_loop :: "string \<Rightarrow> nat \<Rightarrow> 64 word \<Rightarrow> 64 word \<times> nat" where
  "string_to_name_loop [] i nm = (nm, i)"
| "string_to_name_loop (c # cs) i nm =
     (if i < 12
      then string_to_name_loop cs (i + 1)
             (nm OR push_bit (64 - 5 * (i + 1)) (char_to_symbol c AND 31))
      else (nm, i))"

definition string_to_name :: "string \<Rightarrow> name" where
  "string_to_name str =
     (let (nm, i) = string_to_name_loop str 0 0 in
      if i = 12 then nm OR (char_to_symbol (c_char str 12) AND 15) else nm)"

definition charmap :: string where
  "charmap = ''.12345abcdefghijklmnopqrstuvwxyz''"

text \<open>The loop of \<open>name::operator string\<close>, writing \<open>str[12 - i]\<close>.\<close>

function name_string_loop :: "nat \<Rightarrow> 64 word \<Rightarrow> string \<Rightarrow> string" where
  "name_string_loop i tmp str =
     (if i \<le> 12
      then name_string_loop (i + 1) (drop_bit (if i = 0 then 4 else 5) tmp)
             (str[12 - i := charmap ! unat (tmp AND (if i = 0 then 15 else 31))])
      else str)"
  by pat_completeness auto
termination
  by (relation "measure (\<lambda>(i, tmp, str). 13 - i)") auto

declare name_string_loop.simps [simp del]

definition trim_right_dots :: "string \<Rightarrow> string" where
  "trim_right_dots s = rev (dropWhile (\<lambda>c. c = CHR ''.'') (rev s))"

definition name_to_string :: "name \<Rightarrow> string" where
  "name_to_string value = trim_right_dots (name_string_loop 0 value (replicate 13 (CHR ''.'')))"

text \<open>\<open>name::set\<close>, on the characters of the given string up to its first NUL.\<close>

definition name_set :: "string \<Rightarrow> name res" where
  "name_set s =
     (let str = c_str s; len = min 14 (length str) in
      eos_assert (len \<le> 13) Name_type_exception
       (let value = string_to_name str in
        eos_assert (name_to_string value = str) Name_type_exception (Inr value)))"

definition name_empty :: "name \<Rightarrow> bool" where
  "name_empty n \<longleftrightarrow> n = 0"

section \<open>Symbols of the alphabet\<close>

lemma length_charmap [simp]: "length charmap = 32"
  by (simp add: charmap_def)

lemma charmap_symbols: "map char_to_symbol charmap = map of_nat [0..<32]"
  by (simp add: charmap_def char_to_symbol_def Let_def upt_rec)

lemma char_to_symbol_charmap: "i < 32 \<Longrightarrow> char_to_symbol (charmap ! i) = of_nat i"
  using arg_cong [OF charmap_symbols, of "\<lambda>xs. xs ! i"] by simp

lemma char_to_symbol_dot [simp]: "char_to_symbol (CHR ''.'') = 0"
  by (simp add: char_to_symbol_def)

lemma char_to_symbol_nul [simp]: "char_to_symbol (CHR 0x00) = 0"
  by (simp add: char_to_symbol_def)

lemma distinct_charmap: "distinct charmap"
  by (simp add: charmap_def)

lemma nul_notin_charmap: "CHR 0x00 \<notin> set charmap"
  by (simp add: charmap_def)

lemma charmap_char_to_symbol:
  assumes "c \<in> set charmap"
  shows "charmap ! unat (char_to_symbol c) = c" and "unat (char_to_symbol c) < 32"
proof -
  from assms obtain i where i: "i < 32" "c = charmap ! i"
    by (auto simp: in_set_conv_nth)
  then have "unat (char_to_symbol c) = i"
    by (simp add: char_to_symbol_charmap unat_of_nat)
  with i show "charmap ! unat (char_to_symbol c) = c" and "unat (char_to_symbol c) < 32"
    by simp_all
qed

lemma mask5: "(31 :: 64 word) = mask 5"
  by (simp add: mask_eq_exp_minus_1)

lemma mask4: "(15 :: 64 word) = mask 4"
  by (simp add: mask_eq_exp_minus_1)

lemma take_bit_small: "unat w < 2 ^ n \<Longrightarrow> take_bit n (w :: 64 word) = w"
  by (simp add: word_unat_eq_iff unsigned_take_bit_eq take_bit_nat_eq_self)

lemma unat_and_31: "unat ((w :: 64 word) AND 31) < 32"
  unfolding mask5 take_bit_eq_mask [symmetric]
  using take_bit_nat_less_exp [of 5 "unat w"] by (simp add: unsigned_take_bit_eq)

lemma unat_and_15: "unat ((w :: 64 word) AND 15) < 16"
  unfolding mask4 take_bit_eq_mask [symmetric]
  using take_bit_nat_less_exp [of 4 "unat w"] by (simp add: unsigned_take_bit_eq)

section \<open>Packing five-bit digits\<close>

text \<open>The reference packing: digit \<open>k\<close> of a list sits at bit \<open>59 - 5 * k\<close>.\<close>

fun pack5 :: "(64 word) list \<Rightarrow> nat \<Rightarrow> 64 word" where
  "pack5 [] i = 0"
| "pack5 (d # ds) i = push_bit (64 - 5 * (i + 1)) (d AND 31) OR pack5 ds (i + 1)"

lemma bit_pack5: "bit (pack5 ds i) n \<Longrightarrow> i + length ds \<le> 12 \<Longrightarrow> n < 64 - 5 * i \<and> 4 \<le> n"
proof (induction ds arbitrary: i)
  case Nil
  then show ?case by simp
next
  case (Cons d ds)
  show ?case
  proof (cases "bit (pack5 ds (i + 1)) n")
    case True
    with Cons.IH [of "i + 1"] Cons.prems show ?thesis by auto
  next
    case False
    with Cons.prems have "bit (push_bit (64 - 5 * (i + 1)) (d AND 31)) n"
      by (simp add: bit_or_iff)
    then have "64 - 5 * (i + 1) \<le> n" "n - (64 - 5 * (i + 1)) < 5"
      by (auto simp: mask5 bit_simps)
    with Cons.prems(2) show ?thesis by auto
  qed
qed

lemma pack5_digit:
  "i + length ds \<le> 12 \<Longrightarrow> j < length ds \<Longrightarrow>
   drop_bit (64 - 5 * (i + j + 1)) (pack5 ds i) AND 31 = ds ! j AND 31"
proof (induction ds arbitrary: i j)
  case Nil
  then show ?case by simp
next
  case (Cons d ds)
  show ?case
  proof (cases j)
    case 0
    have low: "drop_bit (64 - 5 * (i + 1)) (pack5 ds (i + 1)) = 0"
    proof (rule bit_eqI)
      fix n
      show "bit (drop_bit (64 - 5 * (i + 1)) (pack5 ds (i + 1))) n = bit (0 :: 64 word) n"
        using bit_pack5 [of ds "i + 1" "n + (64 - 5 * (i + 1))"] Cons.prems
        by (auto simp: bit_drop_bit_eq add.commute)
    qed
    have "drop_bit (64 - 5 * (i + 1)) (push_bit (64 - 5 * (i + 1)) (d AND 31)) AND 31 = d AND 31"
      using Cons.prems by (intro bit_eqI) (auto simp: mask5 bit_simps)
    with low 0 show ?thesis
      by (simp add: bit.conj_disj_distrib2)
  next
    case (Suc j')
    have high: "drop_bit (64 - 5 * (i + j + 1)) (push_bit (64 - 5 * (i + 1)) (d AND 31)) AND 31 = 0"
      using Cons.prems Suc by (intro bit_eqI) (auto simp: mask5 bit_simps)
    have "drop_bit (64 - 5 * ((i + 1) + j' + 1)) (pack5 ds (i + 1)) AND 31 = ds ! j' AND 31"
      using Cons.prems Suc by (intro Cons.IH) auto
    then show ?thesis using high Suc
      by (simp add: bit.conj_disj_distrib2)
  qed
qed

lemma string_to_name_loop_pack5:
  "i + length cs \<le> 12 \<Longrightarrow>
   string_to_name_loop cs i nm = (nm OR pack5 (map char_to_symbol cs) i, i + length cs)"
  by (induction cs arbitrary: i nm) (auto simp: or.assoc)

lemma string_to_name_loop_cut:
  "i + length cs \<ge> 12 \<Longrightarrow> i \<le> 12 \<Longrightarrow>
   string_to_name_loop cs i nm = string_to_name_loop (take (12 - i) cs) i nm"
proof (induction cs arbitrary: i nm)
  case Nil
  then show ?case by simp
next
  case (Cons c cs)
  show ?case
  proof (cases "i < 12")
    case True
    then have "12 - i = Suc (12 - (i + 1))" by simp
    with True Cons.IH [of "i + 1"] Cons.prems show ?thesis by simp
  next
    case False
    with Cons.prems show ?thesis by simp
  qed
qed

text \<open>A string read as thirteen characters, dots filling up the missing ones.\<close>

definition pad13 :: "string \<Rightarrow> string" where
  "pad13 s = s @ replicate (13 - length s) (CHR ''.'')"

lemma length_pad13 [simp]: "length s \<le> 13 \<Longrightarrow> length (pad13 s) = 13"
  by (simp add: pad13_def)

lemma pack5_zeros: "pack5 (ds @ replicate k 0) i = pack5 ds i"
  by (induction ds arbitrary: i) (simp_all, induction k arbitrary: i, simp_all)

lemma string_to_name_pad13:
  assumes "length s \<le> 13"
  shows "string_to_name s =
    pack5 (map char_to_symbol (take 12 (pad13 s))) 0 OR (char_to_symbol (pad13 s ! 12) AND 15)"
proof (cases "length s \<le> 11")
  case True
  then have "take 12 (pad13 s) = s @ replicate (12 - length s) (CHR ''.'')"
    by (simp add: pad13_def)
  moreover from True have "pad13 s ! 12 = CHR ''.''"
    by (simp add: pad13_def nth_append)
  ultimately show ?thesis
    using True by (simp add: string_to_name_def string_to_name_loop_pack5 pack5_zeros)
next
  case False
  then have "12 \<le> length s" by simp
  then have tk: "take 12 (pad13 s) = take 12 s" and lt: "length (take 12 s) = 12"
    by (simp_all add: pad13_def)
  have "string_to_name_loop s 0 0 = string_to_name_loop (take 12 s) 0 0"
    using string_to_name_loop_cut [of 0 s 0] \<open>12 \<le> length s\<close> by simp
  also have "\<dots> = (pack5 (map char_to_symbol (take 12 s)) 0, 12)"
    using string_to_name_loop_pack5 [of 0 "take 12 s" 0] lt by simp
  finally have loop: "string_to_name_loop s 0 0 = (pack5 (map char_to_symbol (take 12 s)) 0, 12)" .
  have "char_to_symbol (c_char s 12) = char_to_symbol (pad13 s ! 12)"
    using assms by (auto simp: c_char_def pad13_def nth_append)
  with loop tk show ?thesis by (simp add: string_to_name_def)
qed

section \<open>Printing\<close>

text \<open>The character that stands at position \<open>k\<close> of the untrimmed name.\<close>

definition name_digit :: "name \<Rightarrow> nat \<Rightarrow> 64 word" where
  "name_digit v k = (if k = 12 then v AND 15 else drop_bit (64 - 5 * (k + 1)) v AND 31)"

definition name_char :: "name \<Rightarrow> nat \<Rightarrow> char" where
  "name_char v k = charmap ! unat (name_digit v k)"

lemma name_string_loop_eq:
  "name_string_loop 0 v (replicate 13 (CHR ''.'')) = map (name_char v) [0..<13]"
  by (simp add: name_string_loop.simps name_char_def name_digit_def upt_rec numeral_eq_Suc)

lemma name_digit_less: "unat (name_digit v k) < 32"
  using unat_and_15 [of v] unat_and_31 [of "drop_bit (64 - 5 * (k + 1)) v"]
  by (auto simp: name_digit_def)

lemma char_to_symbol_name_char: "char_to_symbol (name_char v k) = name_digit v k"
  by (simp add: name_char_def char_to_symbol_charmap name_digit_less)

lemma take_bit_step5:
  "push_bit m (drop_bit m w AND 31) OR take_bit m w = take_bit (m + 5) (w :: 64 word)"
  by (intro bit_eqI) (auto simp: mask5 bit_simps)

lemma pack5_name_digits_upto:
  "n \<le> 12 \<Longrightarrow>
   pack5 (map (name_digit v) [12 - n..<12]) (12 - n) OR take_bit 4 v = take_bit (4 + 5 * n) v"
proof (induction n)
  case 0
  then show ?case by simp
next
  case (Suc n)
  then have upt: "[12 - Suc n..<12] = (12 - Suc n) # [12 - n..<12]"
    using upt_conv_Cons [of "12 - Suc n" 12] Suc_diff_Suc [of n 12] by simp
  have pos: "64 - 5 * (12 - n) = 4 + 5 * n" "59 - 5 * (11 - n) = 4 + 5 * n" "12 - Suc n + 1 = 12 - n"
    using Suc.prems by auto
  have "pack5 (map (name_digit v) [12 - Suc n..<12]) (12 - Suc n) OR take_bit 4 v =
      push_bit (4 + 5 * n) (drop_bit (4 + 5 * n) v AND 31) OR
      (pack5 (map (name_digit v) [12 - n..<12]) (12 - n) OR take_bit 4 v)"
    using Suc.prems by (simp only: upt list.map pack5.simps pos)
      (simp add: name_digit_def pos or.assoc and.assoc del: push_bit_and)
  also have "\<dots> = take_bit (4 + 5 * Suc n) v"
    using Suc take_bit_step5 [of "4 + 5 * n" v] by (simp add: add.commute add.left_commute)
  finally show ?case .
qed

lemma pack5_name_digits: "pack5 (map (name_digit v) [0..<12]) 0 OR (v AND 15) = v"
  using pack5_name_digits_upto [of 12 v]
  by (simp add: mask4 take_bit_word_beyond_length_eq flip: take_bit_eq_mask)

lemma trim_right_dots_pad:
  "trim_right_dots (s @ replicate k (CHR ''.'')) = trim_right_dots s"
  by (induction k) (simp_all add: trim_right_dots_def dropWhile_append)

lemma trim_right_dots_id: "s = [] \<or> last s \<noteq> CHR ''.'' \<Longrightarrow> trim_right_dots s = s"
  by (cases s rule: rev_cases) (simp_all add: trim_right_dots_def)

lemma trim_right_dots_split:
  "\<exists>k. s = trim_right_dots s @ replicate k (CHR ''.'')"
proof (induction s rule: rev_induct)
  case Nil
  then show ?case by (simp add: trim_right_dots_def)
next
  case (snoc c s)
  then obtain k where k: "s = trim_right_dots s @ replicate k (CHR ''.'')" by blast
  show ?case
  proof (cases "c = CHR ''.''")
    case True
    then have "trim_right_dots (s @ [c]) = trim_right_dots s"
      by (simp add: trim_right_dots_def)
    moreover have "s @ [c] = trim_right_dots s @ replicate (Suc k) (CHR ''.'')"
      using k True by (metis append.assoc replicate_append_same replicate_Suc)
    ultimately show ?thesis by metis
  next
    case False
    then have "trim_right_dots (s @ [c]) = s @ [c]"
      by (simp add: trim_right_dots_def)
    then show ?thesis by (intro exI [of _ 0]) simp
  qed
qed

lemma trim_right_dots_last: "trim_right_dots s = [] \<or> last (trim_right_dots s) \<noteq> CHR ''.''"
  using hd_dropWhile [of "\<lambda>c. c = CHR ''.''" "rev s"]
  by (auto simp: trim_right_dots_def last_rev)

lemma pad13_name_to_string: "pad13 (name_to_string v) = map (name_char v) [0..<13]"
  and length_name_to_string: "length (name_to_string v) \<le> 13"
proof -
  let ?full = "map (name_char v) [0..<13]"
  obtain k where k: "?full = trim_right_dots ?full @ replicate k (CHR ''.'')"
    using trim_right_dots_split by blast
  have eq: "name_to_string v = trim_right_dots ?full"
    by (simp add: name_to_string_def name_string_loop_eq)
  from k have len: "13 = length (trim_right_dots ?full) + k"
    by (metis length_append length_map length_replicate length_upt diff_zero)
  then show "length (name_to_string v) \<le> 13" by (simp add: eq)
  have "13 - length (trim_right_dots ?full) = k" using len by linarith
  then show "pad13 (name_to_string v) = ?full"
    using k by (simp add: pad13_def eq)
qed

lemma string_to_name_to_string: "string_to_name (name_to_string v) = v"
proof -
  have "take 12 (map (name_char v) [0..<13]) = map (name_char v) [0..<12]"
    by (simp add: take_map)
  moreover have "map (name_char v) [0..<13] ! 12 = name_char v 12"
    by (simp add: nth_append)
  moreover have "name_digit v 12 AND 15 = v AND 15"
    by (simp add: name_digit_def and.assoc)
  ultimately show ?thesis
    using string_to_name_pad13 [OF length_name_to_string, of v] pack5_name_digits [of v]
    by (simp add: pad13_name_to_string char_to_symbol_name_char comp_def)
qed

lemma name_char_in_charmap: "name_char v k \<in> set charmap"
  by (simp add: name_char_def name_digit_less)

lemma c_str_id: "CHR 0x00 \<notin> set s \<Longrightarrow> c_str s = s"
  by (auto simp: c_str_def takeWhile_eq_all_conv)

lemma set_name_to_string: "set (name_to_string v) \<subseteq> set charmap"
proof -
  have "set (name_to_string v) \<subseteq> set (pad13 (name_to_string v))"
    by (simp add: pad13_def)
  also have "\<dots> \<subseteq> set charmap"
    by (auto simp: pad13_name_to_string name_char_in_charmap)
  finally show ?thesis .
qed

lemma c_str_name_to_string: "c_str (name_to_string v) = name_to_string v"
  using set_name_to_string nul_notin_charmap by (intro c_str_id) blast

section \<open>Parsing\<close>

text \<open>
  The strings that name exactly one value: at most thirteen letters of the alphabet, the
  thirteenth among the first sixteen, and no trailing dot.
\<close>

definition valid_name_string :: "string \<Rightarrow> bool" where
  "valid_name_string s \<longleftrightarrow>
     length s \<le> 13 \<and> set s \<subseteq> set charmap \<and>
     (length s = 13 \<longrightarrow> s ! 12 \<in> set (take 16 charmap)) \<and>
     (s = [] \<or> last s \<noteq> CHR ''.'')"

lemma symbol_low_half:
  assumes "c \<in> set (take 16 charmap)"
  shows "char_to_symbol c AND 15 = char_to_symbol c"
proof -
  from assms obtain i where i: "i < 16" "c = charmap ! i"
    by (auto simp: in_set_conv_nth)
  then have "char_to_symbol c = of_nat i" by (simp add: char_to_symbol_charmap)
  with i(1) show ?thesis
    by (simp add: mask4 take_bit_small unat_of_nat flip: take_bit_eq_mask)
qed

lemma name_char_of_string:
  assumes "valid_name_string s" and "k < 13"
  shows "name_char (string_to_name s) k = pad13 s ! k"
proof -
  let ?p = "pad13 s" and ?v = "string_to_name s"
  let ?ds = "map char_to_symbol (take 12 ?p)"
  from assms(1) have len: "length ?p = 13" and cs: "set ?p \<subseteq> set charmap"
    by (auto simp: valid_name_string_def pad13_def charmap_def)
  have v: "?v = pack5 ?ds 0 OR (char_to_symbol (?p ! 12) AND 15)"
    using assms(1) by (intro string_to_name_pad13) (simp add: valid_name_string_def)
  have pk: "?p ! k \<in> set charmap" using cs len assms(2) by auto
  have "name_digit ?v k = char_to_symbol (?p ! k)"
  proof (cases "k = 12")
    case True
    have "pack5 ?ds 0 AND 15 = 0"
    proof (rule bit_eqI)
      fix n
      show "bit (pack5 ?ds 0 AND 15) n = bit (0 :: 64 word) n"
        using bit_pack5 [of ?ds 0 n] len by (auto simp: mask4 bit_simps)
    qed
    moreover have "?p ! 12 \<in> set (take 16 charmap)"
    proof (cases "length s = 13")
      case True
      with assms(1) show ?thesis by (simp add: valid_name_string_def pad13_def)
    next
      case False
      with assms(1) have "length s < 13" by (simp add: valid_name_string_def)
      then have "?p ! 12 = CHR ''.''" by (simp add: pad13_def nth_append)
      then show ?thesis by (simp add: charmap_def)
    qed
    ultimately show ?thesis
      using True by (simp add: name_digit_def v bit.conj_disj_distrib2 and.assoc symbol_low_half)
  next
    case False
    with assms(2) have k: "k < 12" by simp
    have "drop_bit (64 - 5 * (k + 1)) (char_to_symbol (?p ! 12) AND 15) = 0"
      using k by (intro bit_eqI) (auto simp: mask4 bit_simps)
    moreover have "drop_bit (64 - 5 * (k + 1)) (pack5 ?ds 0) AND 31 = char_to_symbol (?p ! k) AND 31"
      using pack5_digit [of 0 ?ds k] len k by simp
    moreover have "char_to_symbol (?p ! k) AND 31 = char_to_symbol (?p ! k)"
      using charmap_char_to_symbol(2) [OF pk]
      by (simp add: mask5 take_bit_small flip: take_bit_eq_mask)
    ultimately show ?thesis
      using False by (simp add: name_digit_def v)
  qed
  then show ?thesis
    using charmap_char_to_symbol(1) [OF pk] by (simp add: name_char_def)
qed

lemma name_to_string_of_string:
  assumes "valid_name_string s"
  shows "name_to_string (string_to_name s) = s"
proof -
  have "map (name_char (string_to_name s)) [0..<13] = pad13 s"
    using assms name_char_of_string [OF assms]
    by (intro nth_equalityI) (auto simp: valid_name_string_def)
  then have "name_to_string (string_to_name s) = trim_right_dots (pad13 s)"
    by (simp add: name_to_string_def name_string_loop_eq)
  also have "\<dots> = s"
    using assms by (simp add: pad13_def trim_right_dots_pad trim_right_dots_id valid_name_string_def)
  finally show ?thesis .
qed

lemma valid_name_to_string: "valid_name_string (name_to_string v)"
proof -
  have "name_to_string v ! 12 \<in> set (take 16 charmap)" if "length (name_to_string v) = 13"
  proof -
    from that have "name_to_string v = map (name_char v) [0..<13]"
      using pad13_name_to_string [of v] by (simp add: pad13_def)
    then have "name_to_string v ! 12 = charmap ! unat (v AND 15)"
      by (simp add: name_char_def name_digit_def nth_append)
    moreover have "charmap ! unat (v AND 15) = take 16 charmap ! unat (v AND 15)"
      using unat_and_15 [of v] by simp
    ultimately show ?thesis
      using unat_and_15 [of v] by (simp del: nth_take)
  qed
  moreover have "name_to_string v = [] \<or> last (name_to_string v) \<noteq> CHR ''.''"
    unfolding name_to_string_def by (rule trim_right_dots_last)
  ultimately show ?thesis
    using length_name_to_string set_name_to_string by (simp add: valid_name_string_def)
qed

section \<open>Properties\<close>

text \<open>
  Every 64-bit value is a name: printing it gives a string that \<open>name::set\<close> accepts and
  reads back as the same value, so printing loses no information.
\<close>

theorem name_print_parse: "name_set (name_to_string v) = Inr v"
  using length_name_to_string [of v]
  by (simp add: name_set_def c_str_name_to_string string_to_name_to_string)

text \<open>
  \<open>name::set\<close> accepts exactly the normalised names (at most thirteen letters of the
  alphabet, the thirteenth from its first half, no trailing dot) and throws
  \<open>name_type_exception\<close> on every other string.
\<close>

theorem name_set_accepts:
  "name_set s =
     (if valid_name_string (c_str s) then Inr (string_to_name (c_str s))
      else Inl Name_type_exception)"
proof (cases "valid_name_string (c_str s)")
  case True
  then show ?thesis
    using name_to_string_of_string [OF True] by (simp add: name_set_def valid_name_string_def)
next
  case False
  then have "name_to_string (string_to_name (c_str s)) \<noteq> c_str s"
    using valid_name_to_string by metis
  with False show ?thesis by (simp add: name_set_def eos_assert_def Let_def)
qed

end
