(* ===== verification/Chain_Assets.thy ===== *)
theory Chain_Assets
  imports Chain_Names
begin

text \<open>
  Token symbols and assets (\<open>symbol.hpp\<close>, \<open>asset.hpp\<close>, \<open>asset.cpp\<close>). A symbol is a 64-bit
  value: the number of decimals in its lowest byte, the token name in the other bytes. An
  asset is a signed 64-bit amount with a symbol. The text functions of the fc library that
  the code calls are fields of a record that the definitions take as an argument.
\<close>

section \<open>Symbols\<close>

type_synonym symbol = "64 word"

text \<open>
  \<open>string_to_symbol\<close>. Shifting a \<open>uint64_t\<close> by 64 bits or more has no meaning in C++: the
  eighth character of a name reaches that case.
\<close>

fun string_to_symbol_loop :: "string \<Rightarrow> nat \<Rightarrow> 64 word \<Rightarrow> (64 word) res" where
  "string_to_symbol_loop [] i result = Inr result"
| "string_to_symbol_loop (c # cs) i result =
     eos_assert (of_char (CHR ''A'') \<le> (of_char c :: nat) \<and> of_char c \<le> (of_char (CHR ''Z'') :: nat))
       Symbol_type_exception
       (if 8 * (i + 1) < 64
        then string_to_symbol_loop cs (i + 1) (result OR push_bit (8 * (i + 1)) (of_char c))
        else Inl Undefined_behaviour)"

definition string_to_symbol :: "8 word \<Rightarrow> string \<Rightarrow> (64 word) res" where
  "string_to_symbol precision str =
     ebind (string_to_symbol_loop (c_str str) 0 0) (\<lambda>result. Inr (result OR ucast precision))"

definition max_precision :: nat where
  "max_precision = 18"

definition symbol_decimals :: "symbol \<Rightarrow> 8 word" where
  "symbol_decimals v = ucast (v AND 255)"

text \<open>The \<open>while\<close> loop of \<open>symbol::name\<close>.\<close>

function symbol_name_loop :: "64 word \<Rightarrow> string \<Rightarrow> string" where
  "symbol_name_loop v result =
     (if v > 0 then symbol_name_loop (drop_bit 8 v) (result @ [char_of (unat (v AND 255))])
      else result)"
  by pat_completeness auto
termination
  by (relation "measure (\<lambda>(v, result). unat v)")
    (auto simp: drop_bit_eq_div unat_div word_gt_0_no unat_gt_0)

declare symbol_name_loop.simps [simp del]

definition symbol_name :: "symbol \<Rightarrow> string" where
  "symbol_name v = symbol_name_loop (drop_bit 8 v) []"

definition valid_symbol_name :: "string \<Rightarrow> bool" where
  "valid_symbol_name s \<longleftrightarrow>
     (\<forall>c \<in> set s. of_char (CHR ''A'') \<le> (of_char c :: nat) \<and> of_char c \<le> (of_char (CHR ''Z'') :: nat))"

definition symbol_valid :: "symbol \<Rightarrow> bool" where
  "symbol_valid v \<longleftrightarrow> unat (symbol_decimals v) \<le> max_precision \<and> valid_symbol_name (symbol_name v)"

text \<open>The two constructors.\<close>

definition symbol_of_value :: "64 word \<Rightarrow> symbol res" where
  "symbol_of_value v = eos_assert (symbol_valid v) Symbol_type_exception (Inr v)"

definition symbol_of_string :: "8 word \<Rightarrow> string \<Rightarrow> symbol res" where
  "symbol_of_string p s =
     ebind (string_to_symbol p s) (\<lambda>v. eos_assert (symbol_valid v) Symbol_type_exception (Inr v))"

fun p10_loop :: "nat \<Rightarrow> 64 word \<Rightarrow> 64 word" where
  "p10_loop 0 p10 = p10"
| "p10_loop (Suc p) p10 = p10_loop p (p10 * 10)"

definition symbol_precision :: "symbol \<Rightarrow> (64 word) res" where
  "symbol_precision v =
     eos_assert (unat (symbol_decimals v) \<le> max_precision) Symbol_type_exception
       (Inr (p10_loop (unat (symbol_decimals v)) 1))"

definition to_symbol_code :: "symbol \<Rightarrow> 64 word" where
  "to_symbol_code v = drop_bit 8 v"

text \<open>\<open>std::to_string\<close> on unsigned values.\<close>

definition digit_char :: "nat \<Rightarrow> char" where
  "digit_char d = char_of (48 + d)"

fun dec :: "nat \<Rightarrow> string" where
  "dec n = (if n < 10 then [digit_char n] else dec (n div 10) @ [digit_char (n mod 10)])"

declare dec.simps [simp del]

definition symbol_to_string :: "symbol \<Rightarrow> string" where
  "symbol_to_string v = dec (unat (symbol_decimals v)) @ '','' @ symbol_name v"

text \<open>What the code calls of the fc library: trimming, number parsing and printing, and the
  range check of its \<open>safe\<close> integers (applied to the exact result of an operation).\<close>

record fc_text =
  fc_trim :: "string \<Rightarrow> string"
  fc_to_int64 :: "string \<Rightarrow> i64 res"
  fc_to_string :: "i64 \<Rightarrow> string"
  fc_safe :: "int \<Rightarrow> i64 res"

text \<open>\<open>s.find(c)\<close> and the two parts around the first hit.\<close>

fun split_at :: "char \<Rightarrow> string \<Rightarrow> (string \<times> string) option" where
  "split_at c [] = None"
| "split_at c (x # xs) =
     (if x = c then Some ([], xs)
      else case split_at c xs of None \<Rightarrow> None | Some (a, b) \<Rightarrow> Some (x # a, b))"

text \<open>\<open>symbol::from_string\<close>: the precision is narrowed to \<open>uint8_t\<close> before it is checked.\<close>

definition symbol_from_string :: "fc_text \<Rightarrow> string \<Rightarrow> symbol res" where
  "symbol_from_string F from =
     (let s = fc_trim F from in
      eos_assert (s \<noteq> []) Symbol_type_exception
       (case split_at (CHR '','') s of
          None \<Rightarrow> Inl Symbol_type_exception
        | Some (prec_part, name_part) \<Rightarrow>
            ebind (fc_to_int64 F prec_part) (\<lambda>n.
              let p = (word_of_int n :: 8 word) in
              eos_assert (unat p \<le> max_precision) Symbol_type_exception
                (ebind (string_to_symbol p name_part) symbol_of_value))))"

section \<open>Assets\<close>

record asset =
  amount :: i64
  sym :: symbol

definition max_amount :: int where
  "max_amount = 2 ^ 62 - 1"

text \<open>Signed 64-bit addition: a result outside the type has no meaning in C++.\<close>

definition int64_result :: "int \<Rightarrow> i64 res" where
  "int64_result x = (if - (2 ^ 63) \<le> x \<and> x < 2 ^ 63 then Inr x else Inl Undefined_behaviour)"

definition is_amount_within_range :: "i64 \<Rightarrow> bool" where
  "is_amount_within_range a \<longleftrightarrow> - max_amount \<le> a \<and> a \<le> max_amount"

definition asset_is_valid :: "asset \<Rightarrow> bool" where
  "asset_is_valid a \<longleftrightarrow> is_amount_within_range (amount a) \<and> symbol_valid (sym a)"

definition make_asset :: "i64 \<Rightarrow> symbol \<Rightarrow> asset res" where
  "make_asset a s =
     eos_assert (is_amount_within_range a) Asset_type_exception
       (eos_assert (symbol_valid s) Asset_type_exception (Inr \<lparr>amount = a, sym = s\<rparr>))"

definition asset_add_assign :: "asset \<Rightarrow> asset \<Rightarrow> asset res" where
  "asset_add_assign a b =
     eos_assert (sym a = sym b) Asset_type_exception
       (ebind (int64_result (amount a + amount b)) (\<lambda>x. Inr (a\<lparr>amount := x\<rparr>)))"

definition asset_sub_assign :: "asset \<Rightarrow> asset \<Rightarrow> asset res" where
  "asset_sub_assign a b =
     eos_assert (sym a = sym b) Asset_type_exception
       (ebind (int64_result (amount a - amount b)) (\<lambda>x. Inr (a\<lparr>amount := x\<rparr>)))"

definition asset_neg :: "asset \<Rightarrow> asset res" where
  "asset_neg a = ebind (int64_result (- amount a)) (\<lambda>x. make_asset x (sym a))"

definition asset_eq :: "asset \<Rightarrow> asset \<Rightarrow> bool" where
  "asset_eq a b \<longleftrightarrow> sym a = sym b \<and> amount a = amount b"

definition asset_less :: "asset \<Rightarrow> asset \<Rightarrow> bool res" where
  "asset_less a b =
     eos_assert (sym a = sym b) Asset_type_exception
       (Inr (amount a < amount b \<or> amount a = amount b \<and> sym a < sym b))"

definition asset_less_eq :: "asset \<Rightarrow> asset \<Rightarrow> bool res" where
  "asset_less_eq a b = (if asset_eq a b then Inr True else asset_less a b)"

definition asset_greater :: "asset \<Rightarrow> asset \<Rightarrow> bool res" where
  "asset_greater a b = ebind (asset_less_eq a b) (\<lambda>r. Inr (\<not> r))"

definition asset_greater_eq :: "asset \<Rightarrow> asset \<Rightarrow> bool res" where
  "asset_greater_eq a b = ebind (asset_less a b) (\<lambda>r. Inr (\<not> r))"

definition asset_sub :: "asset \<Rightarrow> asset \<Rightarrow> asset res" where
  "asset_sub a b =
     eos_assert (sym a = sym b) Asset_type_exception
       (ebind (int64_result (amount a - amount b)) (\<lambda>x. make_asset x (sym a)))"

definition asset_add :: "asset \<Rightarrow> asset \<Rightarrow> asset res" where
  "asset_add a b =
     eos_assert (sym a = sym b) Asset_type_exception
       (ebind (int64_result (amount a + amount b)) (\<lambda>x. make_asset x (sym a)))"

text \<open>\<open>asset::to_string\<close>: both operands of the division are non-negative.\<close>

definition asset_to_string :: "fc_text \<Rightarrow> asset \<Rightarrow> string res" where
  "asset_to_string F a =
     (let sign = (if amount a < 0 then ''-'' else ''''); abs_amount = \<bar>amount a\<bar> in
      ebind (symbol_precision (sym a)) (\<lambda>p.
        let precision = uint p; result = fc_to_string F (abs_amount div precision) in
        if symbol_decimals (sym a) \<noteq> 0
        then let fract = abs_amount mod precision in
             Inr (sign @ result @ ''.'' @ drop 1 (fc_to_string F (precision + fract)) @ '' '' @ symbol_name (sym a))
        else Inr (sign @ result @ '' '' @ symbol_name (sym a))))"

text \<open>\<open>asset::from_string\<close>.\<close>

definition asset_from_string :: "fc_text \<Rightarrow> string \<Rightarrow> asset res" where
  "asset_from_string F from =
     (let s = fc_trim F from in
      case split_at (CHR '' '') s of
        None \<Rightarrow> Inl Asset_type_exception
      | Some (amount_str, after) \<Rightarrow>
         (let symbol_str = fc_trim F after in
          case split_at (CHR ''.'') amount_str of
            None \<Rightarrow>
              ebind (symbol_from_string F (''0'' @ '','' @ symbol_str)) (\<lambda>sy.
              ebind (fc_to_int64 F amount_str) (\<lambda>int_part.
              ebind (symbol_precision sy) (\<lambda>p.
              ebind (fc_safe F (int_part * sint p)) (\<lambda>x.
              ebind (fc_safe F (x + 0)) (\<lambda>y. make_asset y sy)))))
          | Some (int_str, fract_str) \<Rightarrow>
              eos_assert (fract_str \<noteq> []) Asset_type_exception
              (ebind (symbol_from_string F (dec (length fract_str) @ '','' @ symbol_str)) (\<lambda>sy.
               ebind (fc_to_int64 F int_str) (\<lambda>int_part.
               ebind (fc_to_int64 F fract_str) (\<lambda>f0.
               ebind (if c_char amount_str 0 = CHR ''-'' then fc_safe F (f0 * (-1)) else Inr f0) (\<lambda>fract_part.
               ebind (symbol_precision sy) (\<lambda>p.
               ebind (fc_safe F (int_part * sint p)) (\<lambda>x.
               ebind (fc_safe F (x + fract_part)) (\<lambda>y. make_asset y sy))))))))))"

section \<open>Names as little-endian bytes\<close>

fun le8 :: "string \<Rightarrow> 64 word" where
  "le8 [] = 0"
| "le8 (c # cs) = of_char c OR push_bit 8 (le8 cs)"

lemma mask8: "(255 :: 64 word) = mask 8"
  by (simp add: mask_eq_exp_minus_1)

lemma unat_of_char: "unat (of_char c :: 64 word) = of_char c"
proof -
  have "(of_char c :: 64 word) = of_nat (of_char c)"
    by (simp add: of_char_def)
  moreover have "of_char c < (2 ^ 64 :: nat)"
    using nat_of_char_less_256 [of c] by (rule order_less_trans) simp
  ultimately show ?thesis by (simp add: unat_of_nat)
qed

lemma take_bit8_of_char: "take_bit 8 (of_char c :: 64 word) = of_char c"
  using nat_of_char_less_256 [of c] by (intro take_bit_small) (simp add: unat_of_char)

lemma bit_of_char: "bit (of_char c :: 64 word) n \<Longrightarrow> n < 8"
  by (metis bit_take_bit_iff take_bit8_of_char)

lemma bit_le8: "bit (le8 cs) n \<Longrightarrow> n < 8 * length cs"
  by (induction cs arbitrary: n) (auto simp: bit_simps dest!: bit_of_char, fastforce)

lemma le8_low: "le8 (c # cs) AND 255 = of_char c"
proof -
  have "push_bit 8 (le8 cs) AND (mask 8 :: 64 word) = 0"
    by (intro bit_eqI) (auto simp: bit_simps)
  then show ?thesis
    by (simp add: mask8 bit.conj_disj_distrib2 take_bit8_of_char flip: take_bit_eq_mask)
qed

lemma le8_high: "length cs \<le> 7 \<Longrightarrow> drop_bit 8 (le8 (c # cs)) = le8 cs"
  by (intro bit_eqI) (auto simp: bit_simps dest: bit_of_char bit_le8)

lemma le8_pos: "of_char c \<noteq> (0 :: nat) \<Longrightarrow> le8 (c # cs) > 0"
  using le8_low [of c cs] unat_of_char [of c]
  by (cases "le8 (c # cs) = 0") (simp_all add: word_gt_0 del: le8.simps)

lemma low_high8: "(v AND 255) OR push_bit 8 (drop_bit 8 v) = (v :: 64 word)"
proof (rule bit_eqI)
  fix n
  show "bit ((v AND 255) OR push_bit 8 (drop_bit 8 v)) n = bit v n"
    by (cases "n < 8") (auto simp: mask8 bit_simps dest: bit_imp_le_length)
qed

lemma symbol_name_loop_acc:
  "symbol_name_loop v (acc @ result) = acc @ symbol_name_loop v result"
proof (induction v result rule: symbol_name_loop.induct)
  case (1 v result)
  then show ?case
    by (cases "v > 0") (simp_all add: symbol_name_loop.simps [of v])
qed

lemma symbol_name_loop_Cons: "v > 0 \<Longrightarrow>
  symbol_name_loop v [] = char_of (unat (v AND 255)) # symbol_name_loop (drop_bit 8 v) []"
  using symbol_name_loop_acc [of "drop_bit 8 v" "[char_of (unat (v AND 255))]" "[]"]
  by (simp add: symbol_name_loop.simps [of v])

lemma symbol_name_loop_0 [simp]: "symbol_name_loop 0 acc = acc"
  by (simp add: symbol_name_loop.simps)

lemma symbol_name_loop_le8:
  "length s \<le> 8 \<Longrightarrow> \<forall>c \<in> set s. of_char c \<noteq> (0 :: nat) \<Longrightarrow> symbol_name_loop (le8 s) [] = s"
proof (induction s)
  case Nil
  then show ?case by simp
next
  case (Cons c s)
  then have "symbol_name_loop (le8 (c # s)) [] =
      char_of (unat (le8 (c # s) AND 255)) # symbol_name_loop (drop_bit 8 (le8 (c # s))) []"
    by (intro symbol_name_loop_Cons le8_pos) simp
  with Cons show ?case
    by (simp add: le8_low le8_high unat_of_char del: le8.simps)
qed

lemma unat_drop_bit8: "unat (drop_bit 8 (v :: 64 word)) = unat v div 256"
  by (simp add: drop_bit_eq_div unat_div)

lemma le8_symbol_name_loop: "le8 (symbol_name_loop v []) = v"
proof (induction "unat v" arbitrary: v rule: less_induct)
  case less
  show ?case
  proof (cases "v > 0")
    case True
    then have "unat (drop_bit 8 v) < unat v"
      by (simp add: unat_drop_bit8 unat_gt_0 word_gt_0)
    then have IH: "le8 (symbol_name_loop (drop_bit 8 v) []) = drop_bit 8 v"
      by (rule less)
    have "(of_char (char_of (unat (v AND 255))) :: 64 word) = v AND 255"
    proof -
      have "unat (v AND 255) < 256"
        unfolding mask8 take_bit_eq_mask [symmetric]
        using take_bit_nat_less_exp [of 8 "unat v"] by (simp add: unsigned_take_bit_eq)
      then show ?thesis
        by (simp add: word_unat_eq_iff unat_of_char)
    qed
    with True show ?thesis
      by (simp add: symbol_name_loop_Cons IH low_high8)
  next
    case False
    then have "v = 0" by (simp add: word_gt_0)
    then show ?thesis by simp
  qed
qed

lemma length_symbol_name_loop: "unat v < 256 ^ k \<Longrightarrow> length (symbol_name_loop v []) \<le> k"
proof (induction k arbitrary: v)
  case 0
  then show ?case by (simp add: unat_eq_0)
next
  case (Suc k)
  show ?case
  proof (cases "v > 0")
    case True
    with Suc.prems have "unat (drop_bit 8 v) < 256 ^ k"
      by (simp add: unat_drop_bit8 less_mult_imp_div_less mult.commute)
    with Suc.IH True show ?thesis by (simp add: symbol_name_loop_Cons)
  next
    case False
    then show ?thesis by (simp add: word_gt_0)
  qed
qed

lemma length_symbol_name: "length (symbol_name v) \<le> 7"
proof -
  have "unat v < 2 ^ 64" using unsigned_less [of v] by simp
  then show ?thesis
    unfolding symbol_name_def
    by (intro length_symbol_name_loop) (simp add: unat_drop_bit8 less_mult_imp_div_less)
qed

lemma string_to_symbol_loop_ok:
  "valid_symbol_name s \<Longrightarrow> i + length s \<le> 7 \<Longrightarrow>
   string_to_symbol_loop s i r = Inr (r OR push_bit (8 * (i + 1)) (le8 s))"
proof (induction s arbitrary: i r)
  case Nil
  then show ?case by simp
next
  case (Cons c s)
  have "string_to_symbol_loop (c # s) i r =
      Inr ((r OR push_bit (8 * (i + 1)) (of_char c)) OR push_bit (8 * (i + 1 + 1)) (le8 s))"
    using Cons by (simp add: valid_symbol_name_def)
  then show ?case by (simp add: or.assoc push_bit_or add.commute)
qed

lemma valid_symbol_name_nonzero:
  "valid_symbol_name s \<Longrightarrow> c \<in> set s \<Longrightarrow> of_char c \<noteq> (0 :: nat)"
  by (auto simp: valid_symbol_name_def)

lemma c_str_valid_symbol: "valid_symbol_name s \<Longrightarrow> c_str s = s"
  by (rule c_str_id) (auto dest: valid_symbol_name_nonzero)

lemma string_to_symbol_ok:
  "valid_symbol_name s \<Longrightarrow> length s \<le> 7 \<Longrightarrow>
   string_to_symbol p s = Inr (push_bit 8 (le8 s) OR ucast p)"
  by (simp add: string_to_symbol_def c_str_valid_symbol string_to_symbol_loop_ok)

lemma symbol_parts:
  assumes "length s \<le> 7"
  shows "drop_bit 8 (push_bit 8 (le8 s) OR ucast (p :: 8 word)) = le8 s"
    and "(push_bit 8 (le8 s) OR ucast (p :: 8 word)) AND 255 = ucast p"
proof -
  show "drop_bit 8 (push_bit 8 (le8 s) OR ucast p) = le8 s"
    using assms by (intro bit_eqI) (auto simp: bit_simps dest: bit_le8 bit_imp_le_length)
  show "(push_bit 8 (le8 s) OR ucast p) AND 255 = ucast p"
    by (intro bit_eqI) (auto simp: mask8 bit_simps dest: bit_imp_le_length)
qed

lemma p10_loop_eq: "p10_loop p x = x * 10 ^ p"
  by (induction p arbitrary: x) (simp_all add: mult.assoc)

section \<open>Properties\<close>

text \<open>
  A precision of at most 18 and a name of at most seven capital letters make a symbol:
  the constructor returns it, and its decimals and its name are the given ones. An eighth
  letter shifts by 64 bits, which is undefined, and any other character is refused.
\<close>

theorem symbol_of_string_parts:
  assumes "unat p \<le> max_precision" and "valid_symbol_name s" and "length s \<le> 7"
  shows "\<exists>v. symbol_of_string p s = Inr v \<and> symbol_valid v \<and>
    symbol_name v = s \<and> symbol_decimals v = p"
proof -
  let ?v = "push_bit 8 (le8 s) OR ucast p :: 64 word"
  have "symbol_name ?v = s"
    using assms(2,3) symbol_parts(1) [OF assms(3), of p]
    by (simp add: symbol_name_def symbol_name_loop_le8 valid_symbol_name_nonzero del: drop_bit_or)
  moreover have "symbol_decimals ?v = p"
    unfolding symbol_decimals_def symbol_parts(2) [OF assms(3)]
    by (rule bit_eqI) (auto simp: bit_simps dest: bit_imp_le_length)
  ultimately show ?thesis
    using assms by (simp add: symbol_of_string_def string_to_symbol_ok symbol_valid_def)
qed

theorem symbol_of_string_parts_witness:
  "symbol_of_string 4 ''EOS'' = Inr 0x534F4504 \<and> symbol_name 0x534F4504 = ''EOS''"
proof -
  have v: "symbol_of_string 4 ''EOS'' = Inr 0x534F4504"
    by (simp add: symbol_of_string_def string_to_symbol_def c_str_def symbol_valid_def
        symbol_decimals_def max_precision_def symbol_name_def symbol_name_loop.simps
        valid_symbol_name_def)
  have "unat (4 :: 8 word) \<le> max_precision" "valid_symbol_name ''EOS''" "length ''EOS'' \<le> 7"
    by (simp_all add: max_precision_def valid_symbol_name_def)
  from symbol_of_string_parts [OF this] v show ?thesis by simp
qed

text \<open>
  Conversely every valid symbol value is the value of its own decimals and name, so
  symbols that print alike are equal.
\<close>

theorem symbol_value_roundtrip:
  assumes "symbol_valid v"
  shows "string_to_symbol (symbol_decimals v) (symbol_name v) = Inr v"
proof -
  have "push_bit 8 (drop_bit 8 v) OR ucast (symbol_decimals v) = v"
  proof -
    have "ucast (ucast (v AND 255) :: 8 word) = v AND 255"
      by (intro bit_eqI) (auto simp: mask8 bit_simps)
    then show ?thesis using low_high8 [of v] by (simp add: symbol_decimals_def or.commute)
  qed
  moreover have "le8 (symbol_name v) = drop_bit 8 v"
    by (simp add: symbol_name_def le8_symbol_name_loop)
  ultimately show ?thesis
    using assms length_symbol_name [of v] by (simp add: symbol_valid_def string_to_symbol_ok)
qed

theorem symbol_value_roundtrip_witness:
  "symbol_valid 0x534F4504 \<and> string_to_symbol 4 ''EOS'' = Inr 0x534F4504"
proof -
  have "symbol_decimals 0x534F4504 = 4" "symbol_name 0x534F4504 = ''EOS''"
    by code_simp+
  moreover from this have "symbol_valid 0x534F4504"
    by (simp add: symbol_valid_def max_precision_def valid_symbol_name_def)
  ultimately show ?thesis using symbol_value_roundtrip [of "0x534F4504"] by simp
qed

text \<open>
  The precision factor of a symbol is ten to the power of its decimals: the 64-bit
  multiplications never wrap, and a symbol with more than 18 decimals is refused.
\<close>

theorem symbol_precision_power:
  "map_sum id unat (symbol_precision v) =
     (if unat (symbol_decimals v) \<le> 18 then Inr (10 ^ unat (symbol_decimals v))
      else Inl Symbol_type_exception)"
proof (cases "unat (symbol_decimals v) \<le> 18")
  case True
  then have "(10 :: nat) ^ unat (symbol_decimals v) < 2 ^ 64"
    using power_increasing [OF True, of "10 :: nat"] by simp
  then have "unat (of_nat (10 ^ unat (symbol_decimals v)) :: 64 word) = 10 ^ unat (symbol_decimals v)"
    by (simp add: unat_of_nat del: of_nat_power)
  with True show ?thesis
    by (simp add: symbol_precision_def max_precision_def p10_loop_eq eos_assert_def)
next
  case False
  then show ?thesis by (simp add: symbol_precision_def max_precision_def eos_assert_def)
qed

text \<open>
  Adding valid assets is total and safe: with equal symbols the sum never leaves
  \<open>int64_t\<close>, it is returned when its magnitude stays below \<open>2^62\<close> and refused otherwise;
  with different symbols it is refused. What is returned is valid again.
\<close>

theorem asset_add_safe:
  assumes "asset_is_valid a" and "asset_is_valid b"
  shows "asset_add a b =
      (if sym a = sym b \<and> is_amount_within_range (amount a + amount b)
       then Inr \<lparr>amount = amount a + amount b, sym = sym a\<rparr> else Inl Asset_type_exception) \<and>
    asset_sub a b =
      (if sym a = sym b \<and> is_amount_within_range (amount a - amount b)
       then Inr \<lparr>amount = amount a - amount b, sym = sym a\<rparr> else Inl Asset_type_exception)"
  using assms
  by (auto simp: asset_add_def asset_sub_def int64_result_def make_asset_def eos_assert_def
      asset_is_valid_def is_amount_within_range_def max_amount_def)

theorem asset_add_safe_witness:
  "asset_add \<lparr>amount = 2 ^ 61, sym = 0x534F4504\<rparr> \<lparr>amount = 2 ^ 61, sym = 0x534F4504\<rparr>
     = Inl Asset_type_exception"
proof -
  have "asset_is_valid \<lparr>amount = 2 ^ 61, sym = 0x534F4504\<rparr>" by code_simp
  from asset_add_safe [OF this this] show ?thesis
    by (simp add: is_amount_within_range_def max_amount_def)
qed

end
