(* ===== verification/Block_Header.thy ===== *)
theory Block_Header
  imports Chain_Names
begin

text \<open>
  Block time slots (\<open>block_timestamp.hpp\<close>), producer schedules (\<open>producer_schedule.hpp\<close>),
  block headers with the block number stored in their ids and their extensions
  (\<open>block_header.hpp\<close>, \<open>block_header.cpp\<close>), and the protocol feature activation extension with
  the set of activated features (\<open>protocol_feature_activation.cpp\<close>). Hashing, key recovery,
  serialization and byte reversal belong to the \<open>fc\<close> library and are fields of the record
  \<open>fc_crypto\<close> that the operations take as an argument.
\<close>

section \<open>Time slots\<close>

text \<open>
  A \<open>block_timestamp\<close> is its slot number. The template arguments are the slot length in
  milliseconds and the epoch; a time point is its count of microseconds, and \<open>ms\<close> stands for
  \<open>fc::milliseconds\<close>.
\<close>

type_synonym slot = u32

definition block_timestamp_epoch :: u64 where
  "block_timestamp_epoch = 946684800000"

definition maximum_timestamp :: slot where
  "maximum_timestamp = 0xffff"

definition timestamp_next :: "slot \<Rightarrow> slot res" where
  "timestamp_next s = eos_assert (u32_max - s \<ge> 1) Overflow_exception (Inr (wrap32 (s + 1)))"

definition to_time_point :: "(i64 \<Rightarrow> i64) \<Rightarrow> u16 \<Rightarrow> u64 \<Rightarrow> slot \<Rightarrow> i64" where
  "to_time_point ms interval epoch s = ms (int s * int interval + int epoch)"

text \<open>Integer division of C++ on signed operands, rounding towards zero.\<close>

definition tdiv :: "int \<Rightarrow> int \<Rightarrow> int" where
  "tdiv a b = (if a < 0 then - ((- a) div b) else a div b)"

text \<open>
  \<open>msec_since_epoch - EpochMs\<close> mixes a signed and an unsigned 64-bit operand, so it is
  computed modulo \<open>2^64\<close>; the quotient is narrowed to 32 bits.
\<close>

definition set_time_point :: "u16 \<Rightarrow> u64 \<Rightarrow> i64 \<Rightarrow> slot" where
  "set_time_point interval epoch micros =
     wrap32 (nat ((tdiv micros 1000 - int epoch) mod 2 ^ 64) div interval)"

definition set_time_point_sec :: "u16 \<Rightarrow> u64 \<Rightarrow> u32 \<Rightarrow> slot" where
  "set_time_point_sec interval epoch secs = wrap32 (sub64 (secs * 1000) epoch div interval)"

section \<open>Producer schedules\<close>

text \<open>
  Public keys and signatures are opaque tokens of which the code uses equality only; key 0 is
  the default-constructed \<open>public_key_type()\<close>.
\<close>

type_synonym public_key = nat
type_synonym signature = nat
type_synonym account_name = name

record producer_key =
  producer_name :: account_name
  block_signing_key :: public_key

record producer_schedule_type =
  version :: u32
  producers :: "producer_key list"

fun get_producer_key_loop :: "producer_key list \<Rightarrow> account_name \<Rightarrow> public_key" where
  "get_producer_key_loop [] p = 0"
| "get_producer_key_loop (i # is) p =
     (if producer_name i = p then block_signing_key i else get_producer_key_loop is p)"

definition get_producer_key :: "producer_schedule_type \<Rightarrow> account_name \<Rightarrow> public_key" where
  "get_producer_key s p = get_producer_key_loop (producers s) p"

function producers_eq_loop :: "nat \<Rightarrow> producer_key list \<Rightarrow> producer_key list \<Rightarrow> bool" where
  "producers_eq_loop i as bs =
     (if i < length as then (if as ! i \<noteq> bs ! i then False else producers_eq_loop (Suc i) as bs)
      else True)"
  by pat_completeness auto
termination
  by (relation "measure (\<lambda>(i, as, bs). length as - i)") auto

declare producers_eq_loop.simps [simp del]

definition schedule_eq :: "producer_schedule_type \<Rightarrow> producer_schedule_type \<Rightarrow> bool" where
  "schedule_eq a b =
     (if version a \<noteq> version b then False
      else if length (producers a) \<noteq> length (producers b) then False
      else producers_eq_loop 0 (producers a) (producers b))"

text \<open>The copy of a schedule in shared memory, assigned and read back element by element.\<close>

record shared_producer_schedule_type =
  shared_version :: u32
  shared_producers :: "producer_key list"

definition shared_assign ::
  "shared_producer_schedule_type \<Rightarrow> producer_schedule_type \<Rightarrow> shared_producer_schedule_type" where
  "shared_assign s a =
     s\<lparr>shared_version := version a,
       shared_producers := foldl (\<lambda>ps p. ps @ [p]) [] (producers a)\<rparr>"

definition shared_to_schedule :: "shared_producer_schedule_type \<Rightarrow> producer_schedule_type" where
  "shared_to_schedule s =
     \<lparr>version = shared_version s, producers = foldl (\<lambda>ps p. ps @ [p]) [] (shared_producers s)\<rparr>"

definition shared_clear :: "shared_producer_schedule_type \<Rightarrow> shared_producer_schedule_type" where
  "shared_clear s = s\<lparr>shared_version := 0, shared_producers := []\<rparr>"

section \<open>Block headers\<close>

type_synonym bytes = "8 word list"
type_synonym block_id = sha256

record block_header =
  timestamp :: slot
  producer :: account_name
  confirmed :: u16
  previous :: block_id
  transaction_mroot :: sha256
  action_mroot :: sha256
  schedule_version :: u32
  new_producers :: "producer_schedule_type option"
  header_extensions :: "(u16 \<times> bytes) list"

record signed_block_header = block_header +
  producer_signature :: signature

record fc_crypto =
  hash_header :: "block_header \<Rightarrow> sha256"
  hash_pair :: "sha256 \<Rightarrow> sha256 \<Rightarrow> sha256"
  hash_schedule :: "producer_schedule_type \<Rightarrow> sha256"
  recover_key :: "signature \<Rightarrow> sha256 \<Rightarrow> bool \<Rightarrow> public_key res"
  endian_reverse_u32 :: "32 word \<Rightarrow> 32 word"
  unpack_digests :: "bytes \<Rightarrow> (sha256 list) res"
  pack_digests :: "sha256 list \<Rightarrow> bytes"
  digest_lt :: "sha256 \<Rightarrow> sha256 \<Rightarrow> bool"

text \<open>
  \<open>digest()\<close> is a member of \<open>block_header\<close>: the signature that the derived class adds is not
  part of what is hashed.
\<close>

definition header_digest :: "fc_crypto \<Rightarrow> 'a block_header_scheme \<Rightarrow> sha256" where
  "header_digest fc h = hash_header fc (block_header.truncate h)"

definition num_from_id :: "fc_crypto \<Rightarrow> block_id \<Rightarrow> u32" where
  "num_from_id fc i = unat (endian_reverse_u32 fc (ucast (hash0 i)))"

definition header_block_num :: "fc_crypto \<Rightarrow> 'a block_header_scheme \<Rightarrow> u32" where
  "header_block_num fc h = wrap32 (num_from_id fc (previous h) + 1)"

definition header_id :: "fc_crypto \<Rightarrow> 'a block_header_scheme \<Rightarrow> block_id" where
  "header_id fc h =
     (let result = header_digest fc h in
      Sha256 ((hash0 result AND 0xffffffff00000000)
                + ucast (endian_reverse_u32 fc (of_nat (header_block_num fc h))))
             (hash1 result) (hash2 result) (hash3 result))"

section \<open>Header extensions\<close>

text \<open>
  The only extension type is \<open>protocol_feature_activation\<close>, with id 0 and at most one
  occurrence. Unpacking a reflected type runs its \<open>reflector_init\<close>.
\<close>

datatype block_header_extension = Protocol_feature_activation (protocol_features: "sha256 list")

definition activation_extension_id :: u16 where
  "activation_extension_id = 0"

definition activation_enforce_unique :: bool where
  "activation_enforce_unique = True"

definition activation_reflector_init :: "sha256 list \<Rightarrow> unit res" where
  "activation_reflector_init fs =
     eos_assert (length fs > 0) Ill_formed_protocol_feature_activation
       (ebind (efold (\<lambda>d s. eos_assert (d \<notin> set s) Ill_formed_protocol_feature_activation
                               (Inr (d # s))) fs [])
              (\<lambda>_. Inr ()))"

definition extract_extension ::
  "fc_crypto \<Rightarrow> u16 \<Rightarrow> bytes \<Rightarrow> ((block_header_extension \<times> bool) option) res" where
  "extract_extension fc i data =
     (if i = activation_extension_id
      then ebind (unpack_digests fc data) (\<lambda>fs. ebind (activation_reflector_init fs)
             (\<lambda>_. Inr (Some (Protocol_feature_activation fs, activation_enforce_unique))))
      else Inr None)"

fun extract_loop ::
  "fc_crypto \<Rightarrow> nat \<Rightarrow> u16 \<Rightarrow> (u16 \<times> bytes) list \<Rightarrow> block_header_extension list \<Rightarrow>
     (block_header_extension list) res" where
  "extract_loop fc i lower [] results = Inr results"
| "extract_loop fc i lower ((ident, data) # es) results =
     eos_assert (ident \<ge> lower) Invalid_block_header_extension
       (ebind (extract_extension fc ident data) (\<lambda>match.
          case match of
            None \<Rightarrow> Inl Invalid_block_header_extension
          | Some (ext, unique) \<Rightarrow>
              eos_assert (\<not> unique \<or> i = 0 \<or> ident > lower) Invalid_block_header_extension
                (extract_loop fc (Suc i) ident es (results @ [ext]))))"

definition validate_and_extract_header_extensions ::
  "fc_crypto \<Rightarrow> 'a block_header_scheme \<Rightarrow> (block_header_extension list) res" where
  "validate_and_extract_header_extensions fc h = extract_loop fc 0 0 (header_extensions h) []"

text \<open>
  \<open>protocol_feature_activation_set\<close>: the flat set of activated features, extended by the union
  with newly activated ones. The order on digests is that of \<open>fc::sha256\<close>, a parameter.
\<close>

definition make_activation_set ::
  "(sha256 \<Rightarrow> sha256 \<Rightarrow> bool) \<Rightarrow> sha256 list \<Rightarrow> sha256 list \<Rightarrow> bool \<Rightarrow> (sha256 list) res" where
  "make_activation_set lt s1 additional enforce_disjoint =
     (let s2 = std_sort lt additional;
          expected_size = length s1 + length s2;
          features = foldl (\<lambda>s v. flat_insert lt v s) [] (set_union lt s1 s2)
      in eos_assert (\<not> enforce_disjoint \<or> length features = expected_size)
           Invalid_block_header_extension (Inr features))"

section \<open>Properties\<close>

lemma foldl_push_back: "foldl (\<lambda>ps p. ps @ [p]) acc xs = acc @ xs"
  by (induction xs arbitrary: acc) auto

lemma producers_eq_loop_iff:
  "length as = length bs \<Longrightarrow>
   producers_eq_loop i as bs \<longleftrightarrow> (\<forall>j. i \<le> j \<and> j < length as \<longrightarrow> as ! j = bs ! j)"
proof (induction i as bs rule: producers_eq_loop.induct)
  case (1 i as bs)
  show ?case
  proof (cases "i < length as \<and> as ! i = bs ! i")
    case True
    with 1 have "producers_eq_loop (Suc i) as bs \<longleftrightarrow> (\<forall>j. Suc i \<le> j \<and> j < length as \<longrightarrow> as ! j = bs ! j)"
      by blast
    moreover have "i \<le> j \<longleftrightarrow> i = j \<or> Suc i \<le> j" for j by auto
    ultimately show ?thesis using True by (subst producers_eq_loop.simps) auto
  next
    case False
    then show ?thesis by (subst producers_eq_loop.simps) auto
  qed
qed

lemma schedule_eq_iff: "schedule_eq a b \<longleftrightarrow> a = b"
proof -
  have "schedule_eq a b \<longleftrightarrow> version a = version b \<and> producers a = producers b"
    by (auto simp: schedule_eq_def producers_eq_loop_iff list_eq_iff_nth_eq)
  then show ?thesis by (cases a, cases b) auto
qed

lemma shared_schedule_roundtrip:
  "shared_to_schedule (shared_assign s a) = a"
  by (simp add: shared_to_schedule_def shared_assign_def foldl_push_back)

lemma get_producer_key_loop_eq:
  "get_producer_key_loop ps p =
     (case filter (\<lambda>k. producer_name k = p) ps of [] \<Rightarrow> 0 | k # _ \<Rightarrow> block_signing_key k)"
  by (induction ps) auto

subsection \<open>Time slots\<close>

text \<open>
  Converting a time point to a slot finds the slot whose interval contains it: every time
  from the start of slot \<open>s\<close> up to the start of the next slot is mapped to \<open>s\<close>, for all 32-bit
  slots and every slot length. In particular the start of a slot is mapped back to the slot.
\<close>

theorem set_time_point_slot:
  assumes ms: "\<And>m. ms m = 1000 * m" and interval: "0 < interval" "interval < 2 ^ 16"
    and s: "s < 2 ^ 32"
    and t: "to_time_point ms interval block_timestamp_epoch s \<le> t"
      "t < to_time_point ms interval block_timestamp_epoch s + 1000 * int interval"
  shows "set_time_point interval block_timestamp_epoch t = s"
proof -
  define e where "e = t div 1000 - int block_timestamp_epoch"
  from ms t have lo: "int s * int interval \<le> e" and hi: "e < (int s + 1) * int interval"
    by (simp_all add: to_time_point_def e_def block_timestamp_epoch_def algebra_simps)
  from lo interval have "0 \<le> e" using order_trans [of 0 "int s * int interval" e] by simp
  moreover have "e < 2 ^ 64"
  proof -
    have "(int s + 1) * int interval \<le> 2 ^ 32 * 2 ^ 16"
      using s interval by (intro mult_mono) auto
    with hi show ?thesis by simp
  qed
  ultimately have "nat (e mod 2 ^ 64) = nat e" by simp
  moreover have "nat e div interval = s"
  proof -
    have "e div int interval = int s"
      using lo hi interval by (intro int_div_pos_eq [where r = "e - int s * int interval"]) (auto simp: algebra_simps)
    with \<open>0 \<le> e\<close> show ?thesis
      by (metis nat_int nat_div_distrib)
  qed
  moreover have "tdiv t 1000 - int block_timestamp_epoch = e"
  proof -
    have "0 \<le> t" using lo \<open>0 \<le> e\<close> by (auto simp: e_def block_timestamp_epoch_def)
    then show ?thesis by (simp add: tdiv_def e_def)
  qed
  ultimately show ?thesis using s by (simp add: set_time_point_def)
qed

theorem set_time_point_slot_witness:
  "set_time_point 500 block_timestamp_epoch 946684800999999 = 1"
  by (rule set_time_point_slot [of "\<lambda>m. 1000 * m"])
    (simp_all add: to_time_point_def block_timestamp_epoch_def)

subsection \<open>Block numbers and ids\<close>

lemma ucast_high_plus:
  "ucast ((d AND 0xffffffff00000000) + (ucast w :: 64 word)) = (w :: 32 word)"
proof -
  have mask: "(0xffffffff00000000 :: 64 word) = push_bit 32 (mask 32)" by (simp add: mask_eq_exp_minus_1)
  have "d AND 0xffffffff00000000 AND (ucast w :: 64 word) = 0"
    unfolding mask by (intro bit_eqI) (auto simp: bit_simps dest: bit_imp_le_length)
  then have "(d AND 0xffffffff00000000) + (ucast w :: 64 word) = (d AND 0xffffffff00000000) OR ucast w"
    by (simp add: disjunctive_add_eq_or and.assoc)
  then show ?thesis
    unfolding mask by (intro bit_eqI) (auto simp: bit_simps dest: bit_imp_le_length)
qed

lemma num_from_id_header_id:
  assumes "\<And>w. endian_reverse_u32 fc (endian_reverse_u32 fc w) = w"
  shows "num_from_id fc (header_id fc h) = header_block_num fc h"
proof -
  have "header_block_num fc h < 2 ^ 32" by (simp add: header_block_num_def wrap32_def)
  then show ?thesis
    by (simp add: num_from_id_def header_id_def Let_def ucast_high_plus assms unat_of_nat)
qed

text \<open>
  The number of a block can be read back from its id, and the header built on that id has
  the next number: reversing the bytes of a 32-bit word twice being the identity is all that
  is needed of the byte order function, and nothing of the hash.
\<close>

theorem block_num_in_id:
  fixes h :: "'a block_header_scheme" and h' :: "'b block_header_scheme"
  assumes rev: "\<And>w. endian_reverse_u32 fc (endian_reverse_u32 fc w) = w"
    and link: "previous h' = header_id fc h"
  shows "num_from_id fc (header_id fc h) = header_block_num fc h \<and>
         header_block_num fc h' = wrap32 (header_block_num fc h + 1)"
  using num_from_id_header_id [OF rev, of h] link by (simp add: header_block_num_def)

text \<open>
  A concrete instance of the external functions, for the examples below: byte reversal, a toy
  hash, signatures that are the key itself, and packed digests of four words each.
\<close>

definition byte_swap32 :: "32 word \<Rightarrow> 32 word" where
  "byte_swap32 w =
     push_bit 24 (w AND 0xff) OR push_bit 8 (w AND 0xff00) OR
     (drop_bit 8 w AND 0xff00) OR (drop_bit 24 w AND 0xff)"

definition sample_fc :: fc_crypto where
  "sample_fc =
     \<lparr>hash_header = (\<lambda>h. Sha256 (of_nat (timestamp h)) (producer h) (hash1 (previous h)) 7),
      hash_pair = (\<lambda>a b. Sha256 (hash0 a + 3 * hash0 b) (hash1 a) (hash1 b) 5),
      hash_schedule = (\<lambda>s. Sha256 (of_nat (version s)) (of_nat (length (producers s))) 0 1),
      recover_key = (\<lambda>s d chk. Inr s),
      endian_reverse_u32 = byte_swap32,
      unpack_digests = (\<lambda>b. Inr (map (\<lambda>x. Sha256 (ucast x) 0 0 0) b)),
      pack_digests = map (\<lambda>d. ucast (hash0 d)),
      digest_lt = sha256_less\<rparr>"

lemma byte_swap32_twice: "byte_swap32 (byte_swap32 w) = w"
proof -
  have m: "(0xff :: 32 word) = mask 8" "(0xff00 :: 32 word) = push_bit 8 (mask 8)"
    by (simp_all add: mask_eq_exp_minus_1)
  show ?thesis
  proof (rule bit_word_eqI)
    fix n
    assume "n < LENGTH(32)"
    then have "n < 8 \<or> 8 \<le> n \<and> n < 16 \<or> 16 \<le> n \<and> n < 24 \<or> 24 \<le> n \<and> n < 32" by auto
    then show "bit (byte_swap32 (byte_swap32 w)) n = bit w n"
      unfolding byte_swap32_def m
      by (elim disjE conjE) (auto simp: bit_simps)
  qed
qed

definition sample_header :: "nat \<Rightarrow> block_id \<Rightarrow> block_header" where
  "sample_header t prev =
     \<lparr>timestamp = t, producer = 1, confirmed = 0, previous = prev, transaction_mroot = null_digest,
      action_mroot = null_digest, schedule_version = 0, new_producers = None,
      header_extensions = []\<rparr>"

theorem block_num_in_id_witness:
  "num_from_id sample_fc (header_id sample_fc (sample_header 9 null_digest)) = 1 \<and>
   header_block_num sample_fc
     (sample_header 10 (header_id sample_fc (sample_header 9 null_digest))) = 2"
proof -
  have rev: "\<And>w. endian_reverse_u32 sample_fc (endian_reverse_u32 sample_fc w) = w"
    by (simp add: sample_fc_def byte_swap32_twice)
  have one: "header_block_num sample_fc (sample_header 9 null_digest) = 1"
    by (simp add: header_block_num_def num_from_id_def sample_fc_def byte_swap32_def
        sample_header_def null_digest_def)
  show ?thesis
    using block_num_in_id [of sample_fc "sample_header 10 (header_id sample_fc (sample_header 9 null_digest))"
        "sample_header 9 null_digest", OF rev] one
    by (simp add: sample_header_def)
qed

subsection \<open>Extensions and the activation set\<close>

lemma reflector_loop:
  "efold (\<lambda>d s. eos_assert (d \<notin> set s) e (Inr (d # s))) fs acc =
     (if distinct fs \<and> set fs \<inter> set acc = {} then Inr (rev fs @ acc) else Inl e)"
  by (induction fs arbitrary: acc) (auto simp: eos_assert_def)

lemma activation_reflector_init_eq:
  "activation_reflector_init fs =
     (if fs \<noteq> [] \<and> distinct fs then Inr () else Inl Ill_formed_protocol_feature_activation)"
  by (cases fs) (simp_all add: activation_reflector_init_def reflector_loop)

text \<open>
  A header's extensions are accepted exactly when there are none, or a single one with id
  0 whose bytes unpack to a non-empty list of distinct feature digests; the list is what is
  returned.
\<close>

theorem header_extensions_accepted:
  "validate_and_extract_header_extensions fc h = Inr exts \<longleftrightarrow>
     (header_extensions h = [] \<and> exts = []) \<or>
     (\<exists>data fs. header_extensions h = [(0, data)] \<and> unpack_digests fc data = Inr fs \<and>
        fs \<noteq> [] \<and> distinct fs \<and> exts = [Protocol_feature_activation fs])"
proof (cases "header_extensions h")
  case Nil
  then show ?thesis by (auto simp: validate_and_extract_header_extensions_def)
next
  case (Cons e es)
  show ?thesis
  proof (cases es)
    case Nil
    with Cons show ?thesis
      by (cases e) (auto simp: validate_and_extract_header_extensions_def extract_extension_def
          activation_reflector_init_eq activation_extension_id_def res_simps split: if_splits option.splits)
  next
    case (Cons e' es')
    with \<open>header_extensions h = e # es\<close> show ?thesis
      by (cases e; cases e') (auto simp: validate_and_extract_header_extensions_def extract_extension_def
          activation_extension_id_def activation_enforce_unique_def res_simps split: if_splits option.splits)
  qed
qed

interpretation sha: strict_linear_order sha256_less
  by unfold_locales (auto simp: sha256_less_def intro: sha256.expand)

text \<open>
  Adding newly activated features to the activation set: with any strict total order on
  digests, the result is the sorted union, and it is refused exactly when a new feature is
  repeated or already active.
\<close>

theorem make_activation_set_union:
  assumes "strict_linear_order lt" and "sorted_wrt lt s1"
  shows "case make_activation_set lt s1 new True of
      Inr s \<Rightarrow> sorted_wrt lt s \<and> set s = set s1 \<union> set new \<and> distinct new \<and> set s1 \<inter> set new = {}
    | Inl e \<Rightarrow> e = Invalid_block_header_extension \<and> \<not> (distinct new \<and> set s1 \<inter> set new = {})"
proof -
  define fs where "fs = foldl (\<lambda>s v. flat_insert lt v s) [] (set_union lt s1 (std_sort lt new))"
  from strict_linear_order.fold_flat_insert [OF assms(1), of "[]"]
    strict_linear_order.set_set_union [OF assms(1)]
  have fs: "sorted_wrt lt fs" "set fs = set s1 \<union> set new" by (simp_all add: fs_def)
  have len: "length fs = card (set s1 \<union> set new)" "length s1 = card (set s1)"
    using distinct_card [OF strict_linear_order.sorted_lt_distinct [OF assms(1) fs(1)]]
      distinct_card [OF strict_linear_order.sorted_lt_distinct [OF assms]] fs(2) by simp_all
  have cards: "card (set s1 \<union> set new) + card (set s1 \<inter> set new) = card (set s1) + card (set new)"
    "card (set new) \<le> length new"
    using card_Un_Int [of "set s1" "set new"] by (simp_all add: card_length)
  have "length fs = length s1 + length new \<longleftrightarrow>
      card (set new) = length new \<and> card (set s1 \<inter> set new) = 0"
    using len cards by linarith
  then have "length fs = length s1 + length new \<longleftrightarrow> distinct new \<and> set s1 \<inter> set new = {}"
    using card_distinct distinct_card by auto
  with fs show ?thesis
    unfolding make_activation_set_def Let_def fs_def [symmetric] length_std_sort
    by (simp add: eos_assert_def)
qed

theorem make_activation_set_union_witness:
  "make_activation_set sha256_less [Sha256 1 0 0 0] [Sha256 2 0 0 0, Sha256 1 0 0 0] True
     = Inl Invalid_block_header_extension"
proof -
  have "sorted_wrt sha256_less [Sha256 1 0 0 0]" by simp
  from make_activation_set_union [OF sha.strict_linear_order_axioms this, of "[Sha256 2 0 0 0, Sha256 1 0 0 0]"]
  show ?thesis by (auto split: sum.splits)
qed

end
