(* ===== verification/Merkle.thy ===== *)
theory Merkle
  imports Block_Header
begin

text \<open>
  Merkle roots: the reference computation over all digests (\<open>merkle.cpp\<close>) and the incremental
  tree that keeps only the nodes later appends need (\<open>incremental_merkle.hpp\<close>), including the
  bit arithmetic that computes its depth. The main result is that the two agree for every
  number of leaves a 64-bit count can hold. The pair hash is a field of \<open>fc_crypto\<close>; nothing
  is assumed of it.
\<close>

section \<open>The reference computation\<close>

definition make_canonical_left :: "sha256 \<Rightarrow> sha256" where
  "make_canonical_left v =
     Sha256 (hash0 v AND 0xFFFFFFFFFFFFFF7F) (hash1 v) (hash2 v) (hash3 v)"

definition make_canonical_right :: "sha256 \<Rightarrow> sha256" where
  "make_canonical_right v =
     Sha256 (hash0 v OR 0x0000000000000080) (hash1 v) (hash2 v) (hash3 v)"

definition is_canonical_left :: "sha256 \<Rightarrow> bool" where
  "is_canonical_left v \<longleftrightarrow> hash0 v AND 0x0000000000000080 = 0"

definition is_canonical_right :: "sha256 \<Rightarrow> bool" where
  "is_canonical_right v \<longleftrightarrow> hash0 v AND 0x0000000000000080 \<noteq> 0"

text \<open>\<open>DigestType::hash(make_canonical_pair(l, r))\<close>\<close>

definition hash_canonical_pair :: "fc_crypto \<Rightarrow> sha256 \<Rightarrow> sha256 \<Rightarrow> sha256" where
  "hash_canonical_pair fc l r = hash_pair fc (make_canonical_left l) (make_canonical_right r)"

text \<open>One level: the \<open>for\<close> loop that overwrites the first half of the vector in place.\<close>

function merkle_level_loop :: "fc_crypto \<Rightarrow> nat \<Rightarrow> sha256 list \<Rightarrow> sha256 list" where
  "merkle_level_loop fc i ids =
     (if i < length ids div 2
      then merkle_level_loop fc (Suc i)
             (ids[i := hash_canonical_pair fc (ids ! (2 * i)) (ids ! (2 * i + 1))])
      else ids)"
  by pat_completeness auto
termination
  by (relation "measure (\<lambda>(fc, i, ids). length ids div 2 - i)") auto

declare merkle_level_loop.simps [simp del]

definition merkle_level :: "fc_crypto \<Rightarrow> sha256 list \<Rightarrow> sha256 list" where
  "merkle_level fc ids =
     (let ids1 = (if length ids mod 2 \<noteq> 0 then ids @ [last ids] else ids);
          ids2 = merkle_level_loop fc 0 ids1
      in take (length ids2 div 2) ids2)"

lemma length_merkle_level_loop [simp]: "length (merkle_level_loop fc i ids) = length ids"
  by (induction fc i ids rule: merkle_level_loop.induct) (subst merkle_level_loop.simps, simp)

lemma length_merkle_level [simp]: "length (merkle_level fc ids) = (length ids + 1) div 2"
  by (auto simp: merkle_level_def Let_def)

function merkle_loop :: "fc_crypto \<Rightarrow> sha256 list \<Rightarrow> sha256 list" where
  "merkle_loop fc ids = (if length ids > 1 then merkle_loop fc (merkle_level fc ids) else ids)"
  by pat_completeness auto
termination
  by (relation "measure (\<lambda>(fc, ids). length ids)") auto

declare merkle_loop.simps [simp del]

definition merkle :: "fc_crypto \<Rightarrow> sha256 list \<Rightarrow> sha256" where
  "merkle fc ids = (if 0 = length ids then null_digest else hd (merkle_loop fc ids))"

section \<open>The incremental tree\<close>

definition next_power_of_2 :: "64 word \<Rightarrow> 64 word" where
  "next_power_of_2 value0 =
     (let v = value0 - 1;
          v = v OR drop_bit 1 v;
          v = v OR drop_bit 2 v;
          v = v OR drop_bit 4 v;
          v = v OR drop_bit 8 v;
          v = v OR drop_bit 16 v;
          v = v OR drop_bit 32 v
      in v + 1)"

definition clz_power_2 :: "64 word \<Rightarrow> int" where
  "clz_power_2 v =
     64 - (if v \<noteq> 0 then 1 else 0)
        - (if v AND 0x00000000FFFFFFFF \<noteq> 0 then 32 else 0)
        - (if v AND 0x0000FFFF0000FFFF \<noteq> 0 then 16 else 0)
        - (if v AND 0x00FF00FF00FF00FF \<noteq> 0 then 8 else 0)
        - (if v AND 0x0F0F0F0F0F0F0F0F \<noteq> 0 then 4 else 0)
        - (if v AND 0x3333333333333333 \<noteq> 0 then 2 else 0)
        - (if v AND 0x5555555555555555 \<noteq> 0 then 1 else 0)"

definition calcluate_max_depth :: "64 word \<Rightarrow> int" where
  "calcluate_max_depth node_count =
     (if node_count = 0 then 0 else clz_power_2 (next_power_of_2 node_count) + 1)"

record incremental_merkle =
  node_count :: "64 word"
  active_nodes :: "sha256 list"

definition empty_merkle :: incremental_merkle where
  "empty_merkle = \<lparr>node_count = 0, active_nodes = []\<rparr>"

text \<open>
  The collapse loop of \<open>append\<close>. Reading an active node past the end of the vector has no
  defined meaning.
\<close>

function append_loop ::
  "fc_crypto \<Rightarrow> int \<Rightarrow> 64 word \<Rightarrow> sha256 \<Rightarrow> sha256 list \<Rightarrow> sha256 list \<Rightarrow> bool \<Rightarrow>
     (sha256 list \<times> sha256) res" where
  "append_loop fc current_depth index top_digest active_iter updated partial =
     (if current_depth > 0 then
        if index AND 1 = 0 then
          append_loop fc (current_depth - 1) (drop_bit 1 index) (hash_canonical_pair fc top_digest top_digest)
            active_iter (if \<not> partial then updated @ [top_digest] else updated) True
        else
          (case active_iter of
             [] \<Rightarrow> Inl Undefined_behaviour
           | left_value # rest \<Rightarrow>
               append_loop fc (current_depth - 1) (drop_bit 1 index)
                 (hash_canonical_pair fc left_value top_digest) rest
                 (if partial then updated @ [left_value] else updated) partial)
      else Inr (updated, top_digest))"
  by pat_completeness auto
termination
  by (relation "measure (\<lambda>(fc, d, _). nat d)") auto

declare append_loop.simps [simp del]

definition incremental_append ::
  "fc_crypto \<Rightarrow> sha256 \<Rightarrow> incremental_merkle \<Rightarrow> incremental_merkle res" where
  "incremental_append fc digest m =
     (let max_depth = calcluate_max_depth (node_count m + 1) in
      ebind (append_loop fc (max_depth - 1) (node_count m) digest (active_nodes m) [] False)
        (\<lambda>(updated, top_digest). Inr (m\<lparr>active_nodes := updated @ [top_digest], node_count := node_count m + 1\<rparr>)))"

definition get_root :: "incremental_merkle \<Rightarrow> sha256" where
  "get_root m = (if node_count m > 0 then last (active_nodes m) else null_digest)"

section \<open>The reference computation level by level\<close>

fun pairup :: "fc_crypto \<Rightarrow> sha256 list \<Rightarrow> sha256 list" where
  "pairup fc (x # y # zs) = hash_canonical_pair fc x y # pairup fc zs"
| "pairup fc [x] = [hash_canonical_pair fc x x]"
| "pairup fc [] = []"

lemma length_pairup [simp]: "length (pairup fc xs) = (length xs + 1) div 2"
  by (induction fc xs rule: pairup.induct) auto

lemma nth_pairup:
  "i < (length xs + 1) div 2 \<Longrightarrow>
   pairup fc xs ! i = hash_canonical_pair fc (xs ! (2 * i))
      (if 2 * i + 1 < length xs then xs ! (2 * i + 1) else xs ! (2 * i))"
proof (induction fc xs arbitrary: i rule: pairup.induct)
  case (1 fc x y zs)
  then show ?case by (cases i) auto
qed auto

lemma nth_merkle_level_loop:
  "k < length ids div 2 \<Longrightarrow>
   merkle_level_loop fc i ids ! k =
     (if k < i then ids ! k else hash_canonical_pair fc (ids ! (2 * k)) (ids ! (2 * k + 1)))"
proof (induction fc i ids rule: merkle_level_loop.induct)
  case (1 fc i ids)
  show ?case
  proof (cases "i < length ids div 2")
    case True
    with 1 show ?thesis
      by (cases k i rule: linorder_cases) (auto simp: merkle_level_loop.simps [of fc i ids])
  next
    case False
    with 1 show ?thesis by (auto simp: merkle_level_loop.simps [of fc i ids])
  qed
qed

lemma merkle_level_eq: "xs \<noteq> [] \<Longrightarrow> merkle_level fc xs = pairup fc xs"
proof (rule nth_equalityI)
  assume "xs \<noteq> []"
  fix i
  assume "i < length (merkle_level fc xs)"
  then have i: "i < (length xs + 1) div 2" by simp
  show "merkle_level fc xs ! i = pairup fc xs ! i"
  proof (cases "odd (length xs) \<and> 2 * i + 1 = length xs")
    case True
    then have "length xs - Suc 0 = 2 * i" by arith
    with True i \<open>xs \<noteq> []\<close> show ?thesis
      by (auto simp: merkle_level_def Let_def nth_pairup nth_merkle_level_loop nth_append last_conv_nth
          odd_iff_mod_2_eq_one)
  next
    case False
    with i have "2 * i + 1 < length xs" by (auto elim!: oddE)
    with i show ?thesis
      by (auto simp: merkle_level_def Let_def nth_pairup nth_merkle_level_loop nth_append)
  qed
qed simp

text \<open>
  The reference root after exactly \<open>d\<close> rounds, for the depth \<open>d\<close> that fits the number of
  leaves.
\<close>

definition fits_depth :: "nat \<Rightarrow> nat \<Rightarrow> bool" where
  "fits_depth n d \<longleftrightarrow> 0 < n \<and> n \<le> 2 ^ d \<and> 2 ^ d < 2 * n"

lemma fits_depth_step: "fits_depth n (Suc d) \<Longrightarrow> 1 < n \<and> fits_depth ((n + 1) div 2) d"
  by (auto simp: fits_depth_def)

lemma merkle_loop_rounds:
  "fits_depth (length xs) d \<Longrightarrow> merkle_loop fc xs = (pairup fc ^^ d) xs"
proof (induction d arbitrary: xs)
  case 0
  then show ?case by (subst merkle_loop.simps) (simp add: fits_depth_def)
next
  case (Suc d)
  from fits_depth_step [OF Suc.prems] have "1 < length xs" "fits_depth (length (pairup fc xs)) d"
    by simp_all
  with Suc.IH show ?case
    by (subst merkle_loop.simps) (simp add: merkle_level_eq funpow_swap1 flip: length_0_conv)
qed

section \<open>What the active nodes are\<close>

text \<open>
  The nodes of the next level that are fully realised, and the peaks: the roots of the maximal
  complete subtrees, from the lowest level up.
\<close>

fun halve :: "fc_crypto \<Rightarrow> sha256 list \<Rightarrow> sha256 list" where
  "halve fc (x # y # zs) = hash_canonical_pair fc x y # halve fc zs"
| "halve fc [x] = []"
| "halve fc [] = []"

lemma length_halve [simp]: "length (halve fc xs) = length xs div 2"
  by (induction fc xs rule: halve.induct) auto

function peaks :: "fc_crypto \<Rightarrow> sha256 list \<Rightarrow> sha256 list" where
  "peaks fc xs =
     (if xs = [] then [] else (if odd (length xs) then [last xs] else []) @ peaks fc (halve fc xs))"
  by pat_completeness auto
termination
  by (relation "measure (\<lambda>(fc, xs). length xs)") auto

declare peaks.simps [simp del]

lemma peaks_Nil [simp]: "peaks fc [] = []"
  by (simp add: peaks.simps)

lemma peaks_even: "even (length xs) \<Longrightarrow> peaks fc xs = peaks fc (halve fc xs)"
  by (cases "xs = []") (simp_all add: peaks.simps [of fc xs])

lemma peaks_odd: "odd (length xs) \<Longrightarrow> peaks fc xs = last xs # peaks fc (halve fc xs)"
  by (cases "xs = []") (simp_all add: peaks.simps [of fc xs])

lemma halve_snoc:
  "halve fc (ys @ [t]) =
     (if even (length ys) then halve fc ys else halve fc ys @ [hash_canonical_pair fc (last ys) t])"
  by (induction fc ys rule: halve.induct) auto

lemma pairup_snoc:
  "pairup fc (ys @ [t]) =
     halve fc ys @ [hash_canonical_pair fc (if even (length ys) then t else last ys) t]"
  by (induction fc ys rule: halve.induct) auto

section \<open>The collapse loop\<close>

lemma index_bits:
  assumes "unat index = n"
  shows "index AND 1 = 0 \<longleftrightarrow> even n" and "unat (drop_bit 1 index) = n div 2"
proof -
  have "index AND 1 = 0 \<longleftrightarrow> \<not> bit index 0" by (simp add: and_one_eq bit_0 even_iff_mod_2_eq_zero)
  moreover have "bit (unat index) 0 = bit index 0" by (simp only: bit_unsigned_iff) simp
  ultimately show "index AND 1 = 0 \<longleftrightarrow> even n" using assms by (simp add: bit_0)
  show "unat (drop_bit 1 index) = n div 2" using assms by (simp only: unat_drop_bit_eq) (simp add: drop_bit_eq_div)
qed

text \<open>
  Once a partially realised node has been formed, the loop copies all peaks below the new node
  and computes the top of the tree.
\<close>

lemma append_loop_partial:
  "length ys < 2 ^ d \<Longrightarrow> unat index = length ys \<Longrightarrow>
   append_loop fc (int d) index t (peaks fc ys @ junk) upd True =
     Inr (upd @ peaks fc ys, hd ((pairup fc ^^ d) (ys @ [t])))"
proof (induction d arbitrary: ys index t upd)
  case 0
  then show ?case by (simp add: append_loop.simps [of fc 0])
next
  case (Suc d)
  have len: "length (halve fc ys) < 2 ^ d" using Suc.prems by simp
  have idx: "unat (drop_bit 1 index) = length (halve fc ys)"
    using index_bits(2) [OF Suc.prems(2)] by simp
  note IH = Suc.IH [OF len idx]
  show ?case
  proof (cases "even (length ys)")
    case True
    then show ?thesis
      using IH [of "hash_canonical_pair fc t t" upd] index_bits(1) [OF Suc.prems(2)]
      by (subst append_loop.simps) (simp add: peaks_even pairup_snoc funpow_swap1)
  next
    case False
    then show ?thesis
      using IH [of "hash_canonical_pair fc (last ys) t" "upd @ [last ys]"] index_bits(1) [OF Suc.prems(2)]
      by (subst append_loop.simps) (simp add: peaks_odd pairup_snoc funpow_swap1)
  qed
qed

text \<open>
  While the new node is fully realised the loop collapses it with the peaks; the peaks of the
  extended list remain, the last of them being the root exactly when the tree is complete.
\<close>

lemma append_loop_full:
  "length ys < 2 ^ d \<Longrightarrow> unat index = length ys \<Longrightarrow>
   append_loop fc (int d) index t (peaks fc ys @ junk) upd False =
     Inr (upd @ (if length ys + 1 = 2 ^ d then [] else peaks fc (ys @ [t])),
          hd ((pairup fc ^^ d) (ys @ [t]))) \<and>
   (length ys + 1 = 2 ^ d \<longrightarrow> peaks fc (ys @ [t]) = [hd ((pairup fc ^^ d) (ys @ [t]))])"
proof (induction d arbitrary: ys index t upd)
  case 0
  then show ?case by (simp add: append_loop.simps [of fc 0] peaks_odd)
next
  case (Suc d)
  have len: "length (halve fc ys) < 2 ^ d" using Suc.prems by simp
  have idx: "unat (drop_bit 1 index) = length (halve fc ys)"
    using index_bits(2) [OF Suc.prems(2)] by simp
  show ?case
  proof (cases "even (length ys)")
    case True
    then have "length ys + 1 \<noteq> 2 ^ Suc d" by (auto dest: arg_cong [of _ _ even])
    with True show ?thesis
      using append_loop_partial [OF len idx, of fc "hash_canonical_pair fc t t" junk "upd @ [t]"]
        index_bits(1) [OF Suc.prems(2)]
      by (subst append_loop.simps) (simp add: peaks_even peaks_odd halve_snoc pairup_snoc funpow_swap1)
  next
    case False
    then have "length ys + 1 = 2 ^ Suc d \<longleftrightarrow> length (halve fc ys) + 1 = 2 ^ d" by (auto elim!: oddE)
    with False show ?thesis
      using Suc.IH [OF len idx, of "hash_canonical_pair fc (last ys) t" upd]
        index_bits(1) [OF Suc.prems(2)]
      by (subst append_loop.simps) (simp add: peaks_even peaks_odd halve_snoc pairup_snoc funpow_swap1)
  qed
qed

section \<open>The depth computation\<close>

text \<open>Or-ing a word with its shifts spreads every set bit downwards.\<close>

definition smeared :: "nat \<Rightarrow> 64 word \<Rightarrow> 64 word \<Rightarrow> bool" where
  "smeared m v w \<longleftrightarrow> (\<forall>n. bit w n \<longleftrightarrow> (\<exists>j<m. bit v (n + j)))"

lemma smeared_1: "smeared 1 v v"
  by (simp add: smeared_def)

lemma smeared_double:
  assumes "smeared m v w" and m': "m' = m + m"
  shows "smeared m' v (w OR drop_bit m w)"
  unfolding smeared_def m'
proof
  fix n
  have "bit (w OR drop_bit m w) n \<longleftrightarrow> (\<exists>j<m. bit v (n + j)) \<or> (\<exists>j<m. bit v (n + (m + j)))"
    using assms by (simp add: smeared_def bit_or_iff bit_drop_bit_eq ac_simps)
  also have "\<dots> \<longleftrightarrow> (\<exists>j<m + m. bit v (n + j))"
  proof
    assume "\<exists>j<m + m. bit v (n + j)"
    then obtain j where j: "j < m + m" "bit v (n + j)" by blast
    show "(\<exists>j<m. bit v (n + j)) \<or> (\<exists>j<m. bit v (n + (m + j)))"
    proof (cases "j < m")
      case False
      with j have "j - m < m" "bit v (n + (m + (j - m)))" by auto
      then show ?thesis by blast
    qed (use j in blast)
  next
    assume "(\<exists>j<m. bit v (n + j)) \<or> (\<exists>j<m. bit v (n + (m + j)))"
    then show "\<exists>j<m + m. bit v (n + j)" by (metis add_less_cancel_left trans_less_add1)
  qed
  finally show "bit (w OR drop_bit m w) n \<longleftrightarrow> (\<exists>j<m + m. bit v (n + j))" .
qed

lemma next_power_of_2_smeared: "\<exists>w. next_power_of_2 v = w + 1 \<and> smeared 64 (v - 1) w"
  unfolding next_power_of_2_def Let_def
  by (rule exI, rule conjI, rule refl, (rule smeared_double)+, rule smeared_1) simp_all

lemma bit_high:
  fixes v :: "64 word"
  assumes "2 ^ k \<le> unat v" "unat v < 2 ^ Suc k"
  shows "bit v k" and "k < j \<Longrightarrow> \<not> bit v j"
proof -
  have v: "bit v i \<longleftrightarrow> odd (unat v div 2 ^ i)" for i
  proof -
    have "bit (unat v) i = bit v i" by (simp only: bit_unsigned_iff) simp
    then show ?thesis by (simp add: bit_iff_odd [of "unat v"])
  qed
  have "unat v div 2 ^ k = 1" using assms by (intro div_nat_eqI) auto
  then show "bit v k" by (simp add: v)
  assume "k < j"
  then have "(2 :: nat) ^ Suc k \<le> 2 ^ j" by (intro power_increasing) auto
  with assms have "unat v div 2 ^ j = 0" by simp
  then show "\<not> bit v j" by (simp add: v)
qed

lemma next_power_of_2_eq:
  fixes v :: "64 word"
  assumes "2 ^ k \<le> unat (v - 1)" "unat (v - 1) < 2 ^ Suc k"
  shows "next_power_of_2 v = 2 ^ Suc k"
proof -
  obtain w where w: "next_power_of_2 v = w + 1" "smeared 64 (v - 1) w"
    using next_power_of_2_smeared by blast
  have k: "k < 64"
    using bit_high(1) [OF assms] by (auto dest: bit_imp_le_length)
  have "bit w n \<longleftrightarrow> n \<le> k" for n
  proof
    assume "bit w n"
    then obtain j where "bit (v - 1) (n + j)" using w(2) by (auto simp: smeared_def)
    then show "n \<le> k" using bit_high(2) [OF assms, of "n + j"] by (cases "n \<le> k") auto
  next
    assume "n \<le> k"
    then have "bit (v - 1) (n + (k - n))" using bit_high(1) [OF assms] by simp
    moreover have "k - n < 64" using k by simp
    ultimately show "bit w n" using w(2) by (auto simp: smeared_def)
  qed
  then have "w = mask (Suc k)"
    using k by (intro bit_eqI) (auto simp: bit_mask_iff less_Suc_eq_le)
  with w(1) show ?thesis by (simp add: mask_eq_exp_minus_1)
qed

lemma clz_power_2_eq: "k \<le> 64 \<Longrightarrow> clz_power_2 (2 ^ k) = int k"
proof -
  define exact where "exact k \<longleftrightarrow> clz_power_2 (2 ^ k) = int k" for k
  have "list_all exact [0..<65]"
    by (simp add: upt_rec; intro conjI; simp add: exact_def clz_power_2_def)
  moreover assume "k \<le> 64"
  ultimately show ?thesis by (simp add: list_all_iff exact_def)
qed

lemma max_depth_fits:
  assumes "0 < n" and "n < 2 ^ 64"
  obtains d where "calcluate_max_depth (of_nat n) = int d + 1" and "fits_depth n d"
proof (cases "n = 1")
  case True
  then have "calcluate_max_depth (of_nat n) = int 0 + 1" "fits_depth n 0"
    by (simp_all add: calcluate_max_depth_def next_power_of_2_def clz_power_2_def fits_depth_def)
  then show thesis by (rule that)
next
  case False
  then have n: "1 \<le> n - 1" using assms by simp
  obtain k where k: "2 ^ k \<le> n - 1" "n - 1 < 2 ^ Suc k"
    using ex_power_ivl1 [of 2 "n - 1"] n by auto
  have "of_nat n - 1 = (of_nat (n - 1) :: 64 word)" using assms by (simp add: of_nat_diff)
  moreover have "unat (of_nat (n - 1) :: 64 word) = n - 1"
    using assms by (simp only: unat_of_nat) simp
  ultimately have "unat (of_nat n - 1 :: 64 word) = n - 1" by simp
  with k have "next_power_of_2 (of_nat n) = 2 ^ Suc k" by (intro next_power_of_2_eq) simp_all
  moreover have "k < 64"
  proof (rule ccontr)
    assume "\<not> k < 64"
    then have "(2 :: nat) ^ 64 \<le> 2 ^ k" by (intro power_increasing) auto
    with k assms show False by simp
  qed
  moreover have "of_nat n \<noteq> (0 :: 64 word)" using assms by (auto simp: word_of_nat_eq_0_iff dest: dvd_imp_le)
  ultimately have "calcluate_max_depth (of_nat n) = int (Suc k) + 1"
    using clz_power_2_eq [of "Suc k"] by (simp add: calcluate_max_depth_def del: power_Suc)
  moreover have "fits_depth n (Suc k)" using k n by (auto simp: fits_depth_def)
  ultimately show thesis by (rule that)
qed

section \<open>The incremental tree computes the reference root\<close>

text \<open>
  A tree state represents its leaves: the count is their number, the active nodes begin with
  the peaks, and the last active node is the reference root.
\<close>

definition merkle_represents :: "fc_crypto \<Rightarrow> incremental_merkle \<Rightarrow> sha256 list \<Rightarrow> bool" where
  "merkle_represents fc m xs \<longleftrightarrow>
     node_count m = of_nat (length xs) \<and> length xs < 2 ^ 64 \<and>
     (\<exists>junk. active_nodes m = peaks fc xs @ junk) \<and>
     (xs \<noteq> [] \<longrightarrow> active_nodes m \<noteq> [] \<and> last (active_nodes m) = merkle fc xs)"

lemma append_represents:
  assumes m: "merkle_represents fc m xs" and len: "length xs + 1 < 2 ^ 64"
  shows "\<exists>m'. incremental_append fc d m = Inr m' \<and> merkle_represents fc m' (xs @ [d])"
proof -
  obtain depth where depth: "calcluate_max_depth (of_nat (length xs + 1)) = int depth + 1"
    and fits: "fits_depth (length xs + 1) depth"
    using max_depth_fits [of "length xs + 1"] len by auto
  obtain junk where junk: "active_nodes m = peaks fc xs @ junk" and n: "node_count m = of_nat (length xs)"
    using m by (auto simp: merkle_represents_def)
  have bound: "length xs < 2 ^ depth" using fits by (auto simp: fits_depth_def)
  have "unat (node_count m) = length xs" using len n by (simp add: unat_of_nat)
  note loop = append_loop_full [OF bound this, of fc d junk "[]"]
  have root: "merkle fc (xs @ [d]) = hd ((pairup fc ^^ depth) (xs @ [d]))"
    using merkle_loop_rounds [of "xs @ [d]" depth fc] fits by (simp add: merkle_def)
  let ?m' = "m\<lparr>active_nodes := (if length xs + 1 = 2 ^ depth then [] else peaks fc (xs @ [d]))
       @ [merkle fc (xs @ [d])], node_count := of_nat (length xs) + 1\<rparr>"
  have "incremental_append fc d m = Inr ?m'"
    using loop depth by (simp add: incremental_append_def Let_def n junk root add.commute)
  moreover have "merkle_represents fc ?m' (xs @ [d])"
    using loop len by (auto simp: merkle_represents_def root)
  ultimately show ?thesis by blast
qed

interpretation im: accumulator empty_merkle "incremental_append fc" get_root
  "merkle_represents fc" "merkle fc" "2 ^ 64" for fc
proof
  show "merkle_represents fc empty_merkle []"
    by (simp add: merkle_represents_def empty_merkle_def)
  show "\<exists>m'. incremental_append fc d m = Inr m' \<and> merkle_represents fc m' (xs @ [d])"
    if "merkle_represents fc m xs" "length xs + 1 < 2 ^ 64" for m xs d
    using append_represents that .
  show "get_root m = merkle fc xs" if "merkle_represents fc m xs" for m xs
  proof (cases "xs = []")
    case False
    with that have "node_count m \<noteq> 0"
      by (auto simp: merkle_represents_def word_of_nat_eq_0_iff dest: dvd_imp_le)
    with that False show ?thesis by (simp add: merkle_represents_def get_root_def word_neq_0_conv)
  qed (use that in \<open>simp add: merkle_represents_def get_root_def merkle_def\<close>)
qed

text \<open>
  C8. For every list of digests whose length fits the 64-bit node count, appending them one by
  one to an empty incremental tree never reads past the active nodes and leaves the tree with
  the root that the reference computation gives for the whole list. Nothing is assumed of the
  hash function.
\<close>

theorem incremental_root_is_merkle:
  assumes "length ds < 2 ^ 64"
  shows "\<exists>m. efold (incremental_append fc) ds empty_merkle = Inr m \<and> get_root m = merkle fc ds"
  using assms by (rule im.root_of_all)

theorem incremental_root_is_merkle_witness:
  "\<exists>m. efold (incremental_append sample_fc) [Sha256 1 0 0 0, Sha256 2 0 0 0, Sha256 3 0 0 0] empty_merkle
       = Inr m \<and>
     get_root m = hash_canonical_pair sample_fc
       (hash_canonical_pair sample_fc (Sha256 1 0 0 0) (Sha256 2 0 0 0))
       (hash_canonical_pair sample_fc (Sha256 3 0 0 0) (Sha256 3 0 0 0))"
proof -
  let ?ds = "[Sha256 1 0 0 0, Sha256 2 0 0 0, Sha256 3 0 0 0]"
  have "fits_depth (length ?ds) 2" by (simp add: fits_depth_def)
  then have "merkle sample_fc ?ds = hash_canonical_pair sample_fc
       (hash_canonical_pair sample_fc (Sha256 1 0 0 0) (Sha256 2 0 0 0))
       (hash_canonical_pair sample_fc (Sha256 3 0 0 0) (Sha256 3 0 0 0))"
    using merkle_loop_rounds [of ?ds 2 sample_fc] by (simp add: merkle_def numeral_2_eq_2)
  with incremental_root_is_merkle [of ?ds sample_fc] show ?thesis by simp
qed

text \<open>
  The depth the tree allots to a positive 64-bit node count is one more than the number of
  halvings the count needs: \<open>d + 1\<close> for the \<open>d\<close> with \<open>n \<le> 2^d < 2 n\<close>, also for counts above
  \<open>2^63\<close>, where the power of two that the bit tricks compute wraps to zero.
\<close>

theorem max_depth_exact:
  assumes "0 < n" and "n < 2 ^ 64"
  shows "\<exists>d. calcluate_max_depth (of_nat n) = int d + 1 \<and> n \<le> 2 ^ d \<and> 2 ^ d < 2 * n"
  using max_depth_fits [OF assms] by (metis fits_depth_def)

theorem max_depth_exact_witness:
  "\<exists>d. calcluate_max_depth 0x8000000000000001 = int d + 1 \<and>
       0x8000000000000001 \<le> (2 :: nat) ^ d \<and> (2 :: nat) ^ d < 2 * 0x8000000000000001"
  using max_depth_exact [of "0x8000000000000001"] by simp

text \<open>
  The two sides of a pair are marked so that a node can never be taken for its sibling.
\<close>

lemma canonical_sides:
  "is_canonical_left (make_canonical_left v)" "is_canonical_right (make_canonical_right v)"
  "make_canonical_left v \<noteq> make_canonical_right w"
proof -
  show l: "is_canonical_left (make_canonical_left v)"
    by (simp add: is_canonical_left_def make_canonical_left_def and.assoc)
  show r: "is_canonical_right (make_canonical_right v)" for v
    by (simp add: is_canonical_right_def make_canonical_right_def bit.conj_disj_distrib2 or_eq_0_iff)
  show "make_canonical_left v \<noteq> make_canonical_right w"
    using l r [of w] by (auto simp: is_canonical_left_def is_canonical_right_def)
qed

end
