(* ===== verification/Finality.thy ===== *)
theory Finality
  imports Header_State
begin

text \<open>
  Properties of the header state machine: what the irreversible block number means, what the
  confirmation loop computes, the invariant of every state reachable from genesis, monotonicity
  of irreversibility, the producer rotation, and the agreement of a produced block with its
  validation by a peer.
\<close>

section \<open>A concrete chain\<close>

text \<open>
  A chain with one producer, its genesis state, and the template, the header and the state of
  its first block, for the examples.
\<close>

definition sample_cfg :: build_config where
  "sample_cfg = \<lparr>producer_repetitions = 2, max_producers = 21\<rparr>"

definition sample_genesis :: block_header_state where
  "sample_genesis = genesis_state sample_fc [(1, 42)] 5 null_digest"

definition sample_pending :: pending_block_header_state where
  "sample_pending =
     pending_template sample_genesis \<lparr>producer_name = 1, block_signing_key = 42\<rparr> 6 0
       \<lparr>node_count = 1, active_nodes = [state_id sample_genesis]\<rparr>"

definition sample_next_header :: signed_block_header where
  "sample_next_header =
     (make_block_header sample_fc sample_pending null_digest null_digest None [])\<lparr>producer_signature := 42\<rparr>"

definition sample_state :: block_header_state where
  "sample_state =
     block_header_state_common.extend (block_header_state_common.truncate sample_pending)
       \<lparr>state_id = header_id sample_fc sample_next_header,
        header = sample_next_header,
        pending_schedule = next_pending_schedule sample_fc sample_pending None,
        activated_protocol_features = [],
        header_exts = []\<rparr>"

lemma first_append: "incremental_append fc d empty_merkle = Inr \<lparr>node_count = 1, active_nodes = [d]\<rparr>"
  by (simp add: incremental_append_def empty_merkle_def calcluate_max_depth_def next_power_of_2_def
      clz_power_2_def append_loop.simps)

lemma sample_genesis_num: "block_num sample_genesis = 1"
  by (simp add: sample_genesis_def genesis_state_def Let_def header_block_num_def num_from_id_def
      genesis_header_def null_digest_def sample_fc_def byte_swap32_def)

lemma sample_next: "next_when sample_fc sample_cfg sample_genesis 6 0 = Inr sample_pending"
  by (simp add: next_when_def Let_def get_scheduled_producer_def sample_cfg_def sample_genesis_def
      genesis_state_def first_append sample_pending_def genesis_header_def)

lemma sample_finish:
  "finish_next_base sample_fc (\<lambda>_ _ _. Inr ()) sample_pending sample_next_header = Inr sample_state"
  by (simp add: finish_next_base_def sample_next_header_def make_block_header_def check_new_producers_def
      validate_and_extract_header_extensions_def activate_in_header_def sample_state_def
      sample_pending_def pending_template_def Let_def sample_genesis_def genesis_state_def)

lemma sample_signing_key: "signing_key sample_state = 42"
  by (simp add: sample_state_def sample_pending_def pending_template_def Let_def
      block_header_state_common.defs)

lemma sample_accepted:
  "next_header sample_fc sample_cfg (\<lambda>_ _ _. Inr ()) sample_genesis sample_next_header False
     = Inr sample_state"
proof -
  have "timestamp sample_next_header = 6" "confirmed sample_next_header = 0"
    by (simp_all add: sample_next_header_def make_block_header_def sample_pending_def
        pending_template_def Let_def)
  moreover have "signee sample_fc sample_state = Inr 42"
    by (simp add: signee_def sample_fc_def sample_state_def sample_next_header_def
        block_header_state_common.defs)
  ultimately show ?thesis
    by (simp add: next_header_def sample_next finish_next_def sample_finish verify_signee_def
        sample_signing_key)
qed

lemma sample_byte_order: "byte_swap32 0 = 0"
  by (simp add: byte_swap32_def)

section \<open>The two-thirds rule\<close>

lemma filter_ge_nth:
  assumes "sorted xs" and "i < length xs"
  shows "length xs - i \<le> length (filter (\<lambda>b. xs ! i \<le> b) xs)"
proof -
  have "filter (\<lambda>b. xs ! i \<le> b) (drop i xs) = drop i xs"
    using assms by (auto simp: filter_id_conv in_set_conv_nth sorted_nth_mono)
  then have "length xs - i = length (filter (\<lambda>b. xs ! i \<le> b) (drop i xs))" by simp
  also have "\<dots> \<le> length (filter (\<lambda>b. xs ! i \<le> b) (take i xs @ drop i xs))"
    by (simp only: filter_append length_append)
  finally show ?thesis by simp
qed

lemma filter_gt_nth:
  assumes "sorted xs" and "i < length xs" and "xs ! i < v"
  shows "length (filter (\<lambda>b. v \<le> b) xs) \<le> length xs - Suc i"
proof -
  have "filter (\<lambda>b. v \<le> b) (take (Suc i) xs) = []"
    using assms by (auto simp: filter_empty_conv in_set_conv_nth not_le less_Suc_eq_le)
      (meson le_less_trans less_imp_le_nat sorted_nth_mono)
  then have "length (filter (\<lambda>b. v \<le> b) (take (Suc i) xs @ drop (Suc i) xs)) \<le> length xs - Suc i"
    by (simp only: filter_append length_append) (simp add: le_trans [OF length_filter_le])
  then show ?thesis by simp
qed

lemma dpos_nth_quorum:
  assumes "bs \<noteq> []"
  shows "2 * length bs < 3 * length (filter (\<lambda>b. dpos_nth bs \<le> b) bs)"
    and "dpos_nth bs < v \<Longrightarrow> 3 * length (filter (\<lambda>b. v \<le> b) bs) \<le> 2 * length bs"
proof -
  define i where "i = (length bs - 1) div 3"
  have pos: "0 < length bs" using assms by simp
  have "i \<le> length bs - 1" unfolding i_def by (rule div_le_dividend)
  with pos have i: "i < length (sort bs)" by (simp del: length_greater_0_conv)
  have nth: "dpos_nth bs = sort bs ! i"
    using assms by (simp add: i_def dpos_nth_def nth_element_def)
  have count: "length (filter P (sort bs)) = length (filter P bs)" for P
    by (simp add: filter_sort)
  have bound: "3 * i \<le> length bs - 1" "length bs - 1 < 3 * i + 3" by (simp_all add: i_def)
  have "length bs - i \<le> length (filter (\<lambda>b. dpos_nth bs \<le> b) bs)"
    using filter_ge_nth [OF _ i] by (simp add: count nth)
  with bound pos show "2 * length bs < 3 * length (filter (\<lambda>b. dpos_nth bs \<le> b) bs)"
    by linarith
  assume "dpos_nth bs < v"
  then have "length (filter (\<lambda>b. v \<le> b) bs) \<le> length bs - Suc i"
    using filter_gt_nth [OF _ i, of v] by (simp add: count nth)
  with bound pos show "3 * length (filter (\<lambda>b. v \<le> b) bs) \<le> 2 * length bs"
    by linarith
qed

text \<open>
  C1. The irreversible block number computed for the next block is the greatest number that
  more than two thirds of the producers have implied to be irreversible, the producer of the
  next block counting with the currently proposed number.
\<close>

theorem dpos_irreversible_two_thirds:
  assumes "producer_to_last_implied_irb s \<noteq> []"
  shows "2 * length (dpos_blocknums s p) <
           3 * length (filter (\<lambda>b. calc_dpos_last_irreversible s p \<le> b) (dpos_blocknums s p)) \<and>
         (\<forall>v > calc_dpos_last_irreversible s p.
           3 * length (filter (\<lambda>b. v \<le> b) (dpos_blocknums s p)) \<le> 2 * length (dpos_blocknums s p))"
proof -
  have "dpos_blocknums s p \<noteq> []" using assms by (simp add: dpos_blocknums_def)
  from dpos_nth_quorum [OF this] show ?thesis by (simp add: calc_dpos_last_irreversible_def)
qed

theorem dpos_irreversible_two_thirds_witness:
  "calc_dpos_last_irreversible
     (sample_genesis\<lparr>dpos_proposed_irreversible_blocknum := 9,
        producer_to_last_implied_irb := [(1, 2), (2, 7), (3, 8), (4, 5)]\<rparr>) 1 = 7"
proof -
  let ?s = "sample_genesis\<lparr>dpos_proposed_irreversible_blocknum := 9,
        producer_to_last_implied_irb := [(1, 2), (2, 7), (3, 8), (4, 5)]\<rparr>"
  let ?lib = "calc_dpos_last_irreversible ?s 1"
  have b: "dpos_blocknums ?s 1 = [9, 7, 8, 5]" by (simp add: dpos_blocknums_def)
  have q: "8 < 3 * length (filter (\<lambda>b. ?lib \<le> b) [9, 7, 8, 5])"
    and m: "\<forall>v > ?lib. 3 * length (filter (\<lambda>b. v \<le> b) [9, 7, 8, 5]) \<le> 8"
    using dpos_irreversible_two_thirds [of ?s 1] unfolding b by simp_all
  have "\<not> ?lib < 7" using m [rule_format, of 7] by auto
  moreover have "?lib \<le> 7" using q by (simp split: if_splits)
  ultimately show ?thesis by simp
qed

section \<open>The confirmation loop\<close>

lemma dec8_pos: "0 < n \<Longrightarrow> n < 256 \<Longrightarrow> dec8 n = n - 1"
  by (cases n) (simp_all add: dec8_def)

definition counts_ok :: "nat list \<Rightarrow> bool" where
  "counts_ok cc \<longleftrightarrow> (\<forall>c\<in>set cc. 0 < c \<and> c < 256)"

lemma counts_ok_nth: "counts_ok cc \<Longrightarrow> i < length cc \<Longrightarrow> 0 < cc ! i \<and> cc ! i < 256"
  by (simp add: counts_ok_def)

lemma counts_ok_update:
  "counts_ok cc \<Longrightarrow> i < length cc \<Longrightarrow> cc ! i \<noteq> 1 \<Longrightarrow> counts_ok (cc[i := cc ! i - 1])"
  unfolding counts_ok_def
proof
  fix c
  assume ok: "\<forall>c\<in>set cc. 0 < c \<and> c < 256" and i: "i < length cc" "cc ! i \<noteq> 1"
    and c: "c \<in> set (cc[i := cc ! i - 1])"
  from c have "c = cc ! i - 1 \<or> c \<in> set cc"
    using set_update_subset_insert [of cc i "cc ! i - 1"] by blast
  moreover have "0 < cc ! i" "cc ! i < 256" using ok i by simp_all
  moreover from this i(2) have "0 < cc ! i - 1" "cc ! i - 1 < 256" by linarith+
  ultimately show "0 < c \<and> c < 256" using ok by blast
qed

lemma confirm_loop_none:
  "i \<le> length cc \<Longrightarrow> counts_ok cc \<Longrightarrow>
   \<forall>j. i - b \<le> j \<and> j < i \<longrightarrow> cc ! j \<noteq> 1 \<Longrightarrow>
   confirm_loop num i b cc =
     (map (\<lambda>j. if i - b \<le> j \<and> j < i then cc ! j - 1 else cc ! j) [0..<length cc], None)"
proof (induction num i b cc rule: confirm_loop.induct)
  case (1 num i b cc)
  have c: "0 < cc ! i" "cc ! i < 256" "cc ! i \<noteq> 1" using 1 counts_ok_nth [of cc i] by auto
  then have d: "cc ! i - 1 \<noteq> 0" by linarith
  let ?cc = "cc[i := cc ! i - 1]"
  have "confirm_loop num i b ?cc =
     (map (\<lambda>j. if i - b \<le> j \<and> j < i then ?cc ! j - 1 else ?cc ! j) [0..<length ?cc], None)"
    using 1 c d counts_ok_update [of cc i] by (intro "1.IH" [of ?cc]) (auto simp: dec8_pos)
  then show ?case using 1 c d by (auto simp: dec8_pos Let_def nth_list_update less_Suc_eq)
qed (auto intro!: nth_equalityI)

lemma confirm_loop_some:
  "i \<le> length cc \<Longrightarrow> counts_ok cc \<Longrightarrow>
   i - b \<le> k \<Longrightarrow> k < i \<Longrightarrow> cc ! k = 1 \<Longrightarrow> \<forall>j. k < j \<and> j < i \<longrightarrow> cc ! j \<noteq> 1 \<Longrightarrow>
   confirm_loop num i b cc =
     (map (\<lambda>j. if j < i then cc ! j - 1 else cc ! j) [Suc k..<length cc],
      Some (sub32 num (length cc - 1 - k)))"
proof (induction num i b cc rule: confirm_loop.induct)
  case (1 num i b cc)
  let ?cc = "cc[i := cc ! i - 1]"
  have c: "0 < cc ! i" "cc ! i < 256" using 1 counts_ok_nth [of cc i] by auto
  show ?case
  proof (cases "k = i")
    case True
    then show ?thesis using 1 c
      by (auto simp: dec8_pos Let_def intro!: nth_equalityI)
  next
    case False
    with 1 have "k < i" "cc ! i \<noteq> 1" by auto
    with c have d: "cc ! i - 1 \<noteq> 0" by linarith
    have "confirm_loop num i b ?cc =
       (map (\<lambda>j. if j < i then ?cc ! j - 1 else ?cc ! j) [Suc k..<length ?cc],
        Some (sub32 num (length ?cc - 1 - k)))"
      using 1 c d \<open>k < i\<close> \<open>cc ! i \<noteq> 1\<close> counts_ok_update [of cc i]
      by (intro "1.IH" [of ?cc]) (auto simp: dec8_pos nth_list_update)
    then show ?thesis using 1 c d \<open>k < i\<close> by (auto simp: dec8_pos Let_def nth_list_update less_Suc_eq)
  qed
qed auto

lemma last_filter_upt:
  assumes "filter P [lo..<n] \<noteq> []"
  shows "lo \<le> last (filter P [lo..<n])" "last (filter P [lo..<n]) < n" "P (last (filter P [lo..<n]))"
    and "last (filter P [lo..<n]) < j \<Longrightarrow> j < n \<Longrightarrow> \<not> P j"
proof -
  let ?k = "last (filter P [lo..<n])"
  have "?k \<in> set (filter P [lo..<n])" using assms by (rule last_in_set)
  then show k: "lo \<le> ?k" "?k < n" "P ?k" by auto
  assume j: "?k < j" "j < n"
  show "\<not> P j"
  proof
    assume "P j"
    have split: "[lo..<n] = [lo..<j] @ j # [Suc j..<n]"
      using k j upt_add_eq_append [of lo j "n - j"] by (simp add: upt_conv_Cons)
    have "?k = last (j # filter P [Suc j..<n])" using \<open>P j\<close> by (simp add: split)
    also have "\<dots> \<in> insert j (set (filter P [Suc j..<n]))" by (metis last_in_set list.simps(3) list.simps(15))
    finally show False using j(1) by auto
  qed
qed

text \<open>
  C24. What confirming \<open>b\<close> blocks does to well-formed counters: the newest of the last \<open>b\<close>
  counters that stands at one proposes its block as irreversible and only the counters after it
  remain, each lowered by one; if none stands at one, the last \<open>b\<close> counters are lowered and
  nothing is proposed.
\<close>

theorem confirm_loop_proposes:
  assumes "counts_ok cc"
  shows "confirm_loop num (length cc) b cc =
    (case filter (\<lambda>j. cc ! j = 1) [length cc - b..<length cc] of
       [] \<Rightarrow> (take (length cc - b) cc @ map (\<lambda>c. c - 1) (drop (length cc - b) cc), None)
     | js \<Rightarrow> (map (\<lambda>c. c - 1) (drop (Suc (last js)) cc), Some (sub32 num (length cc - 1 - last js))))"
proof (cases "filter (\<lambda>j. cc ! j = 1) [length cc - b..<length cc]")
  case Nil
  then have "\<forall>j. length cc - b \<le> j \<and> j < length cc \<longrightarrow> cc ! j \<noteq> 1"
    by (auto simp: filter_empty_conv)
  from confirm_loop_none [OF order_refl assms this, of num] Nil show ?thesis
    by (auto simp: nth_append intro!: nth_equalityI)
next
  case (Cons k ks)
  then have ne: "filter (\<lambda>j. cc ! j = 1) [length cc - b..<length cc] \<noteq> []" by simp
  note l = last_filter_upt [OF ne]
  from confirm_loop_some [OF order_refl assms l(1,2,3), of num] l(4)
  have "confirm_loop num (length cc) b cc =
      (map (\<lambda>j. if j < length cc then cc ! j - 1 else cc ! j) [Suc (last (k # ks))..<length cc],
       Some (sub32 num (length cc - 1 - last (k # ks))))"
    unfolding Cons by blast
  moreover have "map (\<lambda>j. if j < length cc then cc ! j - 1 else cc ! j) [i..<length cc] =
      map (\<lambda>c. c - 1) (drop i cc)" for i
    by (auto intro!: nth_equalityI)
  ultimately show ?thesis unfolding Cons by simp
qed

theorem confirm_loop_proposes_witness:
  "confirm_loop 20 (length [5, 1, 1, 2]) 3 [5, 1, 1, 2] = ([1], Some 19)"
proof -
  have "counts_ok [5, 1, 1, 2]" by (simp add: counts_ok_def)
  from confirm_loop_proposes [OF this, of 20 3] show ?thesis by (simp add: upt_rec sub32_def)
qed

text \<open>What the invariant needs of the loop.\<close>

lemma confirm_loop_run:
  "confirm_loop num i b cc = (cc', r) \<Longrightarrow> counts_ok cc \<Longrightarrow> i \<le> length cc \<Longrightarrow>
   counts_ok cc' \<and>
   (case r of None \<Rightarrow> length cc' = length cc
    | Some n \<Rightarrow> \<exists>k<i. length cc' = length cc - Suc k \<and> n = sub32 num (length cc - 1 - k))"
proof (induction num i b cc rule: confirm_loop.induct)
  case (1 num i b cc)
  have c: "0 < cc ! i" "cc ! i < 256" using 1 counts_ok_nth [of cc i] by auto
  show ?case
  proof (cases "cc ! i = 1")
    case True
    with 1 c have r: "cc' = drop (Suc i) cc" "r = Some (sub32 num (length cc - 1 - i))"
      by (auto simp: dec8_pos Let_def)
    moreover have "counts_ok (drop (Suc i) cc)"
      using 1 by (auto simp: counts_ok_def dest: in_set_dropD)
    ultimately show ?thesis by auto
  next
    case False
    with c have d: "cc ! i - 1 \<noteq> 0" by linarith
    with 1 c have "confirm_loop num i b (cc[i := cc ! i - 1]) = (cc', r)"
      by (auto simp: dec8_pos Let_def)
    with "1.IH" [of "cc[i := cc ! i - 1]"] 1 c d False counts_ok_update [of cc i] show ?thesis
      by (auto simp: dec8_pos split: option.splits intro: less_SucI)
  qed
qed auto

lemma confirm_loop_keeps:
  assumes ok: "counts_ok cc" and len: "length cc \<le> num" and num: "num < 2 ^ 32"
    and run: "confirm_loop num (length cc) b cc = (cc', r)"
  shows "counts_ok cc'"
    and "case r of None \<Rightarrow> length cc' = length cc
         | Some n \<Rightarrow> n + length cc' = num \<and> num - length cc < n"
proof -
  note facts = confirm_loop_run [OF run ok order_refl]
  then show "counts_ok cc'" by simp
  show "case r of None \<Rightarrow> length cc' = length cc
         | Some n \<Rightarrow> n + length cc' = num \<and> num - length cc < n"
  proof (cases r)
    case (Some n)
    with facts obtain k where k: "k < length cc" "length cc' = length cc - Suc k"
      "n = sub32 num (length cc - 1 - k)" by auto
    have "n = num - (length cc - 1 - k)" unfolding k(3) using len num by (intro sub32_id) auto
    with Some k len show ?thesis by auto
  qed (use facts in simp)
qed

section \<open>The invariant of reachable header states\<close>

text \<open>
  The producers of a schedule fit the 8-bit counters; the configuration asserts it for
  \<open>max_producers\<close>.
\<close>

definition confs_fit :: "producer_schedule_type \<Rightarrow> bool" where
  "confs_fit sch \<longleftrightarrow> length (producers sch) * 2 div 3 + 1 < 256"

definition byte_order_ok :: "fc_crypto \<Rightarrow> bool" where
  "byte_order_ok fc \<longleftrightarrow>
     (\<forall>w. endian_reverse_u32 fc (endian_reverse_u32 fc w) = w) \<and> endian_reverse_u32 fc 0 = 0"

definition dpos_inv :: "fc_crypto \<Rightarrow> block_header_state \<times> block_id list \<Rightarrow> bool" where
  "dpos_inv fc = (\<lambda>(s, ancestors).
     byte_order_ok fc \<and>
     block_num s < 2 ^ 32 \<and> num_from_id fc (state_id s) = block_num s \<and>
     merkle_represents fc (blockroot_merkle s) ancestors \<and> length ancestors + 1 = block_num s \<and>
     confs_fit (active_schedule s) \<and> confs_fit (schedule (pending_schedule s)) \<and>
     counts_ok (confirm_count s) \<and>
     dpos_proposed_irreversible_blocknum s + length (confirm_count s) \<le> block_num s \<and>
     dpos_irreversible_blocknum s \<le> dpos_proposed_irreversible_blocknum s \<and>
     (\<forall>n \<in> snd ` set (producer_to_last_implied_irb s). n \<le> dpos_proposed_irreversible_blocknum s) \<and>
     sorted_wrt (<) (map fst (producer_to_last_implied_irb s)) \<and>
     (\<forall>n \<in> snd ` set (producer_to_last_produced s). n \<le> block_num s))"

text \<open>
  One step: the state of a header accepted on top of the current one. The second component
  collects the ids of the blocks passed.
\<close>

inductive header_step ::
  "fc_crypto \<Rightarrow> build_config \<Rightarrow> block_header_state \<times> block_id list \<Rightarrow>
     block_header_state \<times> block_id list \<Rightarrow> bool" for fc cfg where
  accept: "header_step fc cfg (s, ancestors) (s', ancestors @ [state_id s])"
    if "next_header fc cfg validator s h skip = Inr s'" and "block_num s + 1 < 2 ^ 32"
      and "\<And>np. new_producers h = Some np \<Longrightarrow> confs_fit np"

text \<open>What an accepted header says about the new state, field by field.\<close>

lemma finish_next_base_facts:
  assumes "finish_next_base fc v p h = Inr s"
  shows "block_num s = block_num p" "confirm_count s = confirm_count p"
    "dpos_proposed_irreversible_blocknum s = dpos_proposed_irreversible_blocknum p"
    "dpos_irreversible_blocknum s = dpos_irreversible_blocknum p"
    "active_schedule s = active_schedule p" "blockroot_merkle s = blockroot_merkle p"
    "producer_to_last_produced s = producer_to_last_produced p"
    "producer_to_last_implied_irb s = producer_to_last_implied_irb p"
    "signing_key s = signing_key p" "header s = h" "state_id s = header_id fc h"
    "previous h = pending_previous p" "timestamp h = pending_timestamp p"
    "producer h = pending_producer p" "confirmed h = pending_confirmed p"
    "schedule_version h = active_schedule_version p"
    "pending_schedule s = next_pending_schedule fc p (new_producers h)"
  using assms
  by (auto simp: finish_next_base_def res_simps block_header_state_common.defs)

lemma finish_next_base_of: "finish_next fc v p h skip = Inr s \<Longrightarrow> finish_next_base fc v p h = Inr s"
  by (auto simp: finish_next_def res_simps split: if_splits)

abbreviation grown_counts :: "block_header_state \<Rightarrow> nat list" where
  "grown_counts s \<equiv> grow_confirm_count (confirm_count s)
     (wrap32 (length (producers (active_schedule s)) * 2 div 3 + 1))"

abbreviation confirm_run :: "block_header_state \<Rightarrow> u16 \<Rightarrow> nat list \<times> u32 option" where
  "confirm_run s c \<equiv>
     confirm_loop (wrap32 (block_num s + 1)) (length (grown_counts s)) (c + 1) (grown_counts s)"

lemma next_when_template:
  assumes "next_when fc cfg s w c = Inr p"
  obtains prokey m where
    "get_scheduled_producer cfg s (if w \<noteq> 0 then w else wrap32 (timestamp (header s) + 1)) = Inr prokey"
    "incremental_append fc (state_id s) (blockroot_merkle s) = Inr m"
    "p = pending_template s prokey (if w \<noteq> 0 then w else wrap32 (timestamp (header s) + 1)) c m"
  using assms unfolding next_when_def Let_def eos_assert_Inr ebind_Inr by blast

lemma next_when_facts:
  assumes "next_when fc cfg s w c = Inr p"
  shows "get_scheduled_producer cfg s (pending_timestamp p) =
       Inr \<lparr>producer_name = pending_producer p, block_signing_key = signing_key p\<rparr>"
    "incremental_append fc (state_id s) (blockroot_merkle s) = Inr (blockroot_merkle p)"
    "block_num p = wrap32 (block_num s + 1)" "pending_previous p = state_id s"
    "confirm_count p = fst (confirm_run s c)"
    "dpos_proposed_irreversible_blocknum p =
       (case snd (confirm_run s c) of Some n \<Rightarrow> n | None \<Rightarrow> dpos_proposed_irreversible_blocknum s)"
    "dpos_irreversible_blocknum p = calc_dpos_last_irreversible s (pending_producer p)"
    "was_pending_promoted p \<longleftrightarrow> producers (schedule (pending_schedule s)) \<noteq> [] \<and>
       dpos_irreversible_blocknum p \<ge> schedule_lib_num (pending_schedule s)"
    "active_schedule p = (if was_pending_promoted p then schedule (pending_schedule s) else active_schedule s)"
    "producer_to_last_produced p = fm_set (pending_producer p) (block_num p)
       (if was_pending_promoted p
        then promote_table (producers (active_schedule p)) (pending_producer p) (block_num p)
               (producer_to_last_produced s) (dpos_irreversible_blocknum p)
        else producer_to_last_produced s)"
    "producer_to_last_implied_irb p =
       (if was_pending_promoted p
        then promote_table (producers (active_schedule p)) (pending_producer p)
               (dpos_proposed_irreversible_blocknum s) (producer_to_last_implied_irb s)
               (dpos_irreversible_blocknum p)
        else fm_set (pending_producer p) (dpos_proposed_irreversible_blocknum s)
               (producer_to_last_implied_irb s))"
    "prev_pending_schedule p = pending_schedule s" "pending_confirmed p = c"
    "pending_timestamp p = (if w \<noteq> 0 then w else wrap32 (timestamp (header s) + 1))"
    "active_schedule_version p = version (active_schedule s)"
    "prev_activated_protocol_features p = activated_protocol_features s"
  by ((rule next_when_template [OF assms], simp add: pending_template_def Let_def)+)

lemma next_header_facts:
  assumes "next_header fc cfg v s h skip = Inr s'"
  obtains p where "next_when fc cfg s (timestamp h) (confirmed h) = Inr p"
    and "finish_next_base fc v p h = Inr s'"
  using assms by (auto simp: next_header_def res_simps dest: finish_next_base_of)

lemma set_fm_set: "set (fm_set k v m) \<subseteq> insert (k, v) (set m)"
  by (induction k v m rule: fm_set.induct) auto

lemma set_fm_build:
  "set (foldl (\<lambda>m k. fm_set k (f k) m) m ks) \<subseteq> set m \<union> (\<lambda>k. (k, f k)) ` set ks"
proof (induction ks arbitrary: m)
  case (Cons k ks)
  with set_fm_set [of k "f k" m] show ?case by fastforce
qed simp

lemma sorted_fm_build:
  "sorted_wrt (<) (map fst m) \<Longrightarrow> sorted_wrt (<) (map fst (foldl (\<lambda>m k. fm_set k (f k) m) m ks))"
  by (induction ks arbitrary: m) auto

lemma promote_table_bound:
  assumes "\<forall>n \<in> snd ` set ex. n \<le> b" and "next_value \<le> b" and "lib \<le> b"
  shows "\<forall>n \<in> snd ` set (promote_table ps np next_value ex lib). n \<le> b"
proof -
  define f where "f p = (if p = np then next_value
      else (case map_of ex p of Some n \<Rightarrow> n | None \<Rightarrow> lib))" for p
  have f: "f p \<le> b" for p
    using assms by (force simp: f_def split: option.splits dest: map_of_SomeD)
  have "promote_table ps np next_value ex lib = foldl (\<lambda>m k. fm_set k (f k) m) [] (map producer_name ps)"
    by (simp add: promote_table_def f_def)
  with set_fm_build [of f "[]" "map producer_name ps"]
  have "set (promote_table ps np next_value ex lib) \<subseteq> (\<lambda>k. (k, f k)) ` UNIV" by auto
  with f show ?thesis by fastforce
qed

lemma fm_set_bound:
  "\<forall>n \<in> snd ` set m. n \<le> b \<Longrightarrow> v \<le> b \<Longrightarrow> \<forall>n \<in> snd ` set (fm_set k v m). n \<le> b"
  using set_fm_set [of k v m] by fastforce

lemma dpos_nth_bound: "\<forall>b \<in> set bs. b \<le> m \<Longrightarrow> dpos_nth bs \<le> m"
proof (cases "bs = []")
  case False
  then have "(length bs - 1) div 3 < length bs"
    by (metis diff_less div_le_dividend le_less_trans length_greater_0_conv zero_less_one)
  then have "sort bs ! ((length bs - 1) div 3) \<in> set bs" by (metis length_sort nth_mem set_sort)
  moreover assume "\<forall>b \<in> set bs. b \<le> m"
  ultimately show ?thesis using False by (simp add: dpos_nth_def nth_element_def)
qed (simp add: dpos_nth_def)

lemma calc_dpos_bound:
  "\<forall>n \<in> snd ` set (producer_to_last_implied_irb s). n \<le> dpos_proposed_irreversible_blocknum s \<Longrightarrow>
   calc_dpos_last_irreversible s p \<le> dpos_proposed_irreversible_blocknum s"
  unfolding calc_dpos_last_irreversible_def
  by (rule dpos_nth_bound) (auto simp: dpos_blocknums_def)

lemma grow_confirm_count_ok:
  assumes "counts_ok cc" and "0 < r" and "r < 256"
  shows "counts_ok (grow_confirm_count cc r)" and "length (grow_confirm_count cc r) \<le> length cc + 1"
    and "length cc \<le> length (grow_confirm_count cc r)"
  using assms by (auto simp: grow_confirm_count_def counts_ok_def maximum_tracked_dpos_confirmations_def
      dest: in_set_dropD)

lemma required_confs:
  "confs_fit sch \<Longrightarrow> 0 < wrap32 (length (producers sch) * 2 div 3 + 1) \<and>
     wrap32 (length (producers sch) * 2 div 3 + 1) < 256"
  by (simp add: confs_fit_def wrap32_def)

text \<open>The counters of the template of the next block.\<close>

lemma next_when_dpos:
  assumes inv: "dpos_inv fc (s, ancestors)" and num: "block_num s + 1 < 2 ^ 32"
    and step: "next_when fc cfg s w c = Inr p"
  shows "block_num p = block_num s + 1" and "counts_ok (confirm_count p)"
    and "dpos_proposed_irreversible_blocknum p + length (confirm_count p) \<le> block_num p"
    and "dpos_proposed_irreversible_blocknum s \<le> dpos_proposed_irreversible_blocknum p"
    and "dpos_irreversible_blocknum p \<le> dpos_proposed_irreversible_blocknum s"
proof -
  note p = next_when_facts [OF step]
  from inv have ok: "counts_ok (confirm_count s)" and fit: "confs_fit (active_schedule s)"
    and le: "dpos_proposed_irreversible_blocknum s + length (confirm_count s) \<le> block_num s"
    and irb: "\<forall>n \<in> snd ` set (producer_to_last_implied_irb s). n \<le> dpos_proposed_irreversible_blocknum s"
    by (simp_all add: dpos_inv_def)
  from p(3) num show bn: "block_num p = block_num s + 1" by simp
  have grown: "counts_ok (grown_counts s)" "length (grown_counts s) \<le> length (confirm_count s) + 1"
    using grow_confirm_count_ok [OF ok] required_confs [OF fit] by blast+
  have "length (grown_counts s) \<le> wrap32 (block_num s + 1)" "wrap32 (block_num s + 1) < 2 ^ 32"
    using grown(2) le num by simp_all
  note keeps = confirm_loop_keeps [OF grown(1) this prod.collapse [symmetric], of "c + 1"]
  from keeps(1) p(5) show "counts_ok (confirm_count p)" by simp
  show "dpos_proposed_irreversible_blocknum p + length (confirm_count p) \<le> block_num p"
    and "dpos_proposed_irreversible_blocknum s \<le> dpos_proposed_irreversible_blocknum p"
    using keeps(2) p(5,6) grown(2) le bn num by (auto split: option.splits)
  show "dpos_irreversible_blocknum p \<le> dpos_proposed_irreversible_blocknum s"
    unfolding p(7) by (rule calc_dpos_bound [OF irb])
qed

lemma next_pending_schedule_fits:
  assumes "confs_fit (schedule (prev_pending_schedule p))" and "\<And>np. new = Some np \<Longrightarrow> confs_fit np"
  shows "confs_fit (schedule (next_pending_schedule fc p new))"
  using assms by (auto simp: next_pending_schedule_def confs_fit_def default_schedule_def split: option.splits)

lemma header_step_inv:
  assumes "dpos_inv fc x" and "header_step fc cfg x y"
  shows "dpos_inv fc y"
  using assms(2,1)
proof (cases rule: header_step.cases)
  case (accept v s h skip s' ancestors)
  with assms have inv: "dpos_inv fc (s, ancestors)" by simp
  from accept(3) obtain p where p: "next_when fc cfg s (timestamp h) (confirmed h) = Inr p"
    and fin: "finish_next_base fc v p h = Inr s'" by (rule next_header_facts)
  note pf = next_when_facts [OF p] and sf = finish_next_base_facts [OF fin]
    and dpos = next_when_dpos [OF inv accept(4) p]
  from inv have i: "byte_order_ok fc" "num_from_id fc (state_id s) = block_num s"
    "merkle_represents fc (blockroot_merkle s) ancestors" "length ancestors + 1 = block_num s"
    "confs_fit (active_schedule s)" "confs_fit (schedule (pending_schedule s))"
    "\<forall>n \<in> snd ` set (producer_to_last_implied_irb s). n \<le> dpos_proposed_irreversible_blocknum s"
    "sorted_wrt (<) (map fst (producer_to_last_implied_irb s))"
    "\<forall>n \<in> snd ` set (producer_to_last_produced s). n \<le> block_num s"
    by (simp_all add: dpos_inv_def)
  have "num_from_id fc (header_id fc h) = wrap32 (num_from_id fc (state_id s) + 1)"
    using i(1) num_from_id_header_id [of fc h] sf(12) pf(4)
    by (simp add: byte_order_ok_def header_block_num_def)
  then have "num_from_id fc (state_id s') = block_num s'"
    using i(2) sf(1,11) dpos(1) accept(4) by simp
  moreover have "merkle_represents fc (blockroot_merkle s') (ancestors @ [state_id s])"
    using append_represents [OF i(3), of "state_id s"] pf(2) sf(6) accept(4) i(4) by auto
  moreover have "confs_fit (active_schedule s')" "confs_fit (schedule (pending_schedule s'))"
    using i(5,6) pf(9,12) sf(5,17) next_pending_schedule_fits [of p "new_producers h" fc] accept(5)
    by auto
  moreover have "\<forall>n \<in> snd ` set (producer_to_last_implied_irb s'). n \<le> dpos_proposed_irreversible_blocknum s'"
  proof -
    have "\<forall>n \<in> snd ` set (producer_to_last_implied_irb s'). n \<le> dpos_proposed_irreversible_blocknum s"
      unfolding sf(8) pf(11)
      using promote_table_bound [OF i(7) order_refl dpos(5)] fm_set_bound [OF i(7) order_refl] by simp
    with dpos(4) sf(3) show ?thesis by fastforce
  qed
  moreover have "sorted_wrt (<) (map fst (producer_to_last_implied_irb s'))"
    unfolding sf(8) pf(11) promote_table_def using i(8) by (auto intro: sorted_fm_build)
  moreover have "\<forall>n \<in> snd ` set (producer_to_last_produced s'). n \<le> block_num s'"
  proof -
    have old: "\<forall>n \<in> snd ` set (producer_to_last_produced s). n \<le> block_num p"
      using i(9) dpos(1) by fastforce
    have "dpos_irreversible_blocknum p \<le> block_num p" using dpos(3,4,5) by linarith
    then have "\<forall>n \<in> snd ` set (if was_pending_promoted p
        then promote_table (producers (active_schedule p)) (pending_producer p) (block_num p)
               (producer_to_last_produced s) (dpos_irreversible_blocknum p)
        else producer_to_last_produced s). n \<le> block_num p"
      using old promote_table_bound [OF old order_refl] by simp
    then show ?thesis unfolding sf(1,7) pf(10) by (rule fm_set_bound) simp
  qed
  ultimately show ?thesis
    using accept(2,4) i(1,4) sf(1-4) dpos by (simp add: dpos_inv_def)
qed

text \<open>Genesis satisfies the invariant, and the header states form an invariant system.\<close>

definition header_init :: "fc_crypto \<Rightarrow> block_header_state \<times> block_id list \<Rightarrow> bool" where
  "header_init fc x \<longleftrightarrow>
     byte_order_ok fc \<and>
     (\<exists>ps t cid. length ps * 2 div 3 + 1 < 256 \<and> x = (genesis_state fc ps t cid, []))"

interpretation headers: invariant_system "header_init fc" "header_step fc cfg" "dpos_inv fc" for fc cfg
proof
  show "dpos_inv fc x" if "header_init fc x" for x
  proof -
    from that obtain ps t cid where fc: "byte_order_ok fc" and ps: "length ps * 2 div 3 + 1 < 256"
      and x: "x = (genesis_state fc ps t cid, [])"
      by (auto simp: header_init_def)
    have "num_from_id fc null_digest = 0"
      using fc by (simp add: byte_order_ok_def num_from_id_def null_digest_def)
    then have "header_block_num fc (genesis_header t cid) = 1"
      by (simp add: header_block_num_def genesis_header_def)
    then show ?thesis
      using fc ps num_from_id_header_id [of fc "genesis_header t cid"] im.represents_empty [of fc]
      by (simp add: x dpos_inv_def genesis_state_def Let_def byte_order_ok_def confs_fit_def counts_ok_def)
  qed
  show "dpos_inv fc y" if "dpos_inv fc x" "header_step fc cfg x y" for x y
    using header_step_inv that .
qed

text \<open>
  C7. In every state reached from genesis by accepted headers: the id carries the block
  number, the tree of block ids has the Merkle root of all ancestor ids, and the finality
  counters are ordered - irreversible up to proposed, proposed strictly below the block whenever
  it is tracked, and no producer implied more than what is proposed.
\<close>

theorem reachable_header_state:
  assumes "header_init fc x" and "(header_step fc cfg)\<^sup>*\<^sup>* x (s, ancestors)"
  shows "num_from_id fc (state_id s) = block_num s \<and> block_num s = length ancestors + 1 \<and>
     get_root (blockroot_merkle s) = merkle fc ancestors \<and>
     dpos_irreversible_blocknum s \<le> dpos_proposed_irreversible_blocknum s \<and>
     dpos_proposed_irreversible_blocknum s + length (confirm_count s) \<le> block_num s \<and>
     (\<forall>n \<in> snd ` set (producer_to_last_implied_irb s). n \<le> dpos_proposed_irreversible_blocknum s)"
proof -
  from assms have inv: "dpos_inv fc (s, ancestors)" by (rule headers.reachable_inv)
  then have "get_root (blockroot_merkle s) = merkle fc ancestors"
    by (intro im.root_spec) (simp add: dpos_inv_def)
  with inv show ?thesis by (simp add: dpos_inv_def)
qed

lemma sample_reach:
  "header_init sample_fc (sample_genesis, [])"
  "(header_step sample_fc sample_cfg)\<^sup>*\<^sup>* (sample_genesis, []) (sample_state, [state_id sample_genesis])"
proof -
  show "header_init sample_fc (sample_genesis, [])"
    unfolding header_init_def byte_order_ok_def sample_genesis_def
    by (auto simp: sample_fc_def byte_swap32_twice sample_byte_order intro!: exI [of _ "[(1, 42)]"])
  have "header_step sample_fc sample_cfg (sample_genesis, []) (sample_state, [] @ [state_id sample_genesis])"
    by (rule header_step.accept [OF sample_accepted])
      (simp_all add: sample_genesis_num sample_next_header_def make_block_header_def)
  then show "(header_step sample_fc sample_cfg)\<^sup>*\<^sup>* (sample_genesis, []) (sample_state, [state_id sample_genesis])"
    by (simp add: r_into_rtranclp)
qed

theorem reachable_header_state_witness:
  "num_from_id sample_fc (state_id sample_state) = 2 \<and>
   get_root (blockroot_merkle sample_state) = state_id sample_genesis"
  using reachable_header_state [OF sample_reach] by (simp add: merkle_def merkle_loop.simps)

section \<open>Irreversibility does not go back\<close>

lemma count_less: "length (filter (\<lambda>b. b < v) xs) + length (filter (\<lambda>b. v \<le> b) xs) = length (xs :: nat list)"
  by (induction xs) auto

lemma dpos_nth_mono:
  assumes len: "length xs \<le> length ys"
    and less: "length (filter (\<lambda>b. b < dpos_nth xs) ys) \<le> length (filter (\<lambda>b. b < dpos_nth xs) xs)"
  shows "dpos_nth xs \<le> dpos_nth ys"
proof (cases "xs = []")
  case True
  then show ?thesis by (simp add: dpos_nth_def)
next
  case False
  define i j where "i = (length xs - 1) div 3" and "j = (length ys - 1) div 3"
  have pos: "0 < length xs" using False by simp
  then have posy: "0 < length ys" using len by linarith
  have "i \<le> length xs - 1" "j \<le> length ys - 1" by (simp_all add: i_def j_def)
  then have ij: "i < length (sort xs)" "j < length (sort ys)" "i \<le> j"
    using pos posy len by (simp_all add: i_def j_def div_le_mono del: length_greater_0_conv)
  have nth: "dpos_nth xs = sort xs ! i" "dpos_nth ys = sort ys ! j"
    using False posy by (simp_all add: i_def j_def dpos_nth_def nth_element_def)
  have count: "length (filter P (sort zs)) = length (filter P zs)" for P and zs :: "nat list"
    by (simp add: filter_sort)
  have "length xs - i \<le> length (filter (\<lambda>b. dpos_nth xs \<le> b) xs)"
    using filter_ge_nth [OF _ ij(1)] by (simp add: count nth)
  then have few: "length (filter (\<lambda>b. b < dpos_nth xs) ys) \<le> i"
    using count_less [of "dpos_nth xs" xs] less ij(1) by simp
  show ?thesis
  proof (rule ccontr)
    assume "\<not> dpos_nth xs \<le> dpos_nth ys"
    then have "length (filter (\<lambda>b. dpos_nth xs \<le> b) ys) \<le> length ys - Suc j"
      using filter_gt_nth [OF _ ij(2), of "dpos_nth xs"] by (simp add: count nth)
    with count_less [of "dpos_nth xs" ys] few ij show False by simp
  qed
qed

lemma count_fm_set:
  assumes "sorted_wrt (<) (map fst m)" and "\<not> x < v" and g: "\<And>k n. (n :: nat) \<le> g k n"
  shows "length (filter (\<lambda>(k, n). g k n < v) (fm_set pk x m)) \<le>
         length (filter (\<lambda>(k, n). (if k = pk then x else n) < v) m)"
    and "length m \<le> length (fm_set pk x m)"
proof -
  have ge: "\<not> g k x < v" for k using g [of x k] assms(2) by simp
  have mono: "length (filter (\<lambda>(k, n). g k n < v) m') \<le>
      length (filter (\<lambda>(k, n). (if k = pk then x else n) < v) m')" if "pk \<notin> fst ` set m'" for m'
    using that
  proof (induction m')
    case (Cons a m')
    then show ?case using g [of "snd a" "fst a"] by (cases a) auto
  qed simp
  show "length (filter (\<lambda>(k, n). g k n < v) (fm_set pk x m)) \<le>
         length (filter (\<lambda>(k, n). (if k = pk then x else n) < v) m)"
    using assms(1)
  proof (induction m)
    case (Cons e m)
    obtain k n where e: "e = (k, n)" by (cases e)
    from Cons.prems e have later: "\<And>k'. k' \<in> fst ` set m \<Longrightarrow> k < k'" by auto
    consider "pk < k" | "pk = k" | "k < pk" by fastforce
    then show ?case
    proof cases
      case 1
      with later e have "pk \<notin> fst ` set (e # m)" by fastforce
      with mono [of "e # m"] 1 e ge show ?thesis by simp
    next
      case 2
      with later have "pk \<notin> fst ` set m" by fastforce
      with mono [of m] 2 e ge assms(2) show ?thesis by simp
    next
      case 3
      with Cons e g [of n k] show ?thesis by auto
    qed
  qed (simp add: ge)
  show "length m \<le> length (fm_set pk x m)"
    by (induction pk x m rule: fm_set.induct) auto
qed

text \<open>
  C13. While a schedule stands, irreversibility only advances: if the block after a reachable
  state promotes no pending schedule, the irreversible number of the block that follows it is
  at least its own.
\<close>

theorem irreversible_monotone:
  assumes reach: "header_init fc x" "(header_step fc cfg)\<^sup>*\<^sup>* x (s, ancestors)"
    and num: "block_num s + 1 < 2 ^ 32"
    and p: "next_when fc cfg s w c = Inr p" and stay: "\<not> was_pending_promoted p"
    and s': "finish_next fc v p h skip = Inr s'"
    and q: "next_when fc cfg s' w' c' = Inr q"
  shows "dpos_irreversible_blocknum p \<le> dpos_irreversible_blocknum q"
proof -
  from reach have inv: "dpos_inv fc (s, ancestors)" by (rule headers.reachable_inv)
  note pf = next_when_facts [OF p] and qf = next_when_facts [OF q] and dpos = next_when_dpos [OF inv num p]
    and sf = finish_next_base_facts [OF finish_next_base_of [OF s']]
  let ?irb = "producer_to_last_implied_irb s" and ?pk = "pending_producer p"
  let ?x = "dpos_proposed_irreversible_blocknum s"
  define g where "g k n = (if k = pending_producer q
      then max n (dpos_proposed_irreversible_blocknum s') else n)" for k n
  have irb': "producer_to_last_implied_irb s' = fm_set ?pk ?x ?irb"
    using stay sf(8) pf(11) by simp
  from inv have sorted: "sorted_wrt (<) (map fst ?irb)"
    and bound: "\<forall>n \<in> snd ` set ?irb. n \<le> ?x" by (simp_all add: dpos_inv_def)
  have bound': "\<forall>n \<in> snd ` set (fm_set ?pk ?x ?irb). n \<le> dpos_proposed_irreversible_blocknum s'"
    using fm_set_bound [OF bound order_refl] dpos(4) sf(3) by fastforce
  have lists: "dpos_blocknums s' (pending_producer q) = map (\<lambda>(k, n). g k n) (fm_set ?pk ?x ?irb)"
    using bound' by (auto simp: dpos_blocknums_def irb' g_def max_def)
  have "\<not> ?x < dpos_irreversible_blocknum p" using dpos(5) by simp
  note count = count_fm_set [OF sorted this, of g ?pk]
  have "dpos_nth (dpos_blocknums s ?pk) \<le> dpos_nth (dpos_blocknums s' (pending_producer q))"
  proof (rule dpos_nth_mono)
    show "length (dpos_blocknums s ?pk) \<le> length (dpos_blocknums s' (pending_producer q))"
      using count(2) by (simp add: lists) (simp add: dpos_blocknums_def g_def)
    have "dpos_nth (dpos_blocknums s ?pk) = dpos_irreversible_blocknum p"
      using pf(7) by (simp add: calc_dpos_last_irreversible_def)
    then show "length (filter (\<lambda>b. b < dpos_nth (dpos_blocknums s ?pk)) (dpos_blocknums s' (pending_producer q)))
        \<le> length (filter (\<lambda>b. b < dpos_nth (dpos_blocknums s ?pk)) (dpos_blocknums s ?pk))"
      using count(1) unfolding lists
      by (simp add: dpos_blocknums_def filter_map comp_def case_prod_unfold g_def)
  qed
  then show ?thesis using pf(7) qf(7) by (simp add: calc_dpos_last_irreversible_def)
qed

text \<open>With a single producer every later slot can be produced.\<close>

lemma single_producer_next:
  assumes inv: "dpos_inv fc (s, ancestors)" and num: "block_num s + 1 < 2 ^ 32"
    and k: "producers (active_schedule s) = [k]" and w: "timestamp (header s) < w"
  shows "\<exists>m. next_when fc sample_cfg s w 0 = Inr (pending_template s k w 0 m)"
proof -
  from inv have "merkle_represents fc (blockroot_merkle s) ancestors" "length ancestors + 1 = block_num s"
    by (simp_all add: dpos_inv_def)
  then obtain m where "incremental_append fc (state_id s) (blockroot_merkle s) = Inr m"
    using append_represents [of fc "blockroot_merkle s" ancestors "state_id s"] num by auto
  moreover have "n < sub32 (wrap32 (block_num s + 1)) 0"
    if "map_of (producer_to_last_produced s) p = Some n" for p n
  proof -
    from that have "n \<in> snd ` set (producer_to_last_produced s)" by (force dest: map_of_SomeD)
    with inv have "n \<le> block_num s" by (auto simp: dpos_inv_def)
    with num show ?thesis by (simp add: sub32_id)
  qed
  ultimately show ?thesis
    using k w by (auto simp: next_when_def Let_def get_scheduled_producer_def sample_cfg_def
        eos_assert_def split: option.splits)
qed

lemma finish_made_header:
  "finish_next fc v p (make_block_header fc p a b None []) True =
     Inr (block_header_state_common.extend (block_header_state_common.truncate p)
       \<lparr>state_id = header_id fc (make_block_header fc p a b None []),
        header = make_block_header fc p a b None [],
        pending_schedule = next_pending_schedule fc p None,
        activated_protocol_features = prev_activated_protocol_features p,
        header_exts = []\<rparr>)"
  by (simp add: finish_next_def finish_next_base_def make_block_header_def check_new_producers_def
      validate_and_extract_header_extensions_def activate_in_header_def)

lemma sample_state_fields:
  "block_num sample_state = 2" "timestamp (header sample_state) = 6"
  "producers (active_schedule sample_state) = [\<lparr>producer_name = 1, block_signing_key = 42\<rparr>]"
  "producers (schedule (pending_schedule sample_state)) = []"
  by (simp_all add: sample_state_def sample_pending_def pending_template_def Let_def
      block_header_state_common.defs sample_genesis_num sample_next_header_def make_block_header_def
      next_pending_schedule_def default_schedule_def)
    (simp_all add: sample_genesis_def genesis_state_def Let_def calc_dpos_last_irreversible_def
      dpos_blocknums_def dpos_nth_def)

theorem irreversible_monotone_witness:
  "\<exists>p s' q. next_when sample_fc sample_cfg sample_state 7 0 = Inr p \<and> \<not> was_pending_promoted p \<and>
     finish_next sample_fc (\<lambda>_ _ _. Inr ()) p (make_block_header sample_fc p null_digest null_digest None []) True
       = Inr s' \<and>
     next_when sample_fc sample_cfg s' 8 0 = Inr q \<and>
     dpos_irreversible_blocknum p \<le> dpos_irreversible_blocknum q"
proof -
  let ?k = "\<lparr>producer_name = 1, block_signing_key = 42 :: public_key\<rparr>"
  have inv: "dpos_inv sample_fc (sample_state, [state_id sample_genesis])"
    by (rule headers.reachable_inv [OF sample_reach])
  then obtain m where p: "next_when sample_fc sample_cfg sample_state 7 0 = Inr (pending_template sample_state ?k 7 0 m)"
    using single_producer_next [OF inv, of ?k 7] by (auto simp: sample_state_fields)
  let ?p = "pending_template sample_state ?k 7 0 m"
  let ?h = "make_block_header sample_fc ?p null_digest null_digest None []"
  obtain s' where s': "finish_next sample_fc (\<lambda>_ _ _. Inr ()) ?p ?h True = Inr s'"
    using finish_made_header by blast
  note sf = finish_next_base_facts [OF finish_next_base_of [OF s']] and pf = next_when_facts [OF p]
  have stay: "\<not> was_pending_promoted ?p" using pf(8) sample_state_fields(4) by simp
  have h: "timestamp ?h = 7" "confirmed ?h = 0" "new_producers ?h = None"
    by (simp_all add: make_block_header_def pending_template_def Let_def)
  have "next_header sample_fc sample_cfg (\<lambda>_ _ _. Inr ()) sample_state ?h True = Inr s'"
    using p s' h by (simp add: next_header_def)
  then have "header_step sample_fc sample_cfg (sample_state, [state_id sample_genesis])
      (s', [state_id sample_genesis] @ [state_id sample_state])"
    by (rule header_step.accept) (simp_all add: h sample_state_fields(1))
  with inv have inv': "dpos_inv sample_fc (s', [state_id sample_genesis] @ [state_id sample_state])"
    by (rule header_step_inv)
  have "block_num s' = 3" "producers (active_schedule s') = [?k]" "timestamp (header s') = 7"
    using sf(1,5,10) pf(3,9) stay sample_state_fields h by simp_all
  with single_producer_next [OF inv', of ?k 8] obtain q where
    q: "next_when sample_fc sample_cfg s' 8 0 = Inr q" by auto
  have "block_num sample_state + 1 < 2 ^ 32" by (simp add: sample_state_fields)
  from irreversible_monotone [OF sample_reach this p stay s' q] p stay s' q show ?thesis by blast
qed

section \<open>Scheduling, validation and signing\<close>

text \<open>
  C31. The producers take turns: in round \<open>q\<close> the \<open>i\<close>-th producer of the active schedule owns
  exactly its \<open>producer_repetitions\<close> consecutive slots.
\<close>

theorem scheduled_round_robin:
  assumes "i < length (producers (active_schedule s))" and "j < producer_repetitions cfg"
  shows "get_scheduled_producer cfg s
      (producer_repetitions cfg * (length (producers (active_schedule s)) * q + i) + j)
    = Inr (producers (active_schedule s) ! i)"
proof -
  let ?n = "length (producers (active_schedule s))" and ?r = "producer_repetitions cfg"
  have small: "?r * i + j < ?n * ?r"
  proof -
    have "?r * i + j < ?r * Suc i" using assms(2) by simp
    also have "\<dots> \<le> ?r * ?n" using assms(1) by (intro mult_le_mono2) simp
    finally show ?thesis by (simp add: mult.commute)
  qed
  have "?r * (?n * q + i) + j = (?r * i + j) + (?n * ?r) * q" by (simp add: algebra_simps)
  then have "(?r * (?n * q + i) + j) mod (?n * ?r) = ?r * i + j"
    using small by (simp only: mod_mult_self2 mod_less)
  moreover have "(?r * i + j) div ?r = i" using assms(2) by simp
  moreover have "producers (active_schedule s) \<noteq> []" "0 < ?r" using assms by auto
  ultimately show ?thesis by (simp add: get_scheduled_producer_def Let_def)
qed

theorem scheduled_round_robin_witness:
  "get_scheduled_producer sample_cfg
     (sample_genesis\<lparr>active_schedule := \<lparr>version = 1, producers =
        [\<lparr>producer_name = 1, block_signing_key = 11\<rparr>, \<lparr>producer_name = 2, block_signing_key = 12\<rparr>]\<rparr>\<rparr>) 43
   = Inr \<lparr>producer_name = 2, block_signing_key = 12\<rparr>"
  using scheduled_round_robin [of 1 "sample_genesis\<lparr>active_schedule := \<lparr>version = 1, producers =
        [\<lparr>producer_name = 1, block_signing_key = 11\<rparr>, \<lparr>producer_name = 2, block_signing_key = 12\<rparr>]\<rparr>\<rparr>"
      1 sample_cfg 10]
  by (simp add: sample_cfg_def)

text \<open>
  C22. A header that is accepted with its signature checked links to the state it extends, lies
  in the future, names the scheduled producer and the active schedule, and carries a signature
  of the digest of the new state from which the scheduled producer's key is recovered; the new
  state has the next number and the header's id.
\<close>

theorem accepted_header_authentic:
  assumes "next_header fc cfg v s h False = Inr s'" and "timestamp h \<noteq> 0"
  shows "previous h = state_id s \<and> timestamp (header s) < timestamp h \<and>
     schedule_version h = version (active_schedule s) \<and>
     state_id s' = header_id fc h \<and> header s' = h \<and> block_num s' = wrap32 (block_num s + 1) \<and>
     (\<exists>k. get_scheduled_producer cfg s (timestamp h) = Inr k \<and> producer_name k = producer h \<and>
          recover_key fc (producer_signature h) (sig_digest fc s') True = Inr (block_signing_key k))"
proof -
  from assms(1) obtain p where p: "next_when fc cfg s (timestamp h) (confirmed h) = Inr p"
    and fin: "finish_next fc v p h False = Inr s'"
    by (auto simp: next_header_def res_simps)
  note pf = next_when_facts [OF p] and sf = finish_next_base_facts [OF finish_next_base_of [OF fin]]
  have "timestamp (header s) < timestamp h"
    using p assms(2) by (auto simp: next_when_def res_simps Let_def)
  moreover have "recover_key fc (producer_signature h) (sig_digest fc s') True = Inr (signing_key s')"
    using fin sf(10) by (auto simp: finish_next_def signee_def verify_signee_def res_simps)
  ultimately show ?thesis using pf(1,3,4,15) sf assms(2) by auto
qed

theorem accepted_header_authentic_witness:
  "previous sample_next_header = state_id sample_genesis \<and>
   (\<exists>k. get_scheduled_producer sample_cfg sample_genesis 6 = Inr k \<and>
        recover_key sample_fc 42 (sig_digest sample_fc sample_state) True = Inr (block_signing_key k))"
proof -
  have "timestamp sample_next_header = 6" "producer_signature sample_next_header = 42"
    by (simp_all add: sample_next_header_def make_block_header_def sample_pending_def
        pending_template_def Let_def)
  with accepted_header_authentic [OF sample_accepted] show ?thesis by auto
qed

text \<open>
  C26. The schedule rules of an accepted header: the active schedule changes only to the pending
  one, and only once the block that proposed it is irreversible; a new schedule is accepted
  only with the next version number while none is pending and none is promoted by the same
  block.
\<close>

theorem schedule_change_rules:
  assumes "next_header fc cfg v s h skip = Inr s'"
  shows "(active_schedule s' = active_schedule s \<or>
      active_schedule s' = schedule (pending_schedule s) \<and> producers (active_schedule s') \<noteq> [] \<and>
      schedule_lib_num (pending_schedule s) \<le> dpos_irreversible_blocknum s' \<and>
      producers (schedule (pending_schedule s')) = [] \<and> new_producers h = None) \<and>
    (\<forall>np. new_producers h = Some np \<longrightarrow>
      version np = wrap32 (version (active_schedule s) + 1) \<and>
      active_schedule s' = active_schedule s \<and> producers (schedule (pending_schedule s)) = [] \<and>
      schedule (pending_schedule s') = np \<and> schedule_lib_num (pending_schedule s') = block_num s')"
proof -
  from assms obtain p where p: "next_when fc cfg s (timestamp h) (confirmed h) = Inr p"
    and fin: "finish_next_base fc v p h = Inr s'" by (rule next_header_facts)
  note pf = next_when_facts [OF p] and sf = finish_next_base_facts [OF fin]
  have new: "check_new_producers p (new_producers h) = Inr ()"
    using fin by (auto simp: finish_next_base_def res_simps)
  show ?thesis
  proof (cases "new_producers h")
    case None
    then show ?thesis
      using pf(8,9,12) sf(4,5,17) by (auto simp: next_pending_schedule_def default_schedule_def)
  next
    case (Some np)
    with new have "\<not> was_pending_promoted p" "version np = wrap32 (version (active_schedule p) + 1)"
      "producers (schedule (prev_pending_schedule p)) = []"
      by (auto simp: check_new_producers_def res_simps)
    with Some show ?thesis
      using pf(9,12) sf(1,5,17) by (auto simp: next_pending_schedule_def)
  qed
qed

theorem schedule_change_rules_witness:
  "active_schedule sample_state = active_schedule sample_genesis \<or>
   schedule_lib_num (pending_schedule sample_genesis) \<le> dpos_irreversible_blocknum sample_state"
  using schedule_change_rules [OF sample_accepted] by auto

text \<open>
  C20. Producing and validating agree: the header that a producer finishes and signs on its
  template is accepted, signature included, by every node holding the same state, and leads it
  to the same new state.
\<close>

theorem produced_block_accepted:
  assumes p: "next_when fc cfg s w c = Inr p"
    and made: "finish_next_sign fc v p h signer = Inr (s', h')"
    and time: "timestamp (header s) < 2 ^ 32" "pending_timestamp p \<noteq> 0"
  shows "next_header fc cfg v s h' False = Inr s'"
proof -
  from made obtain r k where r: "finish_next_base fc v p h = Inr r"
    and k: "recover_key fc (signer (sig_digest fc r)) (sig_digest fc r) True = Inr k" "signing_key r = k"
    and s': "s' = r\<lparr>header := (header r)\<lparr>producer_signature := signer (sig_digest fc r)\<rparr>\<rparr>"
    and h': "h' = h\<lparr>producer_signature := signer (sig_digest fc r)\<rparr>"
    by (auto simp: finish_next_sign_def sign_def Let_def res_simps)
  note pf = next_when_facts [OF p] and rf = finish_next_base_facts [OF r]
  have same: "next_when fc cfg s (pending_timestamp p) c = Inr p"
  proof (cases "w = 0")
    case True
    have "timestamp (header s) < pending_timestamp p"
    proof (cases "timestamp (header s) + 1 < 2 ^ 32")
      case False
      with time(1) have "timestamp (header s) = 2 ^ 32 - 1" by simp
      with time(2) pf(14) \<open>w = 0\<close> show ?thesis by (simp add: wrap32_def)
    qed (use \<open>w = 0\<close> pf(14) in simp)
    with True p pf(14) time(2) show ?thesis by (simp add: next_when_def Let_def)
  qed (use p pf(14) in simp)
  have trunc: "block_header.truncate h' = block_header.truncate h"
    by (simp add: h' block_header.defs)
  have base: "finish_next_base fc v p h' = Inr s'"
    using r trunc by (auto simp: finish_next_base_def res_simps h' s' header_id_def header_digest_def
        header_block_num_def validate_and_extract_header_extensions_def Let_def
        block_header_state_common.defs)
  have "sig_digest fc s' = sig_digest fc r"
    using trunc rf(10) by (simp add: sig_digest_def s' h' header_digest_def)
  then have "signee fc s' = Inr k" using k by (simp add: signee_def s')
  then show ?thesis
    using same base k rf(13,15) pf(13)
    by (simp add: next_header_def finish_next_def verify_signee_def h' s')
qed

theorem produced_block_accepted_witness:
  "\<exists>s' h'. finish_next_sign sample_fc (\<lambda>_ _ _. Inr ()) sample_pending sample_next_header (\<lambda>d. 42)
       = Inr (s', h') \<and>
     next_header sample_fc sample_cfg (\<lambda>_ _ _. Inr ()) sample_genesis h' False = Inr s'"
proof -
  have "sign sample_fc (\<lambda>d. 42) sample_state = Inr sample_state"
    by (simp add: sign_def Let_def sample_signing_key)
      (simp add: sample_fc_def sample_state_def sample_next_header_def block_header_state_common.defs)
  then have made: "finish_next_sign sample_fc (\<lambda>_ _ _. Inr ()) sample_pending sample_next_header (\<lambda>d. 42)
      = Inr (sample_state, sample_next_header\<lparr>producer_signature := producer_signature (header sample_state)\<rparr>)"
    by (simp add: finish_next_sign_def sample_finish)
  have "timestamp (header sample_genesis) < 2 ^ 32" "pending_timestamp sample_pending \<noteq> 0"
    by (simp_all add: sample_genesis_def genesis_state_def Let_def genesis_header_def sample_pending_def
        pending_template_def)
  from produced_block_accepted [OF sample_next made this] made show ?thesis by blast
qed

end
