(* ===== verification/Fork_Database.thy ===== *)
theory Fork_Database
  imports Header_State
begin

text \<open>
  The fork database (\<open>fork_database.cpp\<close>): the tree of blocks above the last irreversible one,
  its ordered index, the head, and the operations on them. A loop that follows previous-block
  links is a partial function whose value \<open>None\<close> means that it does not return; the results
  show that on the states the operations produce it always returns.
\<close>

section \<open>State\<close>

text \<open>
  The multi-index container is the list of its elements in insertion order; the index by id is
  unique. Root and head are shared pointers, null before the first \<open>reset\<close>.
\<close>

record fork_database =
  index :: "block_state list"
  root :: "block_state option"
  head :: "block_state option"

definition empty_fork_database :: fork_database where
  "empty_fork_database = \<lparr>index = [], root = None, head = None\<rparr>"

abbreviation prev_id :: "'a block_header_state_scheme \<Rightarrow> block_id" where
  "prev_id b \<equiv> previous (block_header_state.header b)"

text \<open>The comparator of the index \<open>by_lib_block_num\<close> and the preference between branches.\<close>

definition by_lib_block_num :: "block_state \<Rightarrow> block_state \<Rightarrow> bool" where
  "by_lib_block_num a b \<longleftrightarrow>
     (validated a \<and> \<not> validated b) \<or> (validated a = validated b \<and>
     (dpos_irreversible_blocknum a > dpos_irreversible_blocknum b \<or>
      dpos_irreversible_blocknum a = dpos_irreversible_blocknum b \<and>
     (block_num a > block_num b \<or> block_num a = block_num b \<and>
      sha256_less (state_id a) (state_id b))))"

definition first_preferred ::
  "'a block_header_state_scheme \<Rightarrow> 'b block_header_state_scheme \<Rightarrow> bool" where
  "first_preferred lhs rhs \<longleftrightarrow>
     dpos_irreversible_blocknum lhs > dpos_irreversible_blocknum rhs \<or>
     dpos_irreversible_blocknum lhs = dpos_irreversible_blocknum rhs \<and> block_num lhs > block_num rhs"

section \<open>Lookups\<close>

definition get_block :: "fork_database \<Rightarrow> block_id \<Rightarrow> block_state option" where
  "get_block db i = find (\<lambda>b. state_id b = i) (index db)"

definition get_block_header :: "fork_database \<Rightarrow> block_id \<Rightarrow> (block_state option) res" where
  "get_block_header db i =
     (case root db of
        None \<Rightarrow> Inl Undefined_behaviour
      | Some r \<Rightarrow> Inr (if state_id r = i then Some r else get_block db i))"

section \<open>Operations\<close>

definition reset :: "block_header_state \<Rightarrow> fork_database \<Rightarrow> fork_database" where
  "reset root_bhs db =
     (let r = block_header_state.extend root_bhs \<lparr>block = None, validated = True, trxs = []\<rparr>
      in db\<lparr>index := [], root := Some r, head := Some r\<rparr>)"

definition rollback_head_to_root :: "fork_database \<Rightarrow> fork_database" where
  "rollback_head_to_root db =
     db\<lparr>index := map (\<lambda>b. b\<lparr>validated := False\<rparr>) (index db), head := root db\<rparr>"

definition add_impl ::
  "validator \<Rightarrow> block_state option \<Rightarrow> bool \<Rightarrow> bool \<Rightarrow> fork_database \<Rightarrow> fork_database res" where
  "add_impl validator n0 ignore_duplicate validate db =
     eos_assert (root db \<noteq> None) Fork_database_exception
    (ebind (from_some Fork_database_exception n0) (\<lambda>n.
     ebind (get_block_header db (prev_id n)) (\<lambda>found.
     ebind (from_some Unlinkable_block_exception found) (\<lambda>prev_bh.
     ebind (if validate
            then rethrow_as Fork_database_exception
                   (case header_exts n of
                      [] \<Rightarrow> Inr ()
                    | e # _ \<Rightarrow> validator (timestamp (block_header_state.header n))
                                 (activated_protocol_features prev_bh) (protocol_features e))
            else Inr ()) (\<lambda>_.
     if get_block db (state_id n) \<noteq> None
     then (if ignore_duplicate then Inr db else Inl Fork_database_exception)
     else
       (let db1 = db\<lparr>index := index db @ [n]\<rparr> in
        case index_begin by_lib_block_num (index db1) of
          None \<Rightarrow> Inl Undefined_behaviour
        | Some candidate \<Rightarrow>
            Inr (if validated candidate then db1\<lparr>head := Some candidate\<rparr> else db1)))))))"

definition add :: "block_state option \<Rightarrow> bool \<Rightarrow> fork_database \<Rightarrow> fork_database res" where
  "add n ignore_duplicate db = add_impl (\<lambda>_ _ _. Inr ()) n ignore_duplicate False db"

text \<open>\<open>lower_bound(false)\<close> in the preference index: the first block that is not validated.\<close>

definition first_unvalidated :: "fork_database \<Rightarrow> block_state option" where
  "first_unvalidated db = index_begin by_lib_block_num (filter (\<lambda>b. \<not> validated b) (index db))"

definition pending_head :: "fork_database \<Rightarrow> (block_state option) res" where
  "pending_head db =
     (case first_unvalidated db of
        None \<Rightarrow> Inr (head db)
      | Some b \<Rightarrow>
          (case head db of
             None \<Rightarrow> Inl Undefined_behaviour
           | Some h \<Rightarrow> Inr (if first_preferred b h then Some b else head db)))"

definition mark_valid :: "block_state \<Rightarrow> fork_database \<Rightarrow> fork_database res" where
  "mark_valid h db =
     (if validated h then Inr db
      else eos_assert (get_block db (state_id h) \<noteq> None) Fork_database_exception
        (let db1 = db\<lparr>index := map (\<lambda>b. if state_id b = state_id h then b\<lparr>validated := True\<rparr> else b)
                                 (index db)\<rparr>
         in case (index_begin by_lib_block_num (index db1), head db1) of
              (Some candidate, Some cur_head) \<Rightarrow>
                Inr (if first_preferred candidate cur_head then db1\<lparr>head := Some candidate\<rparr> else db1)
            | _ \<Rightarrow> Inl Undefined_behaviour))"

text \<open>
  \<open>remove\<close>: the queue of blocks to remove grows by the blocks built on the one visited, found
  through the index by previous id; then every queued block that is present is erased.
\<close>

definition built_on :: "fork_database \<Rightarrow> block_id \<Rightarrow> block_id list" where
  "built_on db i = map state_id (filter (\<lambda>b. prev_id b = i) (index db))"

partial_function (option) remove_loop ::
  "fork_database \<Rightarrow> block_id \<Rightarrow> nat \<Rightarrow> block_id list \<Rightarrow> ((block_id list) res) option" where
  "remove_loop db head_id i remove_queue =
     (if i < length remove_queue then
        (if remove_queue ! i = head_id then Some (Inl Fork_database_exception)
         else remove_loop db head_id (Suc i) (remove_queue @ built_on db (remove_queue ! i)))
      else Some (Inr remove_queue))"

definition remove :: "block_id \<Rightarrow> fork_database \<Rightarrow> (fork_database res) option" where
  "remove i db =
     (case head db of
        None \<Rightarrow> Some (Inl Undefined_behaviour)
      | Some h \<Rightarrow>
          map_option (\<lambda>r. ebind r (\<lambda>queue.
              Inr (db\<lparr>index := filter (\<lambda>b. state_id b \<notin> set queue) (index db)\<rparr>)))
            (remove_loop db (state_id h) 0 [i]))"

text \<open>
  \<open>advance_root\<close>: the ids of the blocks below the new root, one by one; the new root is erased
  alone, then each of the others with what is built on it. The C++ index is changed in place, so
  a removal that throws (because the head is among the blocks to go) leaves the new root and the
  blocks removed before out of the index, with the old root in place. The model returns the
  exception without that state.
\<close>

partial_function (option) blocks_to_remove_loop ::
  "fork_database \<Rightarrow> block_id \<Rightarrow> block_state option \<Rightarrow> block_id list \<Rightarrow> ((block_id list) res) option" where
  "blocks_to_remove_loop db root_id b blocks_to_remove =
     (case b of
        None \<Rightarrow> Some (Inr blocks_to_remove)
      | Some b \<Rightarrow>
          (let next_b = get_block db (prev_id b) in
           if next_b \<noteq> None \<or> prev_id b = root_id
           then blocks_to_remove_loop db root_id next_b (blocks_to_remove @ [prev_id b])
           else Some (Inl Fork_database_exception)))"

fun remove_all :: "block_id list \<Rightarrow> fork_database \<Rightarrow> (fork_database res) option" where
  "remove_all [] db = Some (Inr db)"
| "remove_all (i # is) db =
     (case remove i db of
        None \<Rightarrow> None
      | Some (Inl e) \<Rightarrow> Some (Inl e)
      | Some (Inr db1) \<Rightarrow> remove_all is db1)"

definition advance_root :: "block_id \<Rightarrow> fork_database \<Rightarrow> (fork_database res) option" where
  "advance_root i db =
     (case (root db, get_block db i) of
        (None, _) \<Rightarrow> Some (Inl Fork_database_exception)
      | (_, None) \<Rightarrow> Some (Inl Fork_database_exception)
      | (Some r, Some new_root) \<Rightarrow>
          if \<not> validated new_root then Some (Inl Fork_database_exception)
          else
            (case blocks_to_remove_loop db (state_id r) (Some new_root) [] of
               None \<Rightarrow> None
             | Some (Inl e) \<Rightarrow> Some (Inl e)
             | Some (Inr to_remove) \<Rightarrow>
                 map_option (\<lambda>res. ebind res (\<lambda>db2. Inr (db2\<lparr>root := Some new_root\<rparr>)))
                   (remove_all to_remove
                     (db\<lparr>index := filter (\<lambda>b. state_id b \<noteq> i) (index db)\<rparr>))))"

section \<open>Branches\<close>

partial_function (option) fetch_branch_loop ::
  "fork_database \<Rightarrow> u32 \<Rightarrow> block_state option \<Rightarrow> block_state list \<Rightarrow> (block_state list) option" where
  "fetch_branch_loop db trim_after_block_num s result =
     (case s of
        None \<Rightarrow> Some result
      | Some b \<Rightarrow>
          fetch_branch_loop db trim_after_block_num (get_block db (prev_id b))
            (if block_num b \<le> trim_after_block_num then result @ [b] else result))"

definition fetch_branch :: "fork_database \<Rightarrow> block_id \<Rightarrow> u32 \<Rightarrow> (block_state list) option" where
  "fetch_branch db h trim_after_block_num =
     fetch_branch_loop db trim_after_block_num (get_block db h) []"

partial_function (option) search_loop ::
  "fork_database \<Rightarrow> u32 \<Rightarrow> block_state option \<Rightarrow> (block_state option) option" where
  "search_loop db num s =
     (case s of
        None \<Rightarrow> Some None
      | Some b \<Rightarrow> if block_num b = num then Some (Some b) else search_loop db num (get_block db (prev_id b)))"

definition search_on_branch :: "fork_database \<Rightarrow> block_id \<Rightarrow> u32 \<Rightarrow> (block_state option) option" where
  "search_on_branch db h num = search_loop db num (get_block db h)"

text \<open>The ternary of \<open>fetch_branch_from\<close>: the root, or a block of the index.\<close>

definition root_or_block :: "fork_database \<Rightarrow> block_state \<Rightarrow> block_id \<Rightarrow> block_state option" where
  "root_or_block db r i = (if i = state_id r then Some r else get_block db i)"

text \<open>The first and the second loop: the branch whose top is higher goes down to the other.\<close>

partial_function (option) lower_loop ::
  "fork_database \<Rightarrow> block_state \<Rightarrow> u32 \<Rightarrow> block_state \<Rightarrow> block_state list \<Rightarrow>
     ((block_state \<times> block_state list) res) option" where
  "lower_loop db r num b result =
     (if block_num b > num then
        (case root_or_block db r (prev_id b) of
           None \<Rightarrow> Some (Inl Fork_db_block_not_found)
         | Some b' \<Rightarrow> lower_loop db r num b' (result @ [b]))
      else Some (Inr (b, result)))"

text \<open>The third loop: both branches go down together until they have the same previous block.\<close>

partial_function (option) common_loop ::
  "fork_database \<Rightarrow> block_state \<Rightarrow> block_state \<Rightarrow> block_state list \<Rightarrow> block_state list \<Rightarrow>
     ((block_state list \<times> block_state list) res) option" where
  "common_loop db a b as bs =
     (if prev_id a \<noteq> prev_id b then
        (case get_block db (prev_id a) of
           None \<Rightarrow> Some (Inl Fork_db_block_not_found)
         | Some a' \<Rightarrow>
             (case get_block db (prev_id b) of
                None \<Rightarrow> Some (Inl Fork_db_block_not_found)
              | Some b' \<Rightarrow> common_loop db a' b' (as @ [a]) (bs @ [b])))
      else Some (Inr (as @ [a], bs @ [b])))"

definition fetch_branch_from ::
  "fork_database \<Rightarrow> block_id \<Rightarrow> block_id \<Rightarrow> ((block_state list \<times> block_state list) res) option" where
  "fetch_branch_from db first second =
     (case root db of
        None \<Rightarrow> Some (Inl Undefined_behaviour)
      | Some r \<Rightarrow>
          (case (root_or_block db r first, root_or_block db r second) of
             (Some a0, Some b0) \<Rightarrow>
               (case lower_loop db r (block_num b0) a0 [] of
                  None \<Rightarrow> None
                | Some (Inl e) \<Rightarrow> Some (Inl e)
                | Some (Inr (a, as)) \<Rightarrow>
                    (case lower_loop db r (block_num a) b0 [] of
                       None \<Rightarrow> None
                     | Some (Inl e) \<Rightarrow> Some (Inl e)
                     | Some (Inr (b, bs)) \<Rightarrow>
                         if state_id a = state_id b then Some (Inr (as, bs))
                         else common_loop db a b as bs))
           | _ \<Rightarrow> Some (Inl Fork_db_block_not_found)))"

end
