(* ===== verification/Fork_Choice.thy ===== *)
theory Fork_Choice
  imports Fork_Database Finality "HOL-Library.Product_Lexorder"
begin

text \<open>
  Properties of the fork database: its blocks form a tree above the root in every state the
  operations lead to, the head is the best validated block, removal and root advancement keep
  exactly the blocks they should, and the branches that are returned are the paths of the tree.
\<close>

section \<open>The orders on blocks\<close>

interpretation lib_order: strict_weak_order by_lib_block_num
  by (rule strict_weak_order_key [where key = "\<lambda>b. (\<not> validated b,
        - int (dpos_irreversible_blocknum b), - int (block_num b), state_id b)"])
    (auto simp: by_lib_block_num_def less_sha256_def)

interpretation preference: strict_weak_order "first_preferred :: block_state \<Rightarrow> block_state \<Rightarrow> bool"
  by (rule strict_weak_order_key [where key = "\<lambda>b. (- int (dpos_irreversible_blocknum b), - int (block_num b))"])
    (auto simp: first_preferred_def)

lemma by_lib_begin:
  assumes "index_begin by_lib_block_num bs = Some c" and "b \<in> set bs"
  shows "validated b \<Longrightarrow> validated c" and "validated b = validated c \<Longrightarrow> \<not> first_preferred b c"
  using lib_order.index_begin_least [OF assms] by (auto simp: by_lib_block_num_def first_preferred_def)

section \<open>Lookups and descendants\<close>

definition block_ids :: "fork_database \<Rightarrow> block_id set" where
  "block_ids db = state_id ` set (index db)"

text \<open>Ids are unique and links go up in block number: what every lookup and loop relies on.\<close>

definition forest :: "fork_database \<Rightarrow> bool" where
  "forest db \<longleftrightarrow> distinct (map state_id (index db)) \<and>
     (\<forall>b \<in> set (index db). \<forall>p \<in> set (index db). prev_id b = state_id p \<longrightarrow> block_num p < block_num b)"

lemma get_block_SomeD: "get_block db i = Some b \<Longrightarrow> b \<in> set (index db) \<and> state_id b = i"
  by (auto simp: get_block_def find_Some_iff)

lemma get_block_None: "get_block db i = None \<longleftrightarrow> i \<notin> block_ids db"
  by (auto simp: get_block_def find_None_iff block_ids_def)

lemma get_block_of: "distinct (map state_id (index db)) \<Longrightarrow> b \<in> set (index db) \<Longrightarrow> get_block db (state_id b) = Some b"
proof -
  assume d: "distinct (map state_id (index db))" and b: "b \<in> set (index db)"
  from b obtain c where c: "get_block db (state_id b) = Some c"
    by (cases "get_block db (state_id b)") (auto simp: get_block_None block_ids_def)
  with d b get_block_SomeD [OF c] show ?thesis by (metis distinct_map inj_onD)
qed

definition child :: "fork_database \<Rightarrow> block_id \<Rightarrow> block_id \<Rightarrow> bool" where
  "child db p i \<longleftrightarrow> (\<exists>b \<in> set (index db). prev_id b = p \<and> state_id b = i)"

abbreviation descends :: "fork_database \<Rightarrow> block_id \<Rightarrow> block_id \<Rightarrow> bool" where
  "descends db \<equiv> (child db)\<^sup>*\<^sup>*"

lemma child_of: "b \<in> set (index db) \<Longrightarrow> child db (prev_id b) (state_id b)"
  by (auto simp: child_def)

lemma set_built_on: "set (built_on db i) = {j. child db i j}"
  by (auto simp: built_on_def child_def)

lemma distinct_built_on: "forest db \<Longrightarrow> distinct (built_on db i)"
  by (auto simp: forest_def built_on_def distinct_map_filter)

lemma child_ids: "child db p i \<Longrightarrow> i \<in> block_ids db"
  by (auto simp: child_def block_ids_def)

lemma descends_ids: "descends db p i \<Longrightarrow> i = p \<or> i \<in> block_ids db"
  by (induction rule: rtranclp_induct) (auto dest: child_ids)

lemma child_parent_unique: "forest db \<Longrightarrow> child db p i \<Longrightarrow> child db q i \<Longrightarrow> p = q"
  by (auto simp: child_def forest_def distinct_map dest: inj_onD)

definition num_of_id :: "fork_database \<Rightarrow> block_id \<Rightarrow> nat" where
  "num_of_id db i = (case get_block db i of Some b \<Rightarrow> block_num b | None \<Rightarrow> 0)"

lemma child_num: "forest db \<Longrightarrow> child db p i \<Longrightarrow> p \<in> block_ids db \<Longrightarrow> num_of_id db p < num_of_id db i"
proof -
  assume f: "forest db" and "child db p i" and "p \<in> block_ids db"
  then obtain b c where "b \<in> set (index db)" "state_id b = i" "c \<in> set (index db)" "state_id c = p" "prev_id b = p"
    by (auto simp: child_def block_ids_def)
  with f show ?thesis
    using get_block_of [of db b] get_block_of [of db c] by (auto simp: forest_def num_of_id_def)
qed

lemma descends_num:
  "descends db p i \<Longrightarrow> forest db \<Longrightarrow> p \<in> block_ids db \<Longrightarrow> num_of_id db p \<le> num_of_id db i"
proof (induction rule: rtranclp_induct)
  case (step j k)
  then have "j \<in> block_ids db" using descends_ids [of db p j] by auto
  with step child_num [of db j k] show ?case by simp
qed simp

lemma no_cycle: "forest db \<Longrightarrow> descends db i j \<Longrightarrow> \<not> child db j i"
proof
  assume f: "forest db" and d: "descends db i j" and c: "child db j i"
  then have i: "i \<in> block_ids db" by (auto dest: child_ids)
  with d have "j \<in> block_ids db" using descends_ids by metis
  with child_num [OF f c] descends_num [OF d f i] show False by simp
qed

section \<open>Removal\<close>

text \<open>
  The loop invariant of \<open>remove\<close>: the queue holds, without repetition, the start and the
  children of the entries already visited, none of which is the head.
\<close>

definition queue_inv :: "fork_database \<Rightarrow> block_id \<Rightarrow> block_id \<Rightarrow> nat \<Rightarrow> block_id list \<Rightarrow> bool" where
  "queue_inv db head_id i k q \<longleftrightarrow>
     k \<le> length q \<and> distinct q \<and> (\<forall>x \<in> set q. descends db i x) \<and>
     set q = insert i {y. \<exists>x \<in> set (take k q). child db x y} \<and> head_id \<notin> set (take k q)"

lemma queue_inv_step:
  assumes f: "forest db" and inv: "queue_inv db head_id i k q" and k: "k < length q" and h: "q ! k \<noteq> head_id"
  shows "queue_inv db head_id i (Suc k) (q @ built_on db (q ! k))"
proof -
  from inv have dist: "distinct q" and desc: "\<And>x. x \<in> set q \<Longrightarrow> descends db i x"
    and closed: "\<And>y. y \<in> set q \<longleftrightarrow> y = i \<or> (\<exists>x \<in> set (take k q). child db x y)"
    and nohead: "head_id \<notin> set (take k q)"
    unfolding queue_inv_def by blast+
  have qk: "descends db i (q ! k)" using desc k by simp
  have fresh: "q ! k \<notin> set (take k q)"
    using dist k by (metis distinct_take in_set_conv_nth take_Suc_conv_app_nth not_distinct_conv_prefix)
  have take: "take (Suc k) (q @ built_on db (q ! k)) = take k q @ [q ! k]"
    using k by (simp add: take_Suc_conv_app_nth)
  have "set q \<inter> set (built_on db (q ! k)) = {}"
  proof (rule ccontr)
    assume "set q \<inter> set (built_on db (q ! k)) \<noteq> {}"
    then obtain y where y: "y \<in> set q" "child db (q ! k) y" by (auto simp: set_built_on)
    from y(1) closed consider "y = i" | x where "x \<in> set (take k q)" "child db x y" by blast
    then show False
    proof cases
      case 1
      with no_cycle [OF f qk] y show False by simp
    next
      case 2
      then have "x = q ! k" using child_parent_unique [OF f] y by blast
      with 2 fresh show False by simp
    qed
  qed
  moreover have "set (q @ built_on db (q ! k)) = insert i {y. \<exists>x \<in> set (take k q @ [q ! k]). child db x y}"
    using closed by (auto simp: set_built_on)
  moreover have "\<forall>x \<in> set (q @ built_on db (q ! k)). descends db i x"
    using desc qk by (auto simp: set_built_on intro: rtranclp.rtrancl_into_rtrancl)
  ultimately show ?thesis
    unfolding queue_inv_def take using k h dist nohead distinct_built_on [OF f] by simp
qed

lemma queue_bound:
  assumes "queue_inv db head_id i k q"
  shows "length q \<le> Suc (length (index db))"
proof -
  have "set q \<subseteq> insert i (block_ids db)"
    using assms descends_ids unfolding queue_inv_def by blast
  then have "card (set q) \<le> card (insert i (block_ids db))"
    by (intro card_mono) (auto simp: block_ids_def)
  also have "\<dots> \<le> Suc (card (block_ids db))" by (simp add: card_insert_le_m1 card_insert_if block_ids_def)
  also have "card (block_ids db) \<le> length (index db)"
    unfolding block_ids_def by (metis card_image_le card_length finite_set le_trans)
  finally have "card (set q) \<le> Suc (length (index db))" by simp
  moreover have "distinct q" using assms unfolding queue_inv_def by blast
  ultimately show ?thesis by (simp add: distinct_card)
qed

lemma remove_loop_result:
  assumes f: "forest db"
  shows "queue_inv db head_id i k q \<Longrightarrow>
    remove_loop db head_id k q = Some (Inl Fork_database_exception) \<and> descends db i head_id \<or>
    (\<exists>q'. remove_loop db head_id k q = Some (Inr q') \<and> queue_inv db head_id i (length q') q')"
proof (induction "Suc (length (index db)) - k" arbitrary: k q rule: less_induct)
  case less
  show ?case
  proof (cases "k < length q")
    case True
    show ?thesis
    proof (cases "q ! k = head_id")
      case True
      with less.prems \<open>k < length q\<close> have "descends db i head_id" by (auto simp: queue_inv_def)
      with True \<open>k < length q\<close> show ?thesis by (subst remove_loop.simps) simp
    next
      case False
      note step = queue_inv_step [OF f less.prems \<open>k < length q\<close> False]
      have "Suc (length (index db)) - Suc k < Suc (length (index db)) - k"
        using queue_bound [OF less.prems] \<open>k < length q\<close> by simp
      from less.hyps [OF this step] False \<open>k < length q\<close> show ?thesis
        by (subst (1 2) remove_loop.simps) simp
    qed
  next
    case False
    with less.prems have "k = length q" by (simp add: queue_inv_def)
    with less.prems show ?thesis by (subst (2) remove_loop.simps) simp
  qed
qed

lemma queue_inv_final: "queue_inv db head_id i (length q) q \<Longrightarrow> set q = {x. descends db i x}"
proof -
  assume inv: "queue_inv db head_id i (length q) q"
  have "x \<in> set q" if "descends db i x" for x
    using that
  proof (induction rule: rtranclp_induct)
    case base
    with inv show ?case unfolding queue_inv_def by blast
  next
    case (step y z)
    with inv show ?case unfolding queue_inv_def take_all_iff [THEN iffD2, OF order_refl] by blast
  qed
  with inv show ?thesis unfolding queue_inv_def by blast
qed

lemma remove_eq:
  assumes f: "forest db" and h: "head db = Some h"
  shows "remove i db = Some
    (if descends db i (state_id h) then Inl Fork_database_exception
     else Inr (db\<lparr>index := filter (\<lambda>b. \<not> descends db i (state_id b)) (index db)\<rparr>))"
proof -
  have "queue_inv db (state_id h) i 0 [i]" by (simp add: queue_inv_def)
  from remove_loop_result [OF f this] show ?thesis
  proof (elim disjE exE conjE)
    fix q
    assume run: "remove_loop db (state_id h) 0 [i] = Some (Inr q)" and inv: "queue_inv db (state_id h) i (length q) q"
    have "set q = {x. descends db i x}" using queue_inv_final [OF inv] .
    moreover have "state_id h \<notin> set q" using inv by (simp add: queue_inv_def)
    ultimately show ?thesis using h run by (simp add: remove_def)
  qed (use h in \<open>simp add: remove_def\<close>)
qed

section \<open>The invariant\<close>

text \<open>
  The blocks form a tree above the root: ids are unique and differ from the root's, every block
  extends the root or a block of the index by one number, and its id carries its number
  (\<open>num_from_id\<close>). The head is the root or a validated block, and no validated block is
  preferred to it.
\<close>

definition tree_above :: "(block_id \<Rightarrow> u32) \<Rightarrow> fork_database \<Rightarrow> block_state \<Rightarrow> bool" where
  "tree_above num db r \<longleftrightarrow>
     distinct (map state_id (index db)) \<and> num (state_id r) = block_num r \<and>
     (\<forall>b \<in> set (index db). num (state_id b) = block_num b \<and> block_num r < block_num b \<and>
        (\<exists>p. root_or_block db r (prev_id b) = Some p \<and> block_num b = block_num p + 1))"

definition head_ok :: "fork_database \<Rightarrow> block_state \<Rightarrow> block_state \<Rightarrow> bool" where
  "head_ok db r h \<longleftrightarrow>
     (h = r \<or> h \<in> set (index db) \<and> validated h) \<and>
     (\<forall>b \<in> set (index db). validated b \<longrightarrow> \<not> first_preferred b h)"

definition fork_inv :: "(block_id \<Rightarrow> u32) \<Rightarrow> fork_database \<Rightarrow> bool" where
  "fork_inv num db \<longleftrightarrow>
     (\<exists>r h. root db = Some r \<and> head db = Some h \<and> tree_above num db r \<and> head_ok db r h)"

lemma fork_invE:
  assumes "fork_inv num db"
  obtains r h where "root db = Some r" "head db = Some h" "tree_above num db r" "head_ok db r h"
  using assms by (auto simp: fork_inv_def)

lemma tree_root_id: "tree_above num db r \<Longrightarrow> state_id r \<notin> block_ids db"
  by (fastforce simp: tree_above_def block_ids_def)

lemma tree_num: "tree_above num db r \<Longrightarrow> p = r \<or> p \<in> set (index db) \<Longrightarrow> num (state_id p) = block_num p"
  by (auto simp: tree_above_def)

lemma root_or_block_SomeD:
  "root_or_block db r i = Some p \<Longrightarrow> state_id p = i \<and> (p = r \<or> p \<in> set (index db))"
  by (auto simp: root_or_block_def dest: get_block_SomeD split: if_splits)

lemma root_or_block_of:
  "tree_above num db r \<Longrightarrow> b \<in> set (index db) \<Longrightarrow> root_or_block db r (state_id b) = Some b"
  using tree_root_id [of num db r] get_block_of [of db b]
  by (auto simp: root_or_block_def tree_above_def block_ids_def)

lemma tree_forest: "tree_above num db r \<Longrightarrow> forest db"
  unfolding forest_def
proof (intro conjI ballI impI)
  assume t: "tree_above num db r"
  then show "distinct (map state_id (index db))" by (simp add: tree_above_def)
  fix b p
  assume b: "b \<in> set (index db)" and p: "p \<in> set (index db)" and link: "prev_id b = state_id p"
  from t b obtain q where "root_or_block db r (prev_id b) = Some q" "block_num b = block_num q + 1"
    by (auto simp: tree_above_def)
  with root_or_block_of [OF t p] link show "block_num p < block_num b" by simp
qed

text \<open>A restriction of the index that is closed under parents below the root keeps the tree.\<close>

lemma tree_above_restrict:
  assumes t: "tree_above num db r" and idx: "index db' = filter P (index db)"
    and closed: "\<And>b p. b \<in> set (index db) \<Longrightarrow> P b \<Longrightarrow> p \<in> set (index db) \<Longrightarrow> prev_id b = state_id p \<Longrightarrow> P p"
  shows "tree_above num db' r"
proof -
  have dist: "distinct (map state_id (index db'))"
    using t idx by (auto simp: tree_above_def distinct_map_filter)
  have "\<exists>p. root_or_block db' r (prev_id b) = Some p \<and> block_num b = block_num p + 1"
    if b: "b \<in> set (index db')" for b
  proof -
    from b idx have b': "b \<in> set (index db)" "P b" by auto
    with t obtain p where p: "root_or_block db r (prev_id b) = Some p" "block_num b = block_num p + 1"
      by (auto simp: tree_above_def)
    have "root_or_block db' r (prev_id b) = Some p"
    proof (cases "prev_id b = state_id r")
      case False
      with p(1) have g: "get_block db (prev_id b) = Some p" by (simp add: root_or_block_def)
      with closed [OF b'] have "p \<in> set (index db')" "state_id p = prev_id b"
        using get_block_SomeD [OF g] idx by auto
      with get_block_of [OF dist] False show ?thesis by (metis root_or_block_def)
    qed (use p(1) in \<open>simp add: root_or_block_def\<close>)
    with p(2) show ?thesis by blast
  qed
  with t idx dist show ?thesis by (auto simp: tree_above_def)
qed

lemma reset_inv:
  assumes "num (state_id s) = block_num s"
  shows "fork_inv num (reset s db)"
  using assms
  by (simp add: fork_inv_def reset_def Let_def tree_above_def head_ok_def block_header_state.defs)

lemma find_map_list: "find P (map f xs) = map_option f (find (\<lambda>x. P (f x)) xs)"
  by (induction xs) auto

lemma find_append_list: "find P (xs @ ys) = (case find P xs of None \<Rightarrow> find P ys | Some x \<Rightarrow> Some x)"
  by (induction xs) auto

text \<open>Changing flags of blocks only keeps the tree.\<close>

lemma tree_above_map:
  assumes t: "tree_above num db r" and idx: "index db' = map f (index db)"
    and f: "\<And>b. state_id (f b) = state_id b \<and> block_num (f b) = block_num b \<and> prev_id (f b) = prev_id b"
  shows "tree_above num db' r"
  unfolding tree_above_def
proof (intro conjI ballI)
  have look: "get_block db' i = map_option f (get_block db i)" for i
    by (simp add: get_block_def idx find_map_list f)
  show "distinct (map state_id (index db'))" using t by (simp add: tree_above_def idx comp_def f)
  show "num (state_id r) = block_num r" using t by (simp add: tree_above_def)
  fix b
  assume "b \<in> set (index db')"
  then obtain c where c: "c \<in> set (index db)" "b = f c" by (auto simp: idx)
  with t f show "num (state_id b) = block_num b" "block_num r < block_num b" by (auto simp: tree_above_def)
  from t c obtain p where p: "root_or_block db r (prev_id c) = Some p" "block_num c = block_num p + 1"
    by (auto simp: tree_above_def)
  show "\<exists>p. root_or_block db' r (prev_id b) = Some p \<and> block_num b = block_num p + 1"
    using p c f by (auto simp: root_or_block_def look split: if_splits)
qed

lemma rollback_inv:
  assumes "fork_inv num db"
  shows "fork_inv num (rollback_head_to_root db)"
proof -
  from assms obtain r h where r: "root db = Some r" and t: "tree_above num db r" by (rule fork_invE)
  have "tree_above num (rollback_head_to_root db) r"
    by (rule tree_above_map [OF t, where f = "\<lambda>b. b\<lparr>validated := False\<rparr>"])
      (simp_all add: rollback_head_to_root_def)
  moreover have "head_ok (rollback_head_to_root db) r r"
    by (auto simp: head_ok_def rollback_head_to_root_def)
  ultimately show ?thesis using r by (simp add: fork_inv_def rollback_head_to_root_def)
qed

lemma mark_valid_inv:
  assumes inv: "fork_inv num db" and run: "mark_valid b db = Inr db'"
  shows "fork_inv num db'"
proof (cases "validated b")
  case True
  with run inv show ?thesis by (simp add: mark_valid_def)
next
  case False
  from inv obtain r h where rh: "root db = Some r" "head db = Some h" and t: "tree_above num db r"
    and ok: "head_ok db r h" by (rule fork_invE)
  define f where "f c = (if state_id c = state_id b then c\<lparr>validated := True\<rparr> else c)" for c :: block_state
  define db1 where "db1 = db\<lparr>index := map f (index db)\<rparr>"
  have t1: "tree_above num db1 r"
    by (rule tree_above_map [OF t, where f = f]) (simp_all add: db1_def f_def)
  from False run have present: "get_block db (state_id b) \<noteq> None"
    by (auto simp: mark_valid_def res_simps)
  from False run rh obtain c where c: "index_begin by_lib_block_num (index db1) = Some c"
    and db': "db' = (if first_preferred c h then db1\<lparr>head := Some c\<rparr> else db1)"
    by (auto simp: mark_valid_def res_simps Let_def db1_def f_def [abs_def] split: option.splits)
  have "c \<in> set (index db1)" using c by (rule index_begin_in)
  obtain d where "d \<in> set (index db)" "state_id d = state_id b"
    using present by (auto dest: get_block_SomeD)
  then have "f d \<in> set (index db1)" "validated (f d)" by (auto simp: db1_def f_def)
  with by_lib_begin(1) [OF c] have valid: "validated c" by blast
  have best: "\<not> first_preferred x c" if "x \<in> set (index db1)" "validated x" for x
    using by_lib_begin(2) [OF c that(1)] that(2) valid by simp
  have "h = r \<or> h \<in> set (index db1) \<and> validated h"
    using ok by (auto simp: head_ok_def db1_def f_def image_iff intro!: bexI [of _ h])
  then have "head_ok db1 r (if first_preferred c h then c else h)"
    using best valid \<open>c \<in> set (index db1)\<close> preference.lt_negtrans [of _ h c]
    by (auto simp: head_ok_def)
  with t1 rh db' show ?thesis
    by (auto simp: fork_inv_def db1_def tree_above_def head_ok_def root_or_block_def get_block_def)
qed

lemma remove_inv:
  assumes inv: "fork_inv num db" and run: "remove i db = Some (Inr db')"
  shows "fork_inv num db'"
proof -
  from inv obtain r h where rh: "root db = Some r" "head db = Some h" and t: "tree_above num db r"
    and ok: "head_ok db r h" by (rule fork_invE)
  from remove_eq [OF tree_forest [OF t] rh(2), of i] run
  have stay: "\<not> descends db i (state_id h)"
    and db': "db' = db\<lparr>index := filter (\<lambda>b. \<not> descends db i (state_id b)) (index db)\<rparr>"
    by (auto split: if_splits)
  have "tree_above num db' r"
    by (rule tree_above_restrict [OF t, where P = "\<lambda>b. \<not> descends db i (state_id b)"])
      (auto simp: db' dest!: child_of intro: rtranclp.rtrancl_into_rtrancl)
  moreover have "head_ok db' r h" using ok stay by (auto simp: head_ok_def db')
  ultimately show ?thesis using rh by (simp add: fork_inv_def db')
qed

lemma get_block_header_eq: "root db = Some r \<Longrightarrow> get_block_header db i = Inr (root_or_block db r i)"
  by (auto simp: get_block_header_def root_or_block_def)

text \<open>
  A block that may be added continues the block it names as previous, by one number, and its id
  carries its number. Block states built by the constructors of \<open>block_state.cpp\<close> do.
\<close>

definition continues :: "(block_id \<Rightarrow> u32) \<Rightarrow> fork_database \<Rightarrow> block_state \<Rightarrow> bool" where
  "continues num db n \<longleftrightarrow>
     num (state_id n) = block_num n \<and>
     (\<forall>p. get_block_header db (prev_id n) = Inr (Some p) \<longrightarrow> block_num n = block_num p + 1)"

lemma add_impl_new:
  assumes "add_impl v (Some n) ignore validate db = Inr db'" and "db' \<noteq> db" and "root db = Some r"
  obtains p c where "root_or_block db r (prev_id n) = Some p" "state_id n \<notin> block_ids db"
    "index_begin by_lib_block_num (index db @ [n]) = Some c"
    "db' = (if validated c then db\<lparr>index := index db @ [n], head := Some c\<rparr> else db\<lparr>index := index db @ [n]\<rparr>)"
proof -
  from assms(1,3) obtain p where p: "root_or_block db r (prev_id n) = Some p"
    and rest: "(if get_block db (state_id n) \<noteq> None
       then (if ignore then Inr db else Inl Fork_database_exception)
       else (let db1 = db\<lparr>index := index db @ [n]\<rparr> in
          case index_begin by_lib_block_num (index db1) of
            None \<Rightarrow> Inl Undefined_behaviour
          | Some candidate \<Rightarrow>
              Inr (if validated candidate then db1\<lparr>head := Some candidate\<rparr> else db1))) = Inr db'"
    unfolding add_impl_def eos_assert_Inr ebind_Inr from_some_Inr get_block_header_eq [OF assms(3)] by blast
  obtain c where c: "index_begin by_lib_block_num (index db @ [n]) = Some c"
    by (cases "index_begin by_lib_block_num (index db @ [n])") auto
  with rest assms(2) show thesis
    by (intro that [OF p _ c]) (auto simp: Let_def get_block_None split: if_splits)
qed

lemma add_inv:
  assumes inv: "fork_inv num db" and run: "add_impl v (Some n) ignore validate db = Inr db'"
    and cont: "continues num db n"
  shows "fork_inv num db'"
proof (cases "db' = db")
  case False
  from inv obtain r h where rh: "root db = Some r" "head db = Some h" and t: "tree_above num db r"
    and ok: "head_ok db r h" by (rule fork_invE)
  from run False rh(1) obtain p c where p: "root_or_block db r (prev_id n) = Some p"
    and new: "state_id n \<notin> block_ids db" and c: "index_begin by_lib_block_num (index db @ [n]) = Some c"
    and db': "db' = (if validated c then db\<lparr>index := index db @ [n], head := Some c\<rparr> else db\<lparr>index := index db @ [n]\<rparr>)"
    by (rule add_impl_new)
  have idx: "index db' = index db @ [n]" "root db' = Some r" using db' rh by auto
  have num_n: "block_num n = block_num p + 1" "num (state_id n) = block_num n"
    using cont p rh by (auto simp: continues_def get_block_header_eq)
  have "p = r \<or> p \<in> set (index db)" using root_or_block_SomeD [OF p] by simp
  with t num_n have above: "block_num r < block_num n" by (auto simp: tree_above_def)
  have keep: "root_or_block db' r i = Some q" if "root_or_block db r i = Some q" for i q
    using that by (auto simp: root_or_block_def get_block_def idx find_append_list split: if_splits)
  have "tree_above num db' r"
    using t new num_n above p keep
    unfolding tree_above_def idx by (fastforce simp: block_ids_def)
  moreover have "head_ok db' r (if validated c then c else h)"
  proof (cases "validated c")
    case True
    then show ?thesis
      using by_lib_begin(2) [OF c] index_begin_in [OF c] by (auto simp: head_ok_def idx)
  next
    case False
    then have "\<not> validated b" if "b \<in> set (index db @ [n])" for b
      using by_lib_begin(1) [OF c that] by blast
    with False ok show ?thesis by (auto simp: head_ok_def idx)
  qed
  ultimately show ?thesis using rh by (auto simp: fork_inv_def db' split: if_splits)
qed (use inv in simp)

section \<open>Advancing the root\<close>

text \<open>Removing all descendants of a block leaves the paths to the other blocks in place.\<close>

lemma child_mono: "set (index db1) \<subseteq> set (index db) \<Longrightarrow> child db1 x y \<Longrightarrow> child db x y"
  by (auto simp: child_def)

lemma descends_mono: "set (index db1) \<subseteq> set (index db) \<Longrightarrow> descends db1 x y \<Longrightarrow> descends db x y"
  by (metis child_mono mono_rtranclp)

lemma descends_after_remove:
  assumes "\<not> descends db x y"
  shows "descends (db\<lparr>index := filter (\<lambda>b. \<not> descends db x (state_id b)) (index db)\<rparr>) a y \<longleftrightarrow> descends db a y"
    (is "descends ?db1 a y \<longleftrightarrow> _")
proof
  show "descends ?db1 a y \<Longrightarrow> descends db a y" by (rule descends_mono) auto
  assume "descends db a y"
  then show "descends ?db1 a y"
    using assms
  proof (induction rule: rtranclp_induct)
    case (step z y)
    then have "\<not> descends db x z" by (metis rtranclp.rtrancl_into_rtrancl)
    with step have "descends ?db1 a z" by blast
    moreover have "child ?db1 z y"
    proof -
      from step.hyps(2) obtain b where b: "b \<in> set (index db)" "prev_id b = z" "state_id b = y"
        by (auto simp: child_def)
      with step.prems have "b \<in> set (index ?db1)" by simp
      with b show ?thesis using child_of [of b ?db1] by simp
    qed
    ultimately show ?case by (rule rtranclp.rtrancl_into_rtrancl)
  qed simp
qed

lemma forest_filter: "forest db \<Longrightarrow> forest (db\<lparr>index := filter P (index db)\<rparr>)"
  by (auto simp: forest_def distinct_map_filter)

lemma remove_all_eq:
  assumes "forest db" and "head db = Some h"
  shows "remove_all l db = Some
    (if \<exists>a \<in> set l. descends db a (state_id h) then Inl Fork_database_exception
     else Inr (db\<lparr>index := filter (\<lambda>b. \<forall>a \<in> set l. \<not> descends db a (state_id b)) (index db)\<rparr>))"
  using assms
proof (induction l arbitrary: db)
  case (Cons x l)
  let ?db1 = "db\<lparr>index := filter (\<lambda>b. \<not> descends db x (state_id b)) (index db)\<rparr>"
  show ?case
  proof (cases "descends db x (state_id h)")
    case True
    with remove_eq [OF Cons.prems, of x] show ?thesis by simp
  next
    case False
    have IH: "remove_all l ?db1 = Some
      (if \<exists>a \<in> set l. descends ?db1 a (state_id h) then Inl Fork_database_exception
       else Inr (?db1\<lparr>index := filter (\<lambda>b. \<forall>a \<in> set l. \<not> descends ?db1 a (state_id b)) (index ?db1)\<rparr>))"
      using Cons.prems by (intro Cons.IH forest_filter) simp_all
    have "filter (\<lambda>b. \<forall>a \<in> set l. \<not> descends ?db1 a (state_id b)) (index ?db1) =
        filter (\<lambda>b. \<forall>a \<in> set (x # l). \<not> descends db a (state_id b)) (index db)"
      by (auto simp: descends_after_remove intro!: filter_cong)
    with IH False remove_eq [OF Cons.prems, of x] show ?thesis
      by (simp add: descends_after_remove)
  qed
qed simp

text \<open>The ids below the new root, down to the root of the tree.\<close>

lemma blocks_to_remove_result:
  assumes t: "tree_above num db r"
  shows "b \<in> set (index db) \<Longrightarrow>
    \<exists>l. blocks_to_remove_loop db (state_id r) (Some b) acc = Some (Inr (acc @ l)) \<and>
      state_id r \<in> set l \<and>
      (\<forall>a \<in> set l. (a = state_id r \<or> a \<in> block_ids db) \<and> num a < block_num b)"
proof (induction "block_num b" arbitrary: b acc rule: less_induct)
  case less
  from t less.prems obtain p where p: "root_or_block db r (prev_id b) = Some p" "block_num b = block_num p + 1"
    by (auto simp: tree_above_def)
  note pid = root_or_block_SomeD [OF p(1)]
  show ?case
  proof (cases "prev_id b = state_id r")
    case True
    then have "get_block db (prev_id b) = None" using tree_root_id [OF t] by (simp add: get_block_None)
    moreover have "num (state_id r) < block_num b" using t less.prems by (simp add: tree_above_def)
    ultimately show ?thesis
      using True by (subst blocks_to_remove_loop.simps) (simp add: blocks_to_remove_loop.simps [of _ _ None])
  next
    case False
    with p(1) have g: "get_block db (prev_id b) = Some p" by (simp add: root_or_block_def)
    then have pin: "p \<in> set (index db)" using get_block_SomeD by blast
    obtain l where l: "blocks_to_remove_loop db (state_id r) (Some p) (acc @ [prev_id b]) = Some (Inr ((acc @ [prev_id b]) @ l))"
      "state_id r \<in> set l" "\<forall>a \<in> set l. (a = state_id r \<or> a \<in> block_ids db) \<and> num a < block_num p"
      using less.hyps [OF _ pin, of "acc @ [prev_id b]"] p(2) by auto
    moreover have "prev_id b \<in> block_ids db" "num (prev_id b) < block_num b"
      using pin pid tree_num [OF t, of p] p(2) by (auto simp: block_ids_def intro: rev_image_eqI)
    ultimately show ?thesis
      using g p(2) by (subst blocks_to_remove_loop.simps) (fastforce intro!: exI [of _ "prev_id b # l"])
  qed
qed

lemma descends_last:
  assumes "descends db i y" and "y \<noteq> i"
  obtains z where "descends db i z" "child db z y"
  using assms by (auto elim: rtranclp.cases)

text \<open>Without the new root, the old root reaches exactly the blocks outside its subtree.\<close>

lemma descends_outside:
  assumes t: "tree_above num db r" and nb: "nb \<in> set (index db)" and c: "y = state_id r \<or> y \<in> block_ids db"
  shows "descends (db\<lparr>index := filter (\<lambda>b. state_id b \<noteq> state_id nb) (index db)\<rparr>) (state_id r) y
    \<longleftrightarrow> \<not> descends db (state_id nb) y" (is "descends ?db0 _ _ \<longleftrightarrow> _")
proof
  assume "descends ?db0 (state_id r) y"
  then show "\<not> descends db (state_id nb) y"
  proof (induction rule: rtranclp_induct)
    case base
    then show ?case
      using descends_ids [of db "state_id nb" "state_id r"] tree_root_id [OF t] nb by (auto simp: block_ids_def)
  next
    case (step x y)
    then have xy: "child db x y" "y \<noteq> state_id nb" by (auto simp: child_def)
    show ?case
    proof
      assume "descends db (state_id nb) y"
      then obtain z where "descends db (state_id nb) z" "child db z y" using xy(2) by (rule descends_last)
      with xy(1) child_parent_unique [OF tree_forest [OF t]] step.IH show False by metis
    qed
  qed
next
  assume "\<not> descends db (state_id nb) y"
  with c show "descends ?db0 (state_id r) y"
  proof (induction "num y" arbitrary: y rule: less_induct)
    case less
    show ?case
    proof (cases "y = state_id r")
      case False
      with less.prems obtain b where b: "b \<in> set (index db)" "state_id b = y" by (auto simp: block_ids_def)
      from t b(1) obtain p where p: "root_or_block db r (prev_id b) = Some p" "block_num b = block_num p + 1"
        by (auto simp: tree_above_def)
      note pid = root_or_block_SomeD [OF p(1)]
      have step: "child db (state_id p) y" using child_of [OF b(1)] b(2) pid by simp
      have "\<not> descends db (state_id nb) (state_id p)"
        using less.prems(2) step by (metis rtranclp.rtrancl_into_rtrancl)
      moreover have "num (state_id p) < num y"
        using tree_num [OF t, of p] tree_num [OF t, of b] pid b p(2) by simp
      moreover have "state_id p = state_id r \<or> state_id p \<in> block_ids db"
        using pid unfolding block_ids_def by (metis imageI)
      ultimately have "descends ?db0 (state_id r) (state_id p)" using less.hyps by blast
      moreover have "child ?db0 (state_id p) y"
        using b less.prems(2) pid by (auto simp: child_def)
      ultimately show ?thesis by (rule rtranclp.rtrancl_into_rtrancl)
    qed simp
  qed
qed

lemma advance_root_eq:
  assumes r: "root db = Some r" and h: "head db = Some h" and t: "tree_above num db r"
    and hin: "h = r \<or> h \<in> set (index db)" and nb: "get_block db i = Some nb" "validated nb"
  shows "advance_root i db = Some
    (if descends db i (state_id h)
     then Inr (db\<lparr>index := filter (\<lambda>b. state_id b \<noteq> i \<and> descends db i (state_id b)) (index db), root := Some nb\<rparr>)
     else Inl Fork_database_exception)"
proof -
  from get_block_SomeD [OF nb(1)] have nbin: "nb \<in> set (index db)" and i: "state_id nb = i" by auto
  let ?db0 = "db\<lparr>index := filter (\<lambda>b. state_id b \<noteq> i) (index db)\<rparr>"
  obtain l where l: "blocks_to_remove_loop db (state_id r) (Some nb) [] = Some (Inr l)" "state_id r \<in> set l"
    and below: "\<And>a. a \<in> set l \<Longrightarrow> (a = state_id r \<or> a \<in> block_ids db) \<and> num a < block_num nb"
    using blocks_to_remove_result [OF t nbin, of "[]"] by auto
  have out: "descends ?db0 (state_id r) y \<longleftrightarrow> \<not> descends db i y" if "y = state_id r \<or> y \<in> block_ids db" for y
    using descends_outside [OF t nbin that] i by simp
  have reach: "descends ?db0 (state_id r) a" if "a \<in> set l" for a
  proof -
    have "\<not> descends db i a"
    proof
      assume d: "descends db i a"
      have "i \<in> block_ids db" using nbin i by (auto simp: block_ids_def)
      from descends_num [OF d tree_forest [OF t] this]
      have le: "num_of_id db i \<le> num_of_id db a" .
      show False
      proof (cases "a \<in> block_ids db")
        case True
        then obtain c where "c \<in> set (index db)" "state_id c = a" by (auto simp: block_ids_def)
        with le below [OF that] tree_num [OF t, of c] get_block_of [of db c] get_block_of [of db nb] nbin i t
        show False by (auto simp: num_of_id_def tree_above_def)
      next
        case False
        with d descends_ids [OF d] \<open>i \<in> block_ids db\<close> show False by blast
      qed
    qed
    with out below [OF that] show ?thesis by blast
  qed
  have any: "(\<exists>a \<in> set l. descends ?db0 a y) \<longleftrightarrow> descends ?db0 (state_id r) y" for y
    using l(2) reach by (meson rtranclp_trans)
  have keep: "(\<forall>a \<in> set l. \<not> descends ?db0 a (state_id b)) \<longleftrightarrow> descends db i (state_id b)"
    if "b \<in> set (index db)" for b
    using any [of "state_id b"] out [of "state_id b"] that by (auto simp: block_ids_def)
  have "(\<exists>a \<in> set l. descends ?db0 a (state_id h)) \<longleftrightarrow> \<not> descends db i (state_id h)"
    using any [of "state_id h"] out [of "state_id h"] hin by (auto simp: block_ids_def)
  moreover have "filter (\<lambda>b. \<forall>a \<in> set l. \<not> descends ?db0 a (state_id b)) (index ?db0) =
      filter (\<lambda>b. state_id b \<noteq> i \<and> descends db i (state_id b)) (index db)"
    using keep by (auto intro!: filter_cong)
  ultimately show ?thesis
    using r nb l(1) remove_all_eq [OF forest_filter [OF tree_forest [OF t]], of "\<lambda>b. state_id b \<noteq> i" h l] h
    by (simp add: advance_root_def)
qed

lemma advance_root_inv:
  assumes inv: "fork_inv num db" and run: "advance_root i db = Some (Inr db')"
  shows "fork_inv num db'"
proof -
  from inv obtain r h where rh: "root db = Some r" "head db = Some h" and t: "tree_above num db r"
    and ok: "head_ok db r h" by (rule fork_invE)
  from run rh obtain nb where nb: "get_block db i = Some nb" "validated nb"
    by (auto simp: advance_root_def split: option.splits if_splits)
  from get_block_SomeD [OF nb(1)] have nbin: "nb \<in> set (index db)" and i: "state_id nb = i" by auto
  have hin: "h = r \<or> h \<in> set (index db)" using ok by (auto simp: head_ok_def)
  from advance_root_eq [OF rh t hin nb] run
  have desc: "descends db i (state_id h)"
    and db': "db' = db\<lparr>index := filter (\<lambda>b. state_id b \<noteq> i \<and> descends db i (state_id b)) (index db), root := Some nb\<rparr>"
    by (auto split: if_splits)
  have dist: "distinct (map state_id (index db'))" using t by (auto simp: db' tree_above_def distinct_map_filter)
  have "\<exists>p. root_or_block db' nb (prev_id b) = Some p \<and> block_num b = block_num p + 1"
    and above: "block_num nb < block_num b" if b: "b \<in> set (index db')" for b
  proof -
    from b have b': "b \<in> set (index db)" "state_id b \<noteq> i" "descends db i (state_id b)" by (auto simp: db')
    from t b'(1) obtain p where p: "root_or_block db r (prev_id b) = Some p" "block_num b = block_num p + 1"
      by (auto simp: tree_above_def)
    from b'(3,2) obtain z where "descends db i z" "child db z (state_id b)" by (rule descends_last)
    then have par: "descends db i (prev_id b)"
      using child_parent_unique [OF tree_forest [OF t] _ child_of [OF b'(1)]] by blast
    have "i \<in> block_ids db" using nbin i by (auto simp: block_ids_def)
    with par have "prev_id b \<in> block_ids db" using descends_ids by metis
    with p(1) tree_root_id [OF t] have pin: "p \<in> set (index db)" "state_id p = prev_id b"
      by (auto simp: root_or_block_def dest: get_block_SomeD split: if_splits)
    show "block_num nb < block_num b"
      using descends_num [OF b'(3) tree_forest [OF t] \<open>i \<in> block_ids db\<close>] child_num
        descends_num [OF par tree_forest [OF t] \<open>i \<in> block_ids db\<close>] p(2) pin nbin i
        get_block_of [of db p] get_block_of [of db nb] t
      by (auto simp: num_of_id_def tree_above_def)
    show "\<exists>p. root_or_block db' nb (prev_id b) = Some p \<and> block_num b = block_num p + 1"
    proof (cases "prev_id b = i")
      case True
      with pin nbin i t have "p = nb" by (metis distinct_map inj_onD tree_above_def)
      with True p(2) i show ?thesis by (simp add: root_or_block_def)
    next
      case False
      with pin par have "p \<in> set (index db')" by (simp add: db')
      from get_block_of [OF dist this] pin False p(2) i show ?thesis by (auto simp: root_or_block_def)
    qed
  qed
  then have "tree_above num db' nb"
    using t dist nbin by (auto simp: tree_above_def db')
  moreover have "head_ok db' nb h"
  proof (cases "state_id h = i")
    case True
    have "h \<noteq> r" using True tree_root_id [OF t] nbin i unfolding block_ids_def by (metis imageI)
    with ok True nbin i t have "h = nb" by (auto simp: head_ok_def tree_above_def distinct_map dest: inj_onD)
    with ok show ?thesis by (auto simp: head_ok_def db')
  next
    case False
    have "h \<noteq> r" using desc False descends_ids [OF desc] tree_root_id [OF t] by auto
    with ok False desc show ?thesis by (auto simp: head_ok_def db')
  qed
  ultimately show ?thesis using rh by (simp add: fork_inv_def db')
qed

section \<open>Reachable fork databases\<close>

text \<open>
  The steps are the calls that return normally. Of the operations only \<open>advance_root\<close> can throw
  after it has changed the index; the states after such a throw are not covered.
\<close>

inductive fork_step :: "(block_id \<Rightarrow> u32) \<Rightarrow> fork_database \<Rightarrow> fork_database \<Rightarrow> bool" for num where
  step_reset: "num (state_id s) = block_num s \<Longrightarrow> fork_step num db (reset s db)"
| step_add: "continues num db n \<Longrightarrow> add_impl v (Some n) ignore_duplicate validate db = Inr db' \<Longrightarrow>
    fork_step num db db'"
| step_mark_valid: "mark_valid b db = Inr db' \<Longrightarrow> fork_step num db db'"
| step_rollback: "fork_step num db (rollback_head_to_root db)"
| step_remove: "remove i db = Some (Inr db') \<Longrightarrow> fork_step num db db'"
| step_advance: "advance_root i db = Some (Inr db') \<Longrightarrow> fork_step num db db'"

definition fork_init :: "(block_id \<Rightarrow> u32) \<Rightarrow> fork_database \<Rightarrow> bool" where
  "fork_init num db \<longleftrightarrow> (\<exists>s. num (state_id s) = block_num s \<and> db = reset s empty_fork_database)"

interpretation forks: invariant_system "fork_init num" "fork_step num" "fork_inv num" for num
proof
  show "fork_inv num db" if "fork_init num db" for db
    using that by (auto simp: fork_init_def intro: reset_inv)
  show "fork_inv num db'" if "fork_inv num db" "fork_step num db db'" for db db'
    using that(2,1)
    by cases (auto intro: reset_inv add_inv mark_valid_inv rollback_inv remove_inv advance_root_inv)
qed

lemma tree_rooted: "tree_above num db r \<Longrightarrow> b \<in> set (index db) \<Longrightarrow> descends db (state_id r) (state_id b)"
proof (induction "block_num b" arbitrary: b rule: less_induct)
  case less
  from less.prems obtain p where p: "root_or_block db r (prev_id b) = Some p" "block_num b = block_num p + 1"
    by (auto simp: tree_above_def)
  have "descends db (state_id r) (state_id p)"
    using less.hyps [of p] less.prems(1) p(2) root_or_block_SomeD [OF p(1)] by auto
  moreover have "child db (state_id p) (state_id b)"
    using child_of [OF less.prems(2)] root_or_block_SomeD [OF p(1)] by simp
  ultimately show ?case by (rule rtranclp.rtrancl_into_rtrancl)
qed

text \<open>
  C3. Whatever sequence of resets, additions, validations, rollbacks, removals and root
  advancements leads to a fork database, its blocks have distinct ids and descend from the
  root, its head is the root or a validated block, and no validated block is preferred to the
  head: none has a higher irreversible number, or the same and a higher block number.
\<close>

theorem fork_head_is_best:
  assumes "fork_init num db0" and "(fork_step num)\<^sup>*\<^sup>* db0 db"
  shows "\<exists>r h. root db = Some r \<and> head db = Some h \<and>
    distinct (map state_id (index db)) \<and>
    (\<forall>b \<in> set (index db). descends db (state_id r) (state_id b) \<and> block_num r < block_num b) \<and>
    (h = r \<or> h \<in> set (index db) \<and> validated h) \<and>
    (\<forall>b \<in> set (index db). validated b \<longrightarrow> \<not> first_preferred b h)"
proof -
  from assms have "fork_inv num db" by (rule forks.reachable_inv)
  then obtain r h where "root db = Some r" "head db = Some h" "tree_above num db r" "head_ok db r h"
    by (rule fork_invE)
  then show ?thesis by (auto simp: head_ok_def tree_above_def intro: tree_rooted [of num])
qed

text \<open>
  C34. The pending head of a reachable fork database always exists, and no block at all,
  validated or not, is preferred to it.
\<close>

theorem pending_head_is_best:
  assumes "fork_init num db0" and "(fork_step num)\<^sup>*\<^sup>* db0 db"
  shows "\<exists>p. pending_head db = Inr (Some p) \<and>
    (root db = Some p \<or> p \<in> set (index db)) \<and> (\<forall>b \<in> set (index db). \<not> first_preferred b p)"
proof -
  from assms have "fork_inv num db" by (rule forks.reachable_inv)
  then obtain r h where rh: "root db = Some r" "head db = Some h" and ok: "head_ok db r h"
    by (rule fork_invE)
  show ?thesis
  proof (cases "first_unvalidated db")
    case None
    then have "\<forall>b \<in> set (index db). validated b"
      by (auto simp: first_unvalidated_def filter_empty_conv)
    with None rh ok show ?thesis by (auto simp: pending_head_def head_ok_def)
  next
    case (Some u)
    then have u: "index_begin by_lib_block_num (filter (\<lambda>b. \<not> validated b) (index db)) = Some u"
      by (simp add: first_unvalidated_def)
    have uin: "u \<in> set (index db)" "\<not> validated u" using index_begin_in [OF u] by auto
    have best: "\<not> first_preferred b u" if "b \<in> set (index db)" "\<not> validated b" for b
      using by_lib_begin(2) [OF u, of b] that uin by auto
    have "\<not> first_preferred b (if first_preferred u h then u else h)" if "b \<in> set (index db)" for b
    proof -
      have "validated b \<Longrightarrow> \<not> first_preferred b h" using ok that by (simp add: head_ok_def)
      with best [OF that] preference.lt_trans [of b u h] preference.lt_negtrans [of b h u] show ?thesis
        by (cases "validated b"; cases "first_preferred u h") auto
    qed
    with Some rh ok uin show ?thesis by (auto simp: pending_head_def head_ok_def)
  qed
qed

text \<open>
  C37. The blocks that validation builds are blocks the fork database can take: the state that
  is computed for a received block on top of the block it names as previous continues it by
  one number, with that number in its id.
\<close>

theorem received_block_continues:
  assumes fc: "byte_order_ok fc" and inv: "fork_inv (num_from_id fc) db"
    and prev: "get_block_header db (previous b) = Inr (Some p)" and num: "block_num p + 1 < 2 ^ 32"
    and n: "block_state_received fc cfg v (block_header_state.truncate p) b skip = Inr n"
  shows "continues (num_from_id fc) db n"
proof -
  from inv obtain r h where r: "root db = Some r" and t: "tree_above (num_from_id fc) db r" by (rule fork_invE)
  from prev r have "root_or_block db r (previous b) = Some p" by (simp add: get_block_header_eq)
  from root_or_block_SomeD [OF this] tree_num [OF t, of p]
  have pid: "state_id p = previous b" "num_from_id fc (state_id p) = block_num p" by auto
  from n obtain s where s: "next_header fc cfg v (block_header_state.truncate p) (signed_block_header.truncate b) skip = Inr s"
    and ns: "n = make_block_state s b []"
    by (auto simp: block_state_received_def res_simps)
  from s obtain q where q: "next_when fc cfg (block_header_state.truncate p)
        (timestamp (signed_block_header.truncate b)) (confirmed (signed_block_header.truncate b)) = Inr q"
    and fin: "finish_next_base fc v q (signed_block_header.truncate b) = Inr s" by (rule next_header_facts)
  note qf = next_when_facts [OF q] and sf = finish_next_base_facts [OF fin]
  have prevb: "previous (signed_block_header.truncate b) = previous b" by (simp add: signed_block_header.defs)
  have "block_num s = block_num p + 1"
    using sf(1) qf(3) num by (simp add: block_header_state.defs)
  moreover have "num_from_id fc (state_id s) = wrap32 (num_from_id fc (previous b) + 1)"
    using num_from_id_header_id [of fc "signed_block_header.truncate b"] fc sf(11) prevb
    by (simp add: byte_order_ok_def header_block_num_def)
  moreover have "prev_id n = previous b" "state_id n = state_id s" "block_num n = block_num s"
    using sf(10) prevb by (simp_all add: ns make_block_state_def block_header_state.defs)
  ultimately show ?thesis using prev pid num by (auto simp: continues_def)
qed

section \<open>A concrete fork\<close>

definition sample_block :: signed_block where
  "sample_block = signed_block_header.extend sample_next_header \<lparr>transactions = [], block_extensions = []\<rparr>"

definition sample_block_state :: block_state where
  "sample_block_state = make_block_state sample_state sample_block []"

definition sample_fork :: fork_database where
  "sample_fork = reset sample_genesis empty_fork_database"

lemma sample_fork_init: "fork_init (num_from_id sample_fc) sample_fork"
proof -
  have "dpos_inv sample_fc (sample_genesis, [])" by (rule headers.init_inv [OF sample_reach(1)])
  then have "num_from_id sample_fc (state_id sample_genesis) = block_num sample_genesis" by (simp add: dpos_inv_def)
  then show ?thesis by (auto simp: fork_init_def sample_fork_def)
qed

definition sample_fork1 :: fork_database where
  "sample_fork1 = sample_fork\<lparr>index := [sample_block_state]\<rparr>"

definition sample_fork2 :: fork_database where
  "sample_fork2 = sample_fork\<lparr>index := [sample_block_state\<lparr>validated := True\<rparr>],
     head := Some (sample_block_state\<lparr>validated := True\<rparr>)\<rparr>"

lemma sample_fork_root: "root sample_fork = Some (block_header_state.extend sample_genesis \<lparr>block = None, validated = True, trxs = []\<rparr>)"
  "head sample_fork = root sample_fork" "index sample_fork = []"
  by (simp_all add: sample_fork_def reset_def Let_def empty_fork_database_def)

lemma sample_block_state_fields:
  "state_id sample_block_state = state_id sample_state" "block_num sample_block_state = 2"
  "prev_id sample_block_state = state_id sample_genesis" "\<not> validated sample_block_state"
  "dpos_irreversible_blocknum sample_block_state = 0"
proof -
  show "state_id sample_block_state = state_id sample_state" "block_num sample_block_state = 2"
    "\<not> validated sample_block_state"
    by (simp_all add: sample_block_state_def make_block_state_def block_header_state.defs sample_state_fields)
  show "prev_id sample_block_state = state_id sample_genesis"
    by (simp add: sample_block_state_def make_block_state_def block_header_state.defs sample_state_def
        sample_next_header_def make_block_header_def sample_pending_def pending_template_def Let_def
        block_header_state_common.defs)
  show "dpos_irreversible_blocknum sample_block_state = 0"
    by (simp add: sample_block_state_def make_block_state_def block_header_state.defs sample_state_def
        sample_pending_def pending_template_def Let_def block_header_state_common.defs
        calc_dpos_last_irreversible_def dpos_blocknums_def dpos_nth_def sample_genesis_def genesis_state_def)
qed

lemma sample_received:
  "block_state_received sample_fc sample_cfg (\<lambda>_ _ _. Inr ()) sample_genesis sample_block False = Inr sample_block_state"
proof -
  have "signed_block_header.truncate sample_block = sample_next_header"
    by (simp add: sample_block_def signed_block_header.defs)
  then show ?thesis by (simp add: block_state_received_def sample_accepted sample_block_state_def)
qed

lemma sample_continues: "continues (num_from_id sample_fc) sample_fork sample_block_state"
proof -
  have "dpos_inv sample_fc (sample_state, [state_id sample_genesis])"
    by (rule headers.reachable_inv [OF sample_reach])
  then have "num_from_id sample_fc (state_id sample_state) = 2" by (simp add: dpos_inv_def sample_state_fields)
  then show ?thesis
    by (auto simp: continues_def sample_block_state_fields get_block_header_def sample_fork_root
        block_header_state.defs sample_genesis_num get_block_def)
qed

lemma sample_add:
  "add_impl (\<lambda>_ _ _. Inr ()) (Some sample_block_state) False False sample_fork = Inr sample_fork1"
  by (simp add: add_impl_def get_block_header_def sample_fork_root sample_block_state_fields
      block_header_state.defs get_block_def sample_fork1_def)

lemma sample_mark_valid: "mark_valid sample_block_state sample_fork1 = Inr sample_fork2"
  by (simp add: mark_valid_def sample_fork1_def sample_fork2_def get_block_def sample_block_state_fields
      Let_def sample_fork_root first_preferred_def block_header_state.defs sample_genesis_num)
    (simp add: sample_genesis_def genesis_state_def Let_def)

lemma sample_fork_reach: "(fork_step (num_from_id sample_fc))\<^sup>*\<^sup>* sample_fork sample_fork2"
  using step_add [OF sample_continues sample_add] step_mark_valid [OF sample_mark_valid]
  by (meson rtranclp.rtrancl_into_rtrancl rtranclp.rtrancl_refl)

theorem fork_head_is_best_witness:
  "\<exists>r h. root sample_fork2 = Some r \<and> head sample_fork2 = Some h \<and> block_num h = 2 \<and>
     descends sample_fork2 (state_id r) (state_id sample_state) \<and>
     (\<forall>b \<in> set (index sample_fork2). validated b \<longrightarrow> \<not> first_preferred b h)"
  using fork_head_is_best [OF sample_fork_init sample_fork_reach]
  by (auto simp: sample_fork2_def sample_block_state_fields)

theorem pending_head_is_best_witness:
  "\<exists>p. pending_head sample_fork1 = Inr (Some p) \<and> \<not> first_preferred sample_block_state p"
  using pending_head_is_best [OF sample_fork_init r_into_rtranclp [where r = "fork_step (num_from_id sample_fc)", OF step_add [OF sample_continues sample_add]]]
  by (auto simp: sample_fork1_def)

theorem received_block_continues_witness:
  "continues (num_from_id sample_fc) sample_fork sample_block_state"
proof -
  let ?r = "block_header_state.extend sample_genesis \<lparr>block = None, validated = True, trxs = []\<rparr>"
  have fc: "byte_order_ok sample_fc" using sample_reach(1) by (simp add: header_init_def)
  have inv: "fork_inv (num_from_id sample_fc) sample_fork" by (rule forks.init_inv [OF sample_fork_init])
  have prev: "get_block_header sample_fork (previous sample_block) = Inr (Some ?r)"
    using sample_block_state_fields(3)
    by (simp add: get_block_header_def sample_fork_root sample_block_def signed_block_header.defs
        block_header_state.defs sample_next_header_def make_block_header_def sample_pending_def
        pending_template_def Let_def)
  have num: "block_num ?r + 1 < 2 ^ 32" by (simp add: block_header_state.defs sample_genesis_num)
  have "block_header_state.truncate ?r = sample_genesis" by (simp add: block_header_state.defs)
  then have n: "block_state_received sample_fc sample_cfg (\<lambda>_ _ _. Inr ()) (block_header_state.truncate ?r) sample_block False
      = Inr sample_block_state" by (simp add: sample_received)
  show ?thesis by (rule received_block_continues [OF fc inv prev num n])
qed

end
