(* ===== verification/Fork_Branches.thy ===== *)
theory Fork_Branches
  imports Fork_Choice
begin

text \<open>
  The operations that cut and follow branches of the fork database: what removal and root
  advancement keep, that the loops following previous-block links always return, and that the
  branches of two blocks are their paths to the nearest common ancestor.
\<close>

section \<open>Cutting the tree\<close>

text \<open>
  C35. Removing a block of a reachable fork database always returns. It removes exactly the
  block and its descendants, and it is refused, with nothing removed, when the head is among
  them.
\<close>

theorem remove_cuts_subtree:
  assumes "fork_init num db0" and "(fork_step num)\<^sup>*\<^sup>* db0 db"
  shows "\<exists>h. head db = Some h \<and> remove i db = Some
    (if descends db i (state_id h) then Inl Fork_database_exception
     else Inr (db\<lparr>index := filter (\<lambda>b. \<not> descends db i (state_id b)) (index db)\<rparr>))"
proof -
  from assms have "fork_inv num db" by (rule forks.reachable_inv)
  then obtain r h where "head db = Some h" "tree_above num db r" by (rule fork_invE)
  then show ?thesis using remove_eq [OF tree_forest] by blast
qed

theorem remove_cuts_subtree_witness:
  "remove (state_id sample_state) sample_fork2 = Some (Inl Fork_database_exception)"
  using remove_cuts_subtree [OF sample_fork_init sample_fork_reach, of "state_id sample_state"]
  by (auto simp: sample_fork2_def sample_block_state_fields)

text \<open>
  C19. Advancing the root of a reachable fork database to one of its validated blocks always
  returns. If the head descends from the new root, what remains is exactly the proper
  descendants of the new root; otherwise it is refused.
\<close>

theorem advance_root_keeps_subtree:
  assumes "fork_init num db0" and "(fork_step num)\<^sup>*\<^sup>* db0 db"
    and "get_block db i = Some nb" and "validated nb"
  shows "\<exists>h. head db = Some h \<and> advance_root i db = Some
    (if descends db i (state_id h)
     then Inr (db\<lparr>index := filter (\<lambda>b. state_id b \<noteq> i \<and> descends db i (state_id b)) (index db),
                  root := Some nb\<rparr>)
     else Inl Fork_database_exception)"
proof -
  from assms(1,2) have "fork_inv num db" by (rule forks.reachable_inv)
  then obtain r h where rh: "root db = Some r" "head db = Some h" "tree_above num db r" "head_ok db r h"
    by (rule fork_invE)
  then have "h = r \<or> h \<in> set (index db)" by (auto simp: head_ok_def)
  with rh(2) advance_root_eq [OF rh(1,2,3) _ assms(3,4)] show ?thesis by blast
qed

theorem advance_root_keeps_subtree_witness:
  "advance_root (state_id sample_state) sample_fork2 =
     Some (Inr (sample_fork2\<lparr>index := [], root := Some (sample_block_state\<lparr>validated := True\<rparr>)\<rparr>))"
proof -
  have "get_block sample_fork2 (state_id sample_state) = Some (sample_block_state\<lparr>validated := True\<rparr>)"
    by (simp add: sample_fork2_def get_block_def sample_block_state_fields)
  from advance_root_keeps_subtree [OF sample_fork_init sample_fork_reach this] show ?thesis
    by (auto simp: sample_fork2_def sample_block_state_fields)
qed

section \<open>Paths\<close>

text \<open>The blocks met by following previous-block links from an id until one is not found.\<close>

inductive path :: "fork_database \<Rightarrow> block_id \<Rightarrow> block_state list \<Rightarrow> bool" for db where
  path_end: "get_block db i = None \<Longrightarrow> path db i []"
| path_step: "get_block db i = Some b \<Longrightarrow> path db (prev_id b) bs \<Longrightarrow> path db i (b # bs)"

lemma path_None: "path db i bs \<Longrightarrow> get_block db i = None \<Longrightarrow> bs = []"
  by (cases rule: path.cases) auto

lemma path_Some:
  "path db i bs \<Longrightarrow> get_block db i = Some b \<Longrightarrow> \<exists>cs. bs = b # cs \<and> path db (prev_id b) cs"
  by (cases rule: path.cases) auto

lemma path_unique: "path db i bs \<Longrightarrow> path db i cs \<Longrightarrow> bs = cs"
proof (induction arbitrary: cs rule: path.induct)
  case (path_end i)
  from path_None [OF path_end.prems path_end.hyps] show ?case by simp
next
  case (path_step i b bs)
  from path_Some [OF path_step.prems path_step.hyps(1)] obtain ds where
    "cs = b # ds" "path db (prev_id b) ds" by blast
  with path_step.IH [of ds] show ?case by simp
qed

lemma tree_get_block: "tree_above num db r \<Longrightarrow> get_block db i = Some b \<Longrightarrow> root_or_block db r i = Some b"
  using tree_root_id [of num db r] get_block_None [of db "state_id r"] by (auto simp: root_or_block_def)

lemma path_exists:
  assumes t: "tree_above num db r"
  shows "\<exists>bs. path db i bs"
proof (induction "num i" arbitrary: i rule: less_induct)
  case less
  show ?case
  proof (cases "get_block db i")
    case None
    then show ?thesis by (auto intro: path_end)
  next
    case (Some b)
    from get_block_SomeD [OF Some] have b: "b \<in> set (index db)" "state_id b = i" by auto
    from t b(1) obtain p where p: "root_or_block db r (prev_id b) = Some p" "block_num b = block_num p + 1"
      by (auto simp: tree_above_def)
    have "num (prev_id b) < num i"
      using root_or_block_SomeD [OF p(1)] tree_num [OF t, of p] tree_num [OF t, of b] b p(2) by simp
    from less.hyps [OF this] Some show ?thesis by (auto intro: path_step)
  qed
qed

lemma path_nums:
  assumes t: "tree_above num db r"
  shows "path db i bs \<Longrightarrow> b \<in> set bs \<Longrightarrow> block_num b \<le> num i"
proof (induction rule: path.induct)
  case (path_step i c bs)
  from get_block_SomeD [OF path_step.hyps(1)] have c: "c \<in> set (index db)" "state_id c = i" by auto
  from t c(1) obtain p where p: "root_or_block db r (prev_id c) = Some p" "block_num c = block_num p + 1"
    by (auto simp: tree_above_def)
  have "num (prev_id c) < num i" "num i = block_num c"
    using root_or_block_SomeD [OF p(1)] tree_num [OF t, of p] tree_num [OF t, of c] c p(2) by simp_all
  with path_step show ?case by fastforce
qed simp

lemma path_numbers:
  assumes t: "tree_above num db r"
  shows "path db i bs \<Longrightarrow> get_block db i = Some b \<Longrightarrow>
    map block_num bs = rev [Suc (block_num r)..<Suc (block_num b)] \<and> prev_id (last bs) = state_id r"
proof (induction arbitrary: b rule: path.induct)
  case (path_step i c bs)
  then have [simp]: "c = b" by simp
  from get_block_SomeD [OF path_step.hyps(1)] have b: "b \<in> set (index db)" by simp
  from t b obtain p where p: "root_or_block db r (prev_id b) = Some p" "block_num b = block_num p + 1"
    by (auto simp: tree_above_def)
  show ?case
  proof (cases "get_block db (prev_id b)")
    case None
    then have "bs = []" using path_None [OF path_step.hyps(2)] by simp
    moreover from None p(1) have "prev_id b = state_id r" "p = r" by (auto simp: root_or_block_def split: if_splits)
    ultimately show ?thesis using p(2) by simp
  next
    case (Some q)
    then have "q = p" using p(1) tree_get_block [OF t Some] by simp
    with Some path_step.IH [of p] have IH: "map block_num bs = rev [Suc (block_num r)..<Suc (block_num p)]"
      "prev_id (last bs) = state_id r" by simp_all
    have "block_num r < block_num p" using t Some \<open>q = p\<close> get_block_SomeD [OF Some] by (auto simp: tree_above_def)
    moreover have "bs \<noteq> []" using path_Some [OF path_step.hyps(2)] Some by auto
    ultimately show ?thesis using IH p(2) by simp
  qed
qed simp

lemma fetch_branch_loop_path:
  "path db i bs \<Longrightarrow> fetch_branch_loop db trim (get_block db i) acc =
     Some (acc @ filter (\<lambda>b. block_num b \<le> trim) bs)"
proof (induction arbitrary: acc rule: path.induct)
  case (path_end i)
  then show ?case by (simp add: fetch_branch_loop.simps)
next
  case (path_step i b bs)
  then show ?case by (subst fetch_branch_loop.simps) simp
qed

lemma search_loop_path:
  "path db i bs \<Longrightarrow> search_loop db n (get_block db i) = Some (find (\<lambda>b. block_num b = n) bs)"
proof (induction rule: path.induct)
  case (path_end i)
  then show ?case by (simp add: search_loop.simps)
next
  case (path_step i b bs)
  then show ?case by (subst search_loop.simps) simp
qed

text \<open>
  C36. Fetching the branch of a block of a reachable fork database always returns: the blocks
  from it down to the root, root excluded, one per number and in descending order, without
  those above the trim number. The block is required to be in the database.
\<close>

theorem fetch_branch_is_path:
  assumes "fork_init num db0" and "(fork_step num)\<^sup>*\<^sup>* db0 db" and "get_block db h = Some b"
  shows "\<exists>r bs. root db = Some r \<and>
    fetch_branch db h trim = Some (filter (\<lambda>b. block_num b \<le> trim) bs) \<and> path db h bs \<and>
    map block_num bs = rev [Suc (block_num r)..<Suc (block_num b)] \<and> prev_id (last bs) = state_id r"
proof -
  from assms(1,2) have "fork_inv num db" by (rule forks.reachable_inv)
  then obtain r where r: "root db = Some r" and t: "tree_above num db r" by (rule fork_invE)
  obtain bs where bs: "path db h bs" using path_exists [OF t] by blast
  have "fetch_branch db h trim = Some (filter (\<lambda>b. block_num b \<le> trim) bs)"
    using fetch_branch_loop_path [OF bs, of trim "[]"] by (simp add: fetch_branch_def)
  then show ?thesis using r bs path_numbers [OF t bs] assms(3) by auto
qed

text \<open>
  For an id that is not in the database the code does not throw, as its documentation says; it
  returns the empty branch.
\<close>

lemma fetch_branch_unknown: "get_block db h = None \<Longrightarrow> fetch_branch db h trim = Some []"
  by (simp add: fetch_branch_def fetch_branch_loop.simps)

theorem fetch_branch_is_path_witness:
  "\<exists>bs. fetch_branch sample_fork2 (state_id sample_state) 9 = Some bs \<and> map block_num bs = [2]"
proof -
  have known: "get_block sample_fork2 (state_id sample_state) = Some (sample_block_state\<lparr>validated := True\<rparr>)"
    by (simp add: sample_fork2_def get_block_def sample_block_state_fields)
  have "block_num r = 1" if "root sample_fork2 = Some r" for r
    using that by (auto simp: sample_fork2_def sample_fork_root block_header_state.defs sample_genesis_num)
  then obtain bs where bs: "fetch_branch sample_fork2 (state_id sample_state) 9 =
      Some (filter (\<lambda>b. block_num b \<le> 9) bs)" "map block_num bs = [2]"
    using fetch_branch_is_path [OF sample_fork_init sample_fork_reach known, of 9]
    by (auto simp: sample_block_state_fields upt_rec)
  then show ?thesis by auto
qed

section \<open>The branches of two blocks\<close>

definition known :: "fork_database \<Rightarrow> block_state \<Rightarrow> block_state \<Rightarrow> bool" where
  "known db r b \<longleftrightarrow> b = r \<or> b \<in> set (index db)"

lemma known_parent:
  assumes t: "tree_above num db r" and b: "b \<in> set (index db)"
  obtains p where "root_or_block db r (prev_id b) = Some p" "known db r p" "state_id p = prev_id b"
    "block_num b = block_num p + 1"
  using assms root_or_block_SomeD by (fastforce simp: tree_above_def known_def)

lemma lower_loop_result:
  assumes t: "tree_above num db r" and n: "block_num r \<le> n"
  shows "known db r b \<Longrightarrow> path db (state_id b) ps \<Longrightarrow>
    \<exists>b' as ps'. lower_loop db r n b acc = Some (Inr (b', acc @ as)) \<and> known db r b' \<and>
      path db (state_id b') ps' \<and> ps = as @ ps' \<and> (\<forall>a \<in> set as. n < block_num a) \<and>
      (if n < block_num b then block_num b' = n else b' = b \<and> as = [])"
proof (induction "block_num b" arbitrary: b ps acc rule: less_induct)
  case less
  show ?case
  proof (cases "n < block_num b")
    case True
    with n less.prems(1) have bin: "b \<in> set (index db)" by (auto simp: known_def)
    then obtain p where p: "root_or_block db r (prev_id b) = Some p" "known db r p" "state_id p = prev_id b"
      "block_num b = block_num p + 1" using known_parent [OF t] by blast
    have "get_block db (state_id b) = Some b" using get_block_of t bin by (simp add: tree_above_def)
    from path_Some [OF less.prems(2) this] p(3) obtain qs where qs: "ps = b # qs" "path db (state_id p) qs"
      by auto
    obtain b' as ps' where ih: "lower_loop db r n p (acc @ [b]) = Some (Inr (b', (acc @ [b]) @ as))"
      "known db r b'" "path db (state_id b') ps'" "qs = as @ ps'" "\<forall>a \<in> set as. n < block_num a"
      "if n < block_num p then block_num b' = n else b' = p \<and> as = []"
      using less.hyps [OF _ p(2) qs(2), of "acc @ [b]"] p(4) by auto
    have "lower_loop db r n b acc = Some (Inr (b', acc @ b # as))"
      using True p(1) ih(1) by (subst lower_loop.simps) simp
    moreover have "block_num b' = n" using ih(6) p(4) True by (auto split: if_splits)
    ultimately show ?thesis using ih True qs(1) by (intro exI [of _ b'] exI [of _ "b # as"] exI [of _ ps']) auto
  next
    case False
    with less.prems show ?thesis by (subst lower_loop.simps) auto
  qed
qed

lemma common_loop_result:
  assumes t: "tree_above num db r"
  shows "a \<in> set (index db) \<Longrightarrow> b \<in> set (index db) \<Longrightarrow> block_num a = block_num b \<Longrightarrow>
    state_id a \<noteq> state_id b \<Longrightarrow> path db (state_id a) pa \<Longrightarrow> path db (state_id b) pb \<Longrightarrow>
    \<exists>as' bs' common. common_loop db a b as bs = Some (Inr (as @ as', bs @ bs')) \<and>
      pa = as' @ common \<and> pb = bs' @ common \<and> set as' \<inter> set bs' = {}"
proof (induction "block_num a" arbitrary: a b pa pb as bs rule: less_induct)
  case less
  have dist: "distinct (map state_id (index db))" using t by (simp add: tree_above_def)
  obtain p where p: "root_or_block db r (prev_id a) = Some p" "known db r p" "state_id p = prev_id a"
    "block_num a = block_num p + 1" using known_parent [OF t less.prems(1)] .
  obtain q where q: "root_or_block db r (prev_id b) = Some q" "known db r q" "state_id q = prev_id b"
    "block_num b = block_num q + 1" using known_parent [OF t less.prems(2)] .
  obtain ps where ps: "pa = a # ps" "path db (prev_id a) ps"
    using path_Some [OF less.prems(5) get_block_of [OF dist less.prems(1)]] by blast
  obtain qs where qs: "pb = b # qs" "path db (prev_id b) qs"
    using path_Some [OF less.prems(6) get_block_of [OF dist less.prems(2)]] by blast
  show ?case
  proof (cases "prev_id a = prev_id b")
    case True
    then have "qs = ps" using ps(2) qs(2) path_unique by simp
    with True ps qs less.prems(4) show ?thesis
      by (subst common_loop.simps) (auto intro!: exI [of _ "[a]"] exI [of _ "[b]"])
  next
    case False
    have num: "block_num p = block_num q" using p(4) q(4) less.prems(3) by simp
    have pq: "p \<in> set (index db)" "q \<in> set (index db)"
      using num p(2,3) q(2,3) False t by (auto simp: known_def tree_above_def)
    then have get: "get_block db (prev_id a) = Some p" "get_block db (prev_id b) = Some q"
      using get_block_of [OF dist] p(3) q(3) by metis+
    obtain as' bs' common where ih: "common_loop db p q (as @ [a]) (bs @ [b]) =
        Some (Inr ((as @ [a]) @ as', (bs @ [b]) @ bs'))" "ps = as' @ common" "qs = bs' @ common"
      "set as' \<inter> set bs' = {}"
      using less.hyps [OF _ pq num _ , of ps qs "as @ [a]" "bs @ [b]"] p(3,4) q(3) False ps(2) qs(2) by auto
    have run: "common_loop db a b as bs = Some (Inr (as @ a # as', bs @ b # bs'))"
      using False get ih(1) by (subst common_loop.simps) simp
    have "block_num x < block_num a" if "x \<in> set ps \<or> x \<in> set qs" for x
      using path_nums [OF t ps(2), of x] path_nums [OF t qs(2), of x] that
        tree_num [OF t, of p] tree_num [OF t, of q] pq p(3,4) q(3) num by auto
    then have "a \<notin> set bs'" "b \<notin> set as'" using ih(2,3) less.prems(3) by (metis Un_iff less_irrefl set_append)+
    with run ih ps qs less.prems(4) show ?thesis
      by (intro exI [of _ "a # as'"] exI [of _ "b # bs'"] exI [of _ common]) auto
  qed
qed

text \<open>
  C17. For two blocks of a reachable fork database, the root included, the two branches are
  always found: they are the parts of the paths of the two blocks above their nearest common
  ancestor, and they share no block.
\<close>

theorem fetch_branch_from_common_ancestor:
  assumes "fork_init num db0" and "(fork_step num)\<^sup>*\<^sup>* db0 db" and r: "root db = Some r"
    and "first = state_id r \<or> get_block db first \<noteq> None"
    and "second = state_id r \<or> get_block db second \<noteq> None"
  shows "\<exists>as bs common. fetch_branch_from db first second = Some (Inr (as, bs)) \<and>
    path db first (as @ common) \<and> path db second (bs @ common) \<and> set as \<inter> set bs = {}"
proof -
  from assms(1,2) have "fork_inv num db" by (rule forks.reachable_inv)
  then have t: "tree_above num db r" using r by (auto elim: fork_invE)
  have look: "\<exists>b. root_or_block db r i = Some b \<and> known db r b \<and> state_id b = i"
    if "i = state_id r \<or> get_block db i \<noteq> None" for i
    using that by (auto simp: root_or_block_def known_def dest: get_block_SomeD)
  obtain a0 where a0: "root_or_block db r first = Some a0" "known db r a0" "state_id a0 = first"
    using look assms(4) by blast
  obtain b0 where b0: "root_or_block db r second = Some b0" "known db r b0" "state_id b0 = second"
    using look assms(5) by blast
  obtain pa pb where pa: "path db (state_id a0) pa" and pb: "path db (state_id b0) pb"
    using path_exists [OF t] by blast
  have above: "block_num r \<le> block_num c" if "known db r c" for c
    using that t by (auto simp: known_def tree_above_def)
  obtain a as pa' where a: "lower_loop db r (block_num b0) a0 [] = Some (Inr (a, as))" "known db r a"
    "path db (state_id a) pa'" "pa = as @ pa'" "\<forall>x \<in> set as. block_num b0 < block_num x"
    "if block_num b0 < block_num a0 then block_num a = block_num b0 else a = a0 \<and> as = []"
    using lower_loop_result [OF t above [OF b0(2)] a0(2) pa, of "[]"] by auto
  obtain b bs pb' where b: "lower_loop db r (block_num a) b0 [] = Some (Inr (b, bs))" "known db r b"
    "path db (state_id b) pb'" "pb = bs @ pb'" "\<forall>x \<in> set bs. block_num a < block_num x"
    "if block_num a < block_num b0 then block_num b = block_num a else b = b0 \<and> bs = []"
    using lower_loop_result [OF t above [OF a(2)] b0(2) pb, of "[]"] by auto
  have level: "block_num a = block_num b" and one: "as = [] \<or> bs = []"
    using a(6) b(6) by (auto split: if_splits)
  show ?thesis
  proof (cases "state_id a = state_id b")
    case True
    then have "pa' = pb'" using a(3) b(3) path_unique by simp
    moreover have "fetch_branch_from db first second = Some (Inr (as, bs))"
      using True r a0(1) b0(1) a(1) b(1) by (simp add: fetch_branch_from_def)
    moreover have "set as \<inter> set bs = {}" using one by auto
    ultimately show ?thesis using pa pb a(4) b(4) a0(3) b0(3) by blast
  next
    case False
    have ab: "a \<in> set (index db)" "b \<in> set (index db)"
      using False level a(2) b(2) t by (auto simp: known_def tree_above_def)
    obtain as' bs' common where c: "common_loop db a b as bs = Some (Inr (as @ as', bs @ bs'))"
      "pa' = as' @ common" "pb' = bs' @ common" "set as' \<inter> set bs' = {}"
      using common_loop_result [OF t ab level False a(3) b(3)] by blast
    have low: "block_num x \<le> block_num a" if "x \<in> set pa' \<or> x \<in> set pb'" for x
      using that path_nums [OF t a(3), of x] path_nums [OF t b(3), of x]
        tree_num [OF t, of a] tree_num [OF t, of b] ab level by auto
    have high: "block_num a < block_num x" if "x \<in> set as \<or> x \<in> set bs" for x
      using that a(5,6) b(5) level by (auto split: if_splits)
    have "x \<notin> set bs'" if "x \<in> set as" for x
      using low [of x] high [of x] that c(3) by auto
    moreover have "x \<notin> set as'" if "x \<in> set bs" for x
      using low [of x] high [of x] that c(2) by auto
    ultimately have "set (as @ as') \<inter> set (bs @ bs') = {}" using c(4) one by auto
    moreover have "fetch_branch_from db first second = Some (Inr (as @ as', bs @ bs'))"
      using False r a0(1) b0(1) a(1) b(1) c(1) by (simp add: fetch_branch_from_def)
    moreover have "path db first ((as @ as') @ common)" "path db second ((bs @ bs') @ common)"
      using pa pb a(4) b(4) c(2,3) a0(3) b0(3) by simp_all
    ultimately show ?thesis by blast
  qed
qed

theorem fetch_branch_from_common_ancestor_witness:
  "\<exists>as bs. fetch_branch_from sample_fork2 (state_id sample_state) (state_id sample_genesis) = Some (Inr (as, bs))"
proof -
  let ?r = "block_header_state.extend sample_genesis \<lparr>block = None, validated = True, trxs = []\<rparr>"
  have r: "root sample_fork2 = Some ?r" by (simp add: sample_fork2_def sample_fork_root)
  have "get_block sample_fork2 (state_id sample_state) \<noteq> None"
    by (simp add: sample_fork2_def get_block_def sample_block_state_fields)
  then have first: "state_id sample_state = state_id ?r \<or> get_block sample_fork2 (state_id sample_state) \<noteq> None"
    by simp
  have second: "state_id sample_genesis = state_id ?r \<or> get_block sample_fork2 (state_id sample_genesis) \<noteq> None"
    by (simp add: block_header_state.defs)
  from fetch_branch_from_common_ancestor [OF sample_fork_init sample_fork_reach r first second]
  show ?thesis by blast
qed

text \<open>
  Searching a branch for a number always returns, and finds the block of that number on
  the branch if there is one.
\<close>

theorem search_on_branch_finds:
  assumes "fork_init num db0" and "(fork_step num)\<^sup>*\<^sup>* db0 db"
  shows "\<exists>bs. path db h bs \<and> search_on_branch db h n = Some (find (\<lambda>b. block_num b = n) bs)"
proof -
  from assms have "fork_inv num db" by (rule forks.reachable_inv)
  then obtain r where t: "tree_above num db r" by (rule fork_invE)
  obtain bs where "path db h bs" using path_exists [OF t] by blast
  with search_loop_path [OF this] show ?thesis by (auto simp: search_on_branch_def)
qed

theorem search_on_branch_finds_witness:
  "\<exists>r. search_on_branch sample_fork2 null_digest 7 = Some r"
  using search_on_branch_finds [OF sample_fork_init sample_fork_reach] by blast

end
