(* ===== verification/Chain_Tables.thy ===== *)
theory Chain_Tables
  imports Block_Header
begin

text \<open>
  The chain state database. A table of the state with a unique key is the list of its rows
  with their keys, in the order of creation; the operations are those the code calls on
  \<open>chainbase::database\<close>. On top of it: the contract tables (\<open>contract_table_objects.hpp\<close>)
  with the native access to them (\<open>memory_db.hpp\<close>, \<open>memory_db.cpp\<close>).
\<close>

section \<open>Tables with a unique key\<close>

type_synonym ('k, 'r) rows = "('k \<times> 'r) list"

definition tab_get :: "('k, 'r) rows \<Rightarrow> 'k \<Rightarrow> 'r res" where
  "tab_get t k = from_some Std_out_of_range (map_of t k)"

definition tab_create :: "'k \<Rightarrow> 'r \<Rightarrow> ('k, 'r) rows \<Rightarrow> ('k, 'r) rows res" where
  "tab_create k r t = (if map_of t k = None then Inr (t @ [(k, r)]) else Inl Std_logic_error)"

fun tab_modify :: "'k \<Rightarrow> 'r \<Rightarrow> ('k, 'r) rows \<Rightarrow> ('k, 'r) rows" where
  "tab_modify k r [] = []"
| "tab_modify k r ((k', r') # t) = (if k' = k then (k, r) # t else (k', r') # tab_modify k r t)"

fun tab_remove :: "'k \<Rightarrow> ('k, 'r) rows \<Rightarrow> ('k, 'r) rows" where
  "tab_remove k [] = []"
| "tab_remove k ((k', r') # t) = (if k' = k then t else (k', r') # tab_remove k t)"

abbreviation tab_keys :: "('k, 'r) rows \<Rightarrow> 'k list" where
  "tab_keys t \<equiv> map fst t"

definition tab_ok :: "('k, 'r) rows \<Rightarrow> bool" where
  "tab_ok t \<longleftrightarrow> distinct (tab_keys t)"

text \<open>
  What the code relies on: each operation changes what is found under its own key only, and
  the keys stay unique.
\<close>

locale unique_table =
  fixes ok :: "'t \<Rightarrow> bool" and find :: "'t \<Rightarrow> 'k \<Rightarrow> 'r option"
    and create :: "'k \<Rightarrow> 'r \<Rightarrow> 't \<Rightarrow> 'e + 't" and modify :: "'k \<Rightarrow> 'r \<Rightarrow> 't \<Rightarrow> 't"
    and remove :: "'k \<Rightarrow> 't \<Rightarrow> 't"
  assumes create_ok: "create k r t = Inr t' \<Longrightarrow> ok t \<Longrightarrow> ok t'"
    and create_fresh: "create k r t = Inr t' \<Longrightarrow> find t k = None"
    and create_find: "create k r t = Inr t' \<Longrightarrow> find t' k' = (if k' = k then Some r else find t k')"
    and create_succeeds: "find t k = None \<Longrightarrow> \<exists>t'. create k r t = Inr t'"
    and modify_ok: "ok t \<Longrightarrow> ok (modify k r t)"
    and modify_find: "find (modify k r t) k' =
      (if k' = k \<and> find t k \<noteq> None then Some r else find t k')"
    and remove_ok: "ok t \<Longrightarrow> ok (remove k t)"
    and remove_find: "ok t \<Longrightarrow> find (remove k t) k' = (if k' = k then None else find t k')"
begin

lemma create_twice: "create k r t = Inr t' \<Longrightarrow> \<nexists>t''. create k r' t' = Inr t''"
  using create_fresh create_find by fastforce

lemma modify_keeps_keys: "find (modify k r t) k' = None \<longleftrightarrow> find t k' = None"
  by (auto simp: modify_find)

lemma modify_twice: "find (modify k r (modify k r' t)) = find (modify k r t)"
  by (auto simp: modify_find fun_eq_iff)

lemma create_remove:
  "ok t \<Longrightarrow> create k r t = Inr t' \<Longrightarrow> find (remove k t') = find t"
  using create_fresh [of k r t t'] by (auto simp: fun_eq_iff remove_find create_find create_ok)

end

lemma tab_modify_keys [simp]: "tab_keys (tab_modify k r t) = tab_keys t"
  by (induction k r t rule: tab_modify.induct) auto

lemma tab_remove_keys: "tab_keys (tab_remove k t) = remove1 k (tab_keys t)"
  by (induction k t rule: tab_remove.induct) auto

lemma tab_modify_find:
  "map_of (tab_modify k r t) k' = (if k' = k \<and> map_of t k \<noteq> None then Some r else map_of t k')"
  by (induction k r t rule: tab_modify.induct) auto

lemma tab_remove_find:
  "distinct (tab_keys t) \<Longrightarrow> map_of (tab_remove k t) k' = (if k' = k then None else map_of t k')"
proof (induction k t rule: tab_remove.induct)
  case (2 k a r t)
  then show ?case
    using map_of_eq_None_iff [of t k] by (cases "a = k") auto
qed simp

lemma tab_create_Inr:
  "tab_create k r t = Inr t' \<longleftrightarrow> k \<notin> set (tab_keys t) \<and> t' = t @ [(k, r)]"
  by (auto simp: tab_create_def map_of_eq_None_iff)

lemma tab_create_find:
  "tab_create k r t = Inr t' \<Longrightarrow> map_of t' k' = (if k' = k then Some r else map_of t k')"
  using map_of_eq_None_iff [of t k] by (auto simp: tab_create_Inr map_add_def split: option.splits)

interpretation rows: unique_table tab_ok map_of tab_create tab_modify tab_remove
proof unfold_locales
  show "tab_create k r t = Inr t' \<Longrightarrow> map_of t' k' = (if k' = k then Some r else map_of t k')"
    for k k' :: 'k and r :: 'r and t t'
    by (rule tab_create_find)
qed (simp_all add: tab_modify_find tab_remove_find tab_ok_def tab_create_Inr
      tab_remove_keys distinct_remove1 map_of_eq_None_iff)

text \<open>Sums over the rows of a table, for the totals that the code keeps beside it.\<close>

definition tab_sum :: "('k \<Rightarrow> 'r \<Rightarrow> nat) \<Rightarrow> ('k, 'r) rows \<Rightarrow> nat" where
  "tab_sum f t = sum_list (map (\<lambda>(k, r). f k r) t)"

lemma tab_sum_simps [simp]:
  "tab_sum f [] = 0" "tab_sum f ((k, r) # t) = f k r + tab_sum f t"
  "tab_sum f (t @ u) = tab_sum f t + tab_sum f u"
  by (simp_all add: tab_sum_def)

lemma tab_sum_ge: "map_of t k = Some r \<Longrightarrow> f k r \<le> tab_sum f t"
  by (induction t) (auto split: if_splits)

lemma tab_sum_modify:
  "map_of t k = Some r \<Longrightarrow> tab_sum f (tab_modify k r' t) + f k r = tab_sum f t + f k r'"
  by (induction k r' t rule: tab_modify.induct) (auto split: if_splits)

lemma tab_sum_remove:
  "map_of t k = Some r \<Longrightarrow> tab_sum f (tab_remove k t) + f k r = tab_sum f t"
  by (induction k t rule: tab_remove.induct) (auto split: if_splits)


lemma tab_modify_set:
  "distinct (tab_keys t) \<Longrightarrow> (a, b) \<in> set (tab_modify k r t) \<Longrightarrow>
   (a = k \<and> b = r) \<or> (a \<noteq> k \<and> (a, b) \<in> set t)"
  by (induction k r t rule: tab_modify.induct) (force split: if_splits)+

lemma tab_modify_column:
  "map_of t k = Some r \<Longrightarrow> f r' = f r \<Longrightarrow> map (f \<circ> snd) (tab_modify k r' t) = map (f \<circ> snd) t"
  by (induction k r' t rule: tab_modify.induct) (auto split: if_splits)

lemma distinct_column:
  "distinct (map (f \<circ> snd) t) \<Longrightarrow> (a, r) \<in> set t \<Longrightarrow> (b, q) \<in> set t \<Longrightarrow> f r = f q \<Longrightarrow> a = b \<and> r = q"
  by (fastforce simp: distinct_map inj_on_def)

section \<open>Contract tables\<close>

text \<open>
  \<open>table_id_object\<close> is unique in code, scope and table; \<open>key_value_object\<close> is unique in table
  id and primary key. The keys are those of the rows; the ids are handed out in order.
\<close>

record table_id_object =
  table_id :: nat
  table_payer :: account_name
  table_count :: u32

record key_value_object =
  kv_payer :: account_name
  kv_value :: bytes

record contract_db =
  tables :: "(name \<times> name \<times> name, table_id_object) rows"
  next_table_id :: nat
  key_values :: "(nat \<times> 64 word, key_value_object) rows"

definition empty_contract_db :: contract_db where
  "empty_contract_db = \<lparr>tables = [], next_table_id = 0, key_values = []\<rparr>"

definition find_table ::
  "contract_db \<Rightarrow> name \<Rightarrow> name \<Rightarrow> name \<Rightarrow> table_id_object option" where
  "find_table db code scope tbl = map_of (tables db) (code, scope, tbl)"

definition find_or_create_table ::
  "name \<Rightarrow> name \<Rightarrow> name \<Rightarrow> account_name \<Rightarrow> contract_db
     \<Rightarrow> (table_id_object \<times> contract_db) res" where
  "find_or_create_table code scope tbl payer db =
     (case find_table db code scope tbl of
        Some existing_tid \<Rightarrow> Inr (existing_tid, db)
      | None \<Rightarrow>
          let t_id = \<lparr>table_id = next_table_id db, table_payer = payer, table_count = 0\<rparr> in
          ebind (tab_create (code, scope, tbl) t_id (tables db)) (\<lambda>ts.
          Inr (t_id, db\<lparr>tables := ts, next_table_id := next_table_id db + 1\<rparr>)))"

definition remove_table :: "name \<Rightarrow> name \<Rightarrow> name \<Rightarrow> contract_db \<Rightarrow> contract_db" where
  "remove_table code scope tbl db = db\<lparr>tables := tab_remove (code, scope, tbl) (tables db)\<rparr>"

text \<open>Storing a row: the payer is checked after the table has been found or created.\<close>

definition db_store_i64 ::
  "name \<Rightarrow> name \<Rightarrow> name \<Rightarrow> account_name \<Rightarrow> 64 word \<Rightarrow> bytes \<Rightarrow> contract_db
     \<Rightarrow> contract_db res" where
  "db_store_i64 code scope tbl payer i buffer db =
     ebind (find_or_create_table code scope tbl payer db) (\<lambda>(tab, db).
     eos_assert (payer \<noteq> 0) Invalid_table_payer
     (ebind (tab_create (table_id tab, i) \<lparr>kv_payer = payer, kv_value = buffer\<rparr> (key_values db)) (\<lambda>kvs.
      Inr (db\<lparr>key_values := kvs,
              tables := tab_modify (code, scope, tbl)
                (tab\<lparr>table_count := wrap32 (table_count tab + 1)\<rparr>) (tables db)\<rparr>))))"

text \<open>
  Reading a row: the size of the value when no buffer is given, otherwise the number of bytes
  copied, converted to \<open>int\<close>; with it the bytes that were copied.
\<close>

definition int_of_size :: "nat \<Rightarrow> int" where
  "int_of_size s = (let m = s mod 2 ^ 32 in if m < 2 ^ 31 then int m else int m - 2 ^ 32)"

definition db_get_i64 :: "key_value_object \<Rightarrow> nat \<Rightarrow> int \<times> bytes" where
  "db_get_i64 obj buffer_size =
     (let s = length (kv_value obj) in
      if buffer_size = 0 then (int_of_size s, [])
      else let copy_size = min buffer_size s in
           (int_of_size copy_size, take copy_size (kv_value obj)))"

definition max_stack_buffer_size :: nat where
  "max_stack_buffer_size = 512"

text \<open>
  \<open>memory_db::insert\<close> and \<open>memory_db::get\<close>, for a row type with the serialisation
  \<open>pack\<close>/\<open>unpack\<close> (\<open>fc::raw\<close>). A value larger than the stack buffer is read into allocated
  memory that is freed before it is unpacked.
\<close>

definition memory_db_insert ::
  "('r \<Rightarrow> bytes) \<Rightarrow> ('r \<Rightarrow> 64 word) \<Rightarrow> name \<Rightarrow> name \<Rightarrow> name \<Rightarrow> account_name \<Rightarrow> 'r
     \<Rightarrow> contract_db \<Rightarrow> contract_db res" where
  "memory_db_insert pack primary_key code scope tbl payer obj db =
     db_store_i64 code scope tbl payer (primary_key obj) (pack obj) db"

definition memory_db_get ::
  "(bytes \<Rightarrow> 'r res) \<Rightarrow> name \<Rightarrow> name \<Rightarrow> name \<Rightarrow> 64 word \<Rightarrow> contract_db \<Rightarrow> ('r option) res" where
  "memory_db_get unpack code scope tbl i db =
     (case find_table db code scope tbl of
        None \<Rightarrow> Inr None
      | Some tab \<Rightarrow>
          (case map_of (key_values db) (table_id tab, i) of
             None \<Rightarrow> Inr None
           | Some obj \<Rightarrow>
               let size = fst (db_get_i64 obj 0) in
               eos_assert (size \<ge> 0) Asset_type_exception
               (let buffer = snd (db_get_i64 obj (nat size)) in
                if max_stack_buffer_size < nat size then Inl Undefined_behaviour
                else ebind (unpack buffer) (\<lambda>out. Inr (Some out)))))"

definition eosio_contract_assert :: "bool \<Rightarrow> unit res" where
  "eosio_contract_assert condition =
     (if \<not> condition then Inl Eosio_assert_message_exception else Inr ())"

section \<open>The contract tables stay consistent\<close>

text \<open>
  Table ids are handed out once, every stored row belongs to an existing table, and the count
  of a table is the number of its rows.
\<close>

definition rows_of :: "nat \<Rightarrow> contract_db \<Rightarrow> nat" where
  "rows_of t db = length (filter (\<lambda>k. fst k = t) (tab_keys (key_values db)))"

definition contract_db_ok :: "contract_db \<Rightarrow> bool" where
  "contract_db_ok db \<longleftrightarrow>
     tab_ok (tables db) \<and> tab_ok (key_values db) \<and>
     distinct (map (table_id \<circ> snd) (tables db)) \<and>
     (\<forall>(k, t) \<in> set (tables db). table_id t < next_table_id db \<and>
        table_count t = wrap32 (rows_of (table_id t) db)) \<and>
     fst ` set (tab_keys (key_values db)) \<subseteq> (table_id \<circ> snd) ` set (tables db)"

lemma int_of_size_small [simp]: "s < 2 ^ 31 \<Longrightarrow> int_of_size s = int s"
  by (simp add: int_of_size_def Let_def)

lemma contract_db_okD:
  assumes "contract_db_ok db"
  shows "distinct (tab_keys (tables db))" "distinct (tab_keys (key_values db))"
    "distinct (map (table_id \<circ> snd) (tables db))"
    "(k, t) \<in> set (tables db) \<Longrightarrow> table_id t < next_table_id db"
    "(k, t) \<in> set (tables db) \<Longrightarrow> table_count t = wrap32 (rows_of (table_id t) db)"
    "(i, v) \<in> set (key_values db) \<Longrightarrow> fst i \<in> (table_id \<circ> snd) ` set (tables db)"
proof -
  show "fst i \<in> (table_id \<circ> snd) ` set (tables db)" if "(i, v) \<in> set (key_values db)"
  proof -
    from that have "fst i \<in> fst ` set (tab_keys (key_values db))" by force
    with assms show ?thesis unfolding contract_db_ok_def by blast
  qed
qed (use assms in \<open>auto simp: contract_db_ok_def tab_ok_def\<close>)

lemma rows_of_next:
  assumes "contract_db_ok db"
  shows "rows_of (next_table_id db) db = 0"
proof -
  have "fst k \<noteq> next_table_id db" if kv: "(k, v) \<in> set (key_values db)" for k v
  proof -
    from contract_db_okD(6) [OF assms kv] obtain x t
      where "(x, t) \<in> set (tables db)" "fst k = table_id t" by auto
    with contract_db_okD(4) [OF assms, of x t] show ?thesis by simp
  qed
  then show ?thesis by (auto simp: rows_of_def filter_empty_conv)
qed

lemma find_or_create_table_ok:
  assumes "contract_db_ok db" and "find_or_create_table code scope tbl payer db = Inr (tab, db1)"
  shows "contract_db_ok db1" "map_of (tables db1) (code, scope, tbl) = Some tab"
    "key_values db1 = key_values db"
    "k \<noteq> (code, scope, tbl) \<Longrightarrow> map_of (tables db1) k = map_of (tables db) k"
proof -
  consider (old) "find_table db code scope tbl = Some tab" "db1 = db"
    | (new) ts where "find_table db code scope tbl = None"
      "tab = \<lparr>table_id = next_table_id db, table_payer = payer, table_count = 0\<rparr>"
      "tab_create (code, scope, tbl) tab (tables db) = Inr ts"
      "db1 = db\<lparr>tables := ts, next_table_id := next_table_id db + 1\<rparr>"
    using assms(2) by (auto simp: find_or_create_table_def Let_def res_simps split: option.splits)
  then have "contract_db_ok db1 \<and> map_of (tables db1) (code, scope, tbl) = Some tab \<and>
    key_values db1 = key_values db \<and>
    (k \<noteq> (code, scope, tbl) \<longrightarrow> map_of (tables db1) k = map_of (tables db) k)"
  proof cases
    case old
    then show ?thesis using assms(1) by (simp add: find_table_def)
  next
    case new
    have tabs: "tables db1 = tables db @ [((code, scope, tbl), tab)]" "tab_ok (tables db1)"
      using new(3,4) contract_db_okD(1) [OF assms(1)] by (auto simp: tab_create_Inr tab_ok_def)
    have kvs: "key_values db1 = key_values db" "next_table_id db1 = next_table_id db + 1"
      by (simp_all add: new(4))
    then have rows: "rows_of i db1 = rows_of i db" for i by (simp add: rows_of_def)
    have less: "table_id t < next_table_id db" if "(k, t) \<in> set (tables db)" for k t
      using contract_db_okD(4) [OF assms(1) that] .
    have "contract_db_ok db1"
      unfolding contract_db_ok_def
    proof (intro conjI)
      show "distinct (map (table_id \<circ> snd) (tables db1))"
        using contract_db_okD(3) [OF assms(1)] less new(2) by (force simp: tabs(1))
      show "\<forall>(k, t)\<in>set (tables db1). table_id t < next_table_id db1 \<and>
        table_count t = wrap32 (rows_of (table_id t) db1)"
        using less contract_db_okD(5) [OF assms(1)] rows_of_next [OF assms(1)] new(2)
        by (auto simp: tabs(1) kvs(2) rows intro: less_SucI)
      show "fst ` set (tab_keys (key_values db1)) \<subseteq> (table_id \<circ> snd) ` set (tables db1)"
      proof -
        have "(table_id \<circ> snd) ` set (tables db) \<subseteq> (table_id \<circ> snd) ` set (tables db1)"
          by (rule image_mono) (simp add: tabs(1) subset_insertI)
        then show ?thesis
          using assms(1) unfolding contract_db_ok_def kvs(1) by (blast intro: order_trans)
      qed
    qed (use tabs(2) contract_db_okD(2) [OF assms(1)] in \<open>simp_all add: kvs(1) tab_ok_def\<close>)
    then show ?thesis
      using rows.create_find [OF new(3)] by (simp add: new(4))
  qed
  then show "contract_db_ok db1" "map_of (tables db1) (code, scope, tbl) = Some tab"
    "key_values db1 = key_values db"
    "k \<noteq> (code, scope, tbl) \<Longrightarrow> map_of (tables db1) k = map_of (tables db) k"
    by simp_all
qed

lemma db_store_i64_cases:
  assumes "db_store_i64 code scope tbl payer i buffer db = Inr db'"
  obtains tab db1 kvs where
    "find_or_create_table code scope tbl payer db = Inr (tab, db1)" "payer \<noteq> 0"
    "tab_create (table_id tab, i) \<lparr>kv_payer = payer, kv_value = buffer\<rparr> (key_values db1) = Inr kvs"
    "db' = db1\<lparr>key_values := kvs,
       tables := tab_modify (code, scope, tbl)
         (tab\<lparr>table_count := wrap32 (table_count tab + 1)\<rparr>) (tables db1)\<rparr>"
  using assms by (auto simp: db_store_i64_def res_simps)

lemma wrap32_Suc: "wrap32 (wrap32 n + 1) = wrap32 (n + 1)"
  by (simp add: wrap32_def mod_Suc_eq)

lemma db_store_i64_ok:
  assumes ok: "contract_db_ok db" and store: "db_store_i64 code scope tbl payer i buffer db = Inr db'"
  shows "contract_db_ok db'"
  using store
proof (rule db_store_i64_cases)
  fix tab :: table_id_object and db1 :: contract_db and kvs
  let ?k = "(code, scope, tbl)" and ?t = "tab\<lparr>table_count := wrap32 (table_count tab + 1)\<rparr>"
  assume foc: "find_or_create_table code scope tbl payer db = Inr (tab, db1)"
    and kvs: "tab_create (table_id tab, i) \<lparr>kv_payer = payer, kv_value = buffer\<rparr> (key_values db1) = Inr kvs"
    and db': "db' = db1\<lparr>key_values := kvs, tables := tab_modify ?k ?t (tables db1)\<rparr>"
  note ok1 = find_or_create_table_ok(1) [OF ok foc] and tab = find_or_create_table_ok(2) [OF ok foc]
  have mem: "(?k, tab) \<in> set (tables db1)" using tab by (rule map_of_SomeD)
  have next1: "next_table_id db' = next_table_id db1" by (simp add: db')
  have column: "map (table_id \<circ> snd) (tables db') = map (table_id \<circ> snd) (tables db1)"
    using tab_modify_column [OF tab, of table_id ?t] by (simp add: db')
  have rows: "rows_of t db' = rows_of t db1 + (if t = table_id tab then 1 else 0)" for t
    using kvs by (auto simp: rows_of_def db' tab_create_Inr)
  have "table_id t < next_table_id db' \<and> table_count t = wrap32 (rows_of (table_id t) db')"
    if "(k, t) \<in> set (tables db')" for k t
  proof -
    from that have "(k, t) \<in> set (tab_modify ?k ?t (tables db1))" by (simp add: db')
    from tab_modify_set [OF contract_db_okD(1) [OF ok1] this]
    consider "k = ?k" "t = ?t" | "k \<noteq> ?k" "(k, t) \<in> set (tables db1)" by blast
    then show ?thesis
    proof cases
      case 1
      then show ?thesis
        using contract_db_okD(4,5) [OF ok1 mem] rows [of "table_id tab"]
        by (simp add: next1 wrap32_Suc [simplified])
    next
      case 2
      then have "table_id t \<noteq> table_id tab"
        using distinct_column [OF contract_db_okD(3) [OF ok1] _ mem] by blast
      then show ?thesis
        using contract_db_okD(4,5) [OF ok1 2(2)] rows by (simp add: next1)
    qed
  qed
  moreover have "fst ` set (tab_keys kvs) \<subseteq> (table_id \<circ> snd) ` set (tables db')"
  proof -
    have img: "(table_id \<circ> snd) ` set (tables db') = (table_id \<circ> snd) ` set (tables db1)"
      using column by (metis set_map)
    have "fst ` set (tab_keys kvs) = insert (table_id tab) (fst ` set (tab_keys (key_values db1)))"
      using kvs by (simp add: tab_create_Inr)
    moreover have "table_id tab \<in> (table_id \<circ> snd) ` set (tables db1)"
      using mem by (force intro: rev_image_eqI)
    moreover have "fst ` set (tab_keys (key_values db1)) \<subseteq> (table_id \<circ> snd) ` set (tables db1)"
      using ok1 by (simp only: contract_db_ok_def)
    ultimately show ?thesis
      by (simp only: img insert_subset)
  qed
  moreover have "tab_ok (tables db')" "tab_ok (key_values db')"
    "distinct (map (table_id \<circ> snd) (tables db'))" "key_values db' = kvs"
    using contract_db_okD(1-3) [OF ok1] rows.create_ok [OF kvs]
    by (simp_all only: column) (simp_all add: tab_ok_def db')
  ultimately show ?thesis
    unfolding contract_db_ok_def by blast
qed


section \<open>Reading back what was stored\<close>

lemma memory_db_get_found:
  assumes "find_table db code scope tbl = Some tab"
    and "map_of (key_values db) (table_id tab, i) = Some obj" and "length (kv_value obj) < 2 ^ 31"
  shows "memory_db_get unpack code scope tbl i db =
    (if max_stack_buffer_size < length (kv_value obj) then Inl Undefined_behaviour
     else ebind (unpack (kv_value obj)) (\<lambda>out. Inr (Some out)))"
  using assms by (cases "length (kv_value obj) = 0") (simp_all add: memory_db_get_def db_get_i64_def Let_def)

lemma memory_db_get_cong:
  assumes "find_table db' code scope tbl = map_option f (find_table db code scope tbl)"
    and "\<And>t. find_table db code scope tbl = Some t \<Longrightarrow> table_id (f t) = table_id t \<and>
      map_of (key_values db') (table_id t, i) = map_of (key_values db) (table_id t, i)"
  shows "memory_db_get unpack code scope tbl i db' = memory_db_get unpack code scope tbl i db"
  using assms by (cases "find_table db code scope tbl") (simp_all add: memory_db_get_def)

text \<open>Storing a row under one key leaves what is read under every other key.\<close>

lemma db_store_i64_other:
  assumes ok: "contract_db_ok db" and store: "db_store_i64 code scope tbl payer i buffer db = Inr db'"
    and other: "(c, s, t, j) \<noteq> (code, scope, tbl, i)"
  shows "memory_db_get unpack c s t j db' = memory_db_get unpack c s t j db"
  using store
proof (rule db_store_i64_cases)
  fix tab :: table_id_object and db1 :: contract_db and kvs
  let ?k = "(code, scope, tbl)" and ?t = "tab\<lparr>table_count := wrap32 (table_count tab + 1)\<rparr>"
  assume foc: "find_or_create_table code scope tbl payer db = Inr (tab, db1)"
    and kvs: "tab_create (table_id tab, i) \<lparr>kv_payer = payer, kv_value = buffer\<rparr> (key_values db1) = Inr kvs"
    and db': "db' = db1\<lparr>key_values := kvs, tables := tab_modify ?k ?t (tables db1)\<rparr>"
  note ok1 = find_or_create_table_ok(1) [OF ok foc] and tab = find_or_create_table_ok(2) [OF ok foc]
  have same1: "memory_db_get unpack c s t j db1 = memory_db_get unpack c s t j db"
  proof (cases "find_table db code scope tbl")
    case None
    with foc have "table_id tab = next_table_id db" "key_values db1 = key_values db"
      by (auto simp: find_or_create_table_def Let_def res_simps)
    with rows_of_next [OF ok] have "map_of (key_values db1) (table_id tab, j) = None"
      by (auto simp: rows_of_def filter_empty_conv map_of_eq_None_iff)
    moreover have "find_table db1 c s t = map_option id (find_table db c s t)" if "(c, s, t) \<noteq> ?k"
      using find_or_create_table_ok(4) [OF ok foc that] by (simp add: find_table_def option.map_id)
    ultimately show ?thesis
      using None tab find_or_create_table_ok(3) [OF ok foc] memory_db_get_cong [of db1 c s t id db j unpack]
      by (cases "(c, s, t) = ?k") (simp_all add: memory_db_get_def find_table_def)
  next
    case (Some x)
    with foc show ?thesis by (simp add: find_or_create_table_def)
  qed
  moreover have "memory_db_get unpack c s t j db' = memory_db_get unpack c s t j db1"
  proof (rule memory_db_get_cong)
    let ?f = "\<lambda>x. if (c, s, t) = ?k then ?t else x"
    show "find_table db' c s t = map_option ?f (find_table db1 c s t)"
      using tab by (cases "find_table db1 c s t") (auto simp: find_table_def db' rows.modify_find)
    show "table_id (?f x) = table_id x \<and>
      map_of (key_values db') (table_id x, j) = map_of (key_values db1) (table_id x, j)"
      if x: "find_table db1 c s t = Some x" for x
    proof -
      have "((c, s, t), x) \<in> set (tables db1)" "(?k, tab) \<in> set (tables db1)"
        using x tab by (auto simp: find_table_def dest: map_of_SomeD)
      then have "(table_id x, j) \<noteq> (table_id tab, i)"
        using distinct_column [OF contract_db_okD(3) [OF ok1]] other by fastforce
      then show ?thesis
        using x tab rows.create_find [OF kvs] by (auto simp: find_table_def db')
    qed
  qed
  ultimately show ?thesis by simp
qed

lemma db_store_i64_same:
  assumes ok: "contract_db_ok db" and store: "db_store_i64 code scope tbl payer i buffer db = Inr db'"
    and small: "length buffer < 2 ^ 31"
  shows "memory_db_get unpack code scope tbl i db' =
    (if max_stack_buffer_size < length buffer then Inl Undefined_behaviour
     else ebind (unpack buffer) (\<lambda>out. Inr (Some out)))"
  using store
proof (rule db_store_i64_cases)
  fix tab :: table_id_object and db1 :: contract_db and kvs
  let ?k = "(code, scope, tbl)" and ?t = "tab\<lparr>table_count := wrap32 (table_count tab + 1)\<rparr>"
  let ?row = "\<lparr>kv_payer = payer, kv_value = buffer\<rparr>"
  assume foc: "find_or_create_table code scope tbl payer db = Inr (tab, db1)"
    and kvs: "tab_create (table_id tab, i) ?row (key_values db1) = Inr kvs"
    and db': "db' = db1\<lparr>key_values := kvs, tables := tab_modify ?k ?t (tables db1)\<rparr>"
  have "find_table db' code scope tbl = Some ?t"
    using find_or_create_table_ok(2) [OF ok foc] by (simp add: find_table_def db' rows.modify_find)
  moreover have "map_of (key_values db') (table_id ?t, i) = Some ?row"
    using rows.create_find [OF kvs] by (simp add: db')
  ultimately show ?thesis
    using memory_db_get_found [of db' code scope tbl ?t i ?row unpack] small by simp
qed

text \<open>
  C39. On consistent contract tables, a row inserted through \<open>memory_db\<close> is read back as it was
  when it fits the stack buffer, the tables stay consistent and every other row reads as before;
  when it does not fit, the read unpacks memory that has been freed.
\<close>

theorem memory_db_round_trip:
  assumes "contract_db_ok db" and "unpack (pack obj) = Inr obj" and "length (pack obj) < 2 ^ 31"
    and "memory_db_insert pack primary_key code scope tbl payer obj db = Inr db'"
  shows "contract_db_ok db' \<and>
    memory_db_get unpack code scope tbl (primary_key obj) db' =
      (if max_stack_buffer_size < length (pack obj) then Inl Undefined_behaviour else Inr (Some obj)) \<and>
    (\<forall>c s t j. (c, s, t, j) \<noteq> (code, scope, tbl, primary_key obj) \<longrightarrow>
      memory_db_get unpack c s t j db' = memory_db_get unpack c s t j db)"
proof -
  from assms(4) have "db_store_i64 code scope tbl payer (primary_key obj) (pack obj) db = Inr db'"
    by (simp add: memory_db_insert_def)
  note stored = db_store_i64_ok [OF assms(1) this] db_store_i64_same [OF assms(1) this assms(3)]
    db_store_i64_other [OF assms(1) this]
  show ?thesis
    using stored(1) stored(2) [of unpack] stored(3) [where unpack = unpack] assms(2) by simp
qed

text \<open>A row that is its own serialisation, under the key of its first byte.\<close>

definition sample_row_key :: "bytes \<Rightarrow> 64 word" where
  "sample_row_key r = (case r of [] \<Rightarrow> 0 | b # _ \<Rightarrow> ucast b)"

theorem memory_db_round_trip_witness:
  "\<exists>db'. memory_db_insert id sample_row_key 1 2 3 4 [7, 9] empty_contract_db = Inr db' \<and>
     memory_db_get Inr 1 2 3 7 db' = Inr (Some [7, 9])"
proof -
  have "contract_db_ok empty_contract_db"
    by (simp add: contract_db_ok_def tab_ok_def empty_contract_db_def)
  moreover obtain db' where "memory_db_insert id sample_row_key 1 2 3 4 [7, 9] empty_contract_db = Inr db'"
    by (simp add: memory_db_insert_def db_store_i64_def find_or_create_table_def find_table_def
        empty_contract_db_def tab_create_def Let_def)
  ultimately show ?thesis
    using memory_db_round_trip [of empty_contract_db Inr id "[7, 9]" sample_row_key 1 2 3 4 db']
    by (simp add: sample_row_key_def max_stack_buffer_size_def)
qed

end
