(* ===== verification/Chain_Constants.thy ===== *)
theory Chain_Constants
  imports Block_Header
begin

text \<open>
  The account names and configuration types that the code compares with (\<open>config.hpp.in\<close>,
  \<open>config_on_chain.hpp\<close>), with their numeric values.
\<close>

section \<open>Constants\<close>

text \<open>
  The accounts of \<open>config.hpp\<close>, with the root account that the build sets
  (\<open>CMakeLists.txt\<close>), and the types of configuration values.
\<close>

definition system_account_name :: name where "system_account_name = string_to_name ''codex''"
definition producers_account_name :: name where "producers_account_name = string_to_name ''codex.prods''"
definition chain_config_name :: name where "chain_config_name = string_to_name ''codex.config''"
definition token_account_name :: name where "token_account_name = string_to_name ''codex.token''"
definition msig_account_name :: name where "msig_account_name = string_to_name ''codex.msig''"
definition bios_account_name :: name where "bios_account_name = string_to_name ''codex.bios''"
definition relay_account_name :: name where "relay_account_name = string_to_name ''codex.relay''"

definition ram_rent_b_per_eos :: name where "ram_rent_b_per_eos = string_to_name ''res.ramrent''"
definition chain_maintain_stat :: name where "chain_maintain_stat = string_to_name ''f.maintain''"
definition list_actor_black :: name where "list_actor_black = string_to_name ''l.actblack''"
definition list_contract_black :: name where "list_contract_black = string_to_name ''l.crtblack''"
definition list_resource_grey :: name where "list_resource_grey = string_to_name ''l.resgrey''"
definition gmr_cpu :: name where "gmr_cpu = string_to_name ''gmr.cpu''"
definition gmr_ram :: name where "gmr_ram = string_to_name ''gmr.ram''"
definition gmr_net :: name where "gmr_net = string_to_name ''gmr.net''"

text \<open>Their values, so that comparisons between them compute.\<close>

lemma constant_values:
  "system_account_name = 0x4512ae8000000000"
  "producers_account_name = 0x4512ae82b7a27000"
  "chain_config_name = 0x4512ae81149adcc0"
  "token_account_name = 0x4512ae833482a600"
  "msig_account_name = 0x4512ae8258730000"
  "bios_account_name = 0x4512ae80eea60000"
  "relay_account_name = 0x4512ae82ea89bc00"
  "ram_rent_b_per_eos = 0xbab00b9a5754f200"
  "chain_maintain_stat = 0x5824674f2674c000"
  "list_actor_black = 0x880c8c9e26440000"
  "list_contract_black = 0x88117c9e26440000"
  "list_resource_grey = 0x882eac32eaf00000"
  "gmr_cpu = 0x64ae045740000000"
  "gmr_ram = 0x64ae0b9a40000000"
  "gmr_net = 0x64ae09ab20000000"
  by (simp_all add: string_to_name_def c_str_def c_char_def char_to_symbol_def eval_nat_numeral
      system_account_name_def producers_account_name_def chain_config_name_def token_account_name_def msig_account_name_def
      bios_account_name_def relay_account_name_def ram_rent_b_per_eos_def chain_maintain_stat_def list_actor_black_def
      list_contract_black_def list_resource_grey_def gmr_cpu_def gmr_ram_def gmr_net_def)

text \<open>Permission names, and the names of the native actions (\<open>contract_types.hpp\<close>).\<close>

definition null_account_name :: name where "null_account_name = string_to_name ''codex.null''"
definition eosio_any_name :: name where "eosio_any_name = string_to_name ''codex.any''"
definition eosio_code_name :: name where "eosio_code_name = string_to_name ''codex.code''"
definition active_name :: name where "active_name = string_to_name ''active''"
definition owner_name :: name where "owner_name = string_to_name ''owner''"
definition majority_producers_permission_name :: name where "majority_producers_permission_name = string_to_name ''prod.major''"
definition minority_producers_permission_name :: name where "minority_producers_permission_name = string_to_name ''prod.minor''"
definition newaccount_name :: name where "newaccount_name = string_to_name ''newaccount''"
definition setconfig_name :: name where "setconfig_name = string_to_name ''setconfig''"
definition setcode_name :: name where "setcode_name = string_to_name ''setcode''"
definition setfee_name :: name where "setfee_name = string_to_name ''setfee''"
definition setabi_name :: name where "setabi_name = string_to_name ''setabi''"
definition updateauth_name :: name where "updateauth_name = string_to_name ''updateauth''"
definition deleteauth_name :: name where "deleteauth_name = string_to_name ''deleteauth''"
definition linkauth_name :: name where "linkauth_name = string_to_name ''linkauth''"
definition unlinkauth_name :: name where "unlinkauth_name = string_to_name ''unlinkauth''"
definition canceldelay_name :: name where "canceldelay_name = string_to_name ''canceldelay''"

lemma permission_constant_values:
  "null_account_name = 0x4512ae827a8c4000"
  "eosio_any_name = 0x4512ae80d3f00000"
  "eosio_code_name = 0x4512ae81144a8000"
  "active_name = 0x3232eda800000000"
  "owner_name = 0xa726ab8000000000"
  "majority_producers_permission_name = 0xade89048cfa5c000"
  "minority_producers_permission_name = 0xade89049d3a5c000"
  "newaccount_name = 0x9ab864229a9e4000"
  "setconfig_name = 0xc2b28a4d6e600000"
  "setcode_name = 0xc2b28a2540000000"
  "setfee_name = 0xc2b2b52800000000"
  "setabi_name = 0xc2b263b800000000"
  "updateauth_name = 0xd5526ca8dacb4000"
  "deleteauth_name = 0x4aa2aca8dacb4000"
  "linkauth_name = 0x8ba7036b2d000000"
  "unlinkauth_name = 0xd4e2e9c0dacb4000"
  "canceldelay_name = 0x41a685452a89bc00"
  by (simp_all add: string_to_name_def c_str_def c_char_def char_to_symbol_def eval_nat_numeral
      null_account_name_def eosio_any_name_def eosio_code_name_def active_name_def owner_name_def
      majority_producers_permission_name_def minority_producers_permission_name_def newaccount_name_def
      setconfig_name_def setcode_name_def setfee_name_def setabi_name_def updateauth_name_def
      deleteauth_name_def linkauth_name_def unlinkauth_name_def canceldelay_name_def)

end
