(* ===== verification/Chain_Config.thy ===== *)
theory Chain_Config
  imports Chain_Tables Chain_Constants Chain_Assets "HOL-Library.Product_Lexorder"
begin

text \<open>
  The configuration of the chain: the parameters voted by the producers (\<open>chain_config.hpp\<close>,
  \<open>chain_config.cpp\<close>), the name lists, the values kept on chain (\<open>config_on_chain.cpp\<close>) with
  the switches derived from them, and the fees of actions (\<open>txfee_manager.cpp\<close>).
\<close>

section \<open>Producer-voted parameters\<close>

record chain_config =
  max_block_net_usage :: u64
  target_block_net_usage_pct :: u32
  max_transaction_net_usage :: u32
  base_per_transaction_net_usage :: u32
  net_usage_leeway :: u32
  context_free_discount_net_usage_num :: u32
  context_free_discount_net_usage_den :: u32
  max_block_cpu_usage :: u32
  target_block_cpu_usage_pct :: u32
  max_transaction_cpu_usage :: u32
  min_transaction_cpu_usage :: u32
  max_transaction_lifetime :: u32
  deferred_trx_expiration_window :: u32
  max_transaction_delay :: u32
  max_inline_action_size :: u32
  max_inline_action_depth :: u16
  max_authority_depth :: u16

definition percent_100 :: nat where "percent_100 = 10000"
definition percent_1 :: nat where "percent_1 = 100"

definition min_net_usage_delta_between_base_and_max_for_trx :: u32 where
  "min_net_usage_delta_between_base_and_max_for_trx = 10 * 1024"

definition chain_config_validate :: "chain_config \<Rightarrow> unit res" where
  "chain_config_validate c =
     eos_assert (target_block_net_usage_pct c \<le> percent_100) Action_validate_exception
     (eos_assert (target_block_net_usage_pct c \<ge> percent_1 div 10) Action_validate_exception
     (eos_assert (target_block_cpu_usage_pct c \<le> percent_100) Action_validate_exception
     (eos_assert (target_block_cpu_usage_pct c \<ge> percent_1 div 10) Action_validate_exception
     (eos_assert (max_transaction_net_usage c < max_block_net_usage c) Action_validate_exception
     (eos_assert (max_transaction_cpu_usage c < max_block_cpu_usage c) Action_validate_exception
     (eos_assert (base_per_transaction_net_usage c < max_transaction_net_usage c) Action_validate_exception
     (eos_assert (sub32 (max_transaction_net_usage c) (base_per_transaction_net_usage c)
          \<ge> min_net_usage_delta_between_base_and_max_for_trx) Action_validate_exception
     (eos_assert (context_free_discount_net_usage_den c > 0) Action_validate_exception
     (eos_assert (context_free_discount_net_usage_num c \<le> context_free_discount_net_usage_den c)
          Action_validate_exception
     (eos_assert (min_transaction_cpu_usage c \<le> max_transaction_cpu_usage c) Action_validate_exception
     (eos_assert (max_transaction_cpu_usage c <
          sub32 (max_block_cpu_usage c) (min_transaction_cpu_usage c)) Action_validate_exception
     (eos_assert (1 \<le> max_authority_depth c) Action_validate_exception (Inr ())))))))))))))"

text \<open>The comparison operator: field by field, as the two tuples list them.\<close>

definition chain_config_eq :: "chain_config \<Rightarrow> chain_config \<Rightarrow> bool" where
  "chain_config_eq lhs rhs \<longleftrightarrow>
     max_block_net_usage lhs = max_block_net_usage rhs \<and>
     target_block_net_usage_pct lhs = target_block_net_usage_pct rhs \<and>
     max_transaction_net_usage lhs = max_transaction_net_usage rhs \<and>
     base_per_transaction_net_usage lhs = base_per_transaction_net_usage rhs \<and>
     net_usage_leeway lhs = net_usage_leeway rhs \<and>
     context_free_discount_net_usage_num lhs = context_free_discount_net_usage_num rhs \<and>
     context_free_discount_net_usage_den lhs = context_free_discount_net_usage_den rhs \<and>
     max_block_cpu_usage lhs = max_block_cpu_usage rhs \<and>
     target_block_cpu_usage_pct lhs = target_block_cpu_usage_pct rhs \<and>
     max_transaction_cpu_usage lhs = max_transaction_cpu_usage rhs \<and>
     max_transaction_cpu_usage lhs = max_transaction_cpu_usage rhs \<and>
     max_transaction_lifetime lhs = max_transaction_lifetime rhs \<and>
     deferred_trx_expiration_window lhs = deferred_trx_expiration_window rhs \<and>
     max_transaction_delay lhs = max_transaction_delay rhs \<and>
     max_inline_action_size lhs = max_inline_action_size rhs \<and>
     max_inline_action_depth lhs = max_inline_action_depth rhs \<and>
     max_authority_depth lhs = max_authority_depth rhs"

definition chain_config_neq :: "chain_config \<Rightarrow> chain_config \<Rightarrow> bool" where
  "chain_config_neq lhs rhs \<longleftrightarrow> \<not> chain_config_eq lhs rhs"

section \<open>Name lists\<close>

text \<open>
  The lists in the database are vectors; those of the node's configuration are flat sets of
  names in ascending order.
\<close>

record chain_list_config =
  actor_blacklist :: "account_name list"
  contract_blacklist :: "account_name list"
  resource_greylist :: "account_name list"

definition chain_list_config_validate :: "chain_list_config \<Rightarrow> unit res" where
  "chain_list_config_validate l =
     eos_assert (u64_max > length (actor_blacklist l)) Action_validate_exception
     (eos_assert (u64_max > length (contract_blacklist l)) Action_validate_exception
     (eos_assert (u64_max > length (resource_greylist l)) Action_validate_exception (Inr ())))"

datatype list_type =
  Actor_blacklist_type | Contract_blacklist_type | Resource_greylist_type | List_type_count

datatype list_action_type = Insert_type | Remove_type | List_action_type_count

record list_state =
  conf_lists :: chain_list_config
  force_lists :: chain_list_config

fun get_list :: "list_type \<Rightarrow> chain_list_config \<Rightarrow> account_name list res" where
  "get_list Actor_blacklist_type c = Inr (actor_blacklist c)"
| "get_list Contract_blacklist_type c = Inr (contract_blacklist c)"
| "get_list Resource_greylist_type c = Inr (resource_greylist c)"
| "get_list List_type_count c = Inl Transaction_exception"

fun put_list :: "list_type \<Rightarrow> account_name list \<Rightarrow> chain_list_config \<Rightarrow> chain_list_config" where
  "put_list Actor_blacklist_type l c = c\<lparr>actor_blacklist := l\<rparr>"
| "put_list Contract_blacklist_type l c = c\<lparr>contract_blacklist := l\<rparr>"
| "put_list Resource_greylist_type l c = c\<lparr>resource_greylist := l\<rparr>"
| "put_list List_type_count l c = c"

abbreviation name_less :: "account_name \<Rightarrow> account_name \<Rightarrow> bool" where
  "name_less \<equiv> (<)"

definition flat_insert_all :: "account_name list \<Rightarrow> account_name list \<Rightarrow> account_name list" where
  "flat_insert_all names s = foldl (\<lambda>s v. flat_insert name_less v s) s names"

text \<open>\<open>std::set_difference\<close> of two sorted ranges.\<close>

fun set_difference :: "('a \<Rightarrow> 'a \<Rightarrow> bool) \<Rightarrow> 'a list \<Rightarrow> 'a list \<Rightarrow> 'a list" where
  "set_difference lt [] ys = []"
| "set_difference lt xs [] = xs"
| "set_difference lt (x # xs) (y # ys) =
     (if lt x y then x # set_difference lt xs (y # ys)
      else if lt y x then set_difference lt (x # xs) ys
      else set_difference lt xs ys)"

definition sync_list_and_db :: "list_type \<Rightarrow> bool \<Rightarrow> list_state \<Rightarrow> list_state res" where
  "sync_list_and_db lst is_merge s =
     ebind (get_list lst (force_lists s)) (\<lambda>lo.
     ebind (get_list lst (conf_lists s)) (\<lambda>clo.
     let clo = (if is_merge then flat_insert_all lo clo else clo) in
     Inr (s\<lparr>conf_lists := put_list lst clo (conf_lists s),
            force_lists := put_list lst clo (force_lists s)\<rparr>)))"

definition set_name_list ::
  "list_type \<Rightarrow> list_action_type \<Rightarrow> account_name list \<Rightarrow> list_state \<Rightarrow> list_state res" where
  "set_name_list lst act name_list s =
     ebind (get_list lst (conf_lists s)) (\<lambda>lo.
     let lo = (case act of
                 Insert_type \<Rightarrow> flat_insert_all name_list lo
               | Remove_type \<Rightarrow>
                   flat_insert_all (set_difference name_less lo (flat_insert_all name_list [])) []
               | List_action_type_count \<Rightarrow> lo) in
     sync_list_and_db lst False (s\<lparr>conf_lists := put_list lst lo (conf_lists s)\<rparr>))"

section \<open>Values kept on chain\<close>

record config_data_object =
  cfg_num :: i64
  cfg_key :: account_name
  cfg_fee :: asset

record setconfig =
  set_typ :: account_name
  set_num :: i64
  set_key :: account_name
  set_fee :: asset

type_synonym config_data = "(account_name, config_data_object) rows"

definition get_num_config_on_chain :: "config_data \<Rightarrow> name \<Rightarrow> i64 \<Rightarrow> i64" where
  "get_num_config_on_chain db typ default_value =
     (case map_of db typ of None \<Rightarrow> default_value | Some cfg \<Rightarrow> cfg_num cfg)"

text \<open>
  A row made by \<open>set_num_config_on_chain\<close> has the default key and fee: the empty name and no
  amount of the core symbol.
\<close>

definition core_symbol :: symbol where
  "core_symbol = (case string_to_symbol 4 ''CDX'' of Inl _ \<Rightarrow> 0 | Inr v \<Rightarrow> v)"

definition core_asset :: "i64 \<Rightarrow> asset" where
  "core_asset a = \<lparr>amount = a, sym = core_symbol\<rparr>"

definition set_num_config_on_chain :: "name \<Rightarrow> i64 \<Rightarrow> config_data \<Rightarrow> config_data res" where
  "set_num_config_on_chain typ num db =
     (case map_of db typ of
        None \<Rightarrow> tab_create typ \<lparr>cfg_num = num, cfg_key = 0, cfg_fee = core_asset 0\<rparr> db
      | Some c \<Rightarrow> Inr (tab_modify typ (c\<lparr>cfg_num := num\<rparr>) db))"

definition set_config_on_chain :: "setconfig \<Rightarrow> config_data \<Rightarrow> config_data res" where
  "set_config_on_chain cfg db =
     (case map_of db (set_typ cfg) of
        None \<Rightarrow> tab_create (set_typ cfg)
          \<lparr>cfg_num = set_num cfg, cfg_key = set_key cfg, cfg_fee = set_fee cfg\<rparr> db
      | Some c \<Rightarrow> Inr (tab_modify (set_typ cfg)
          (c\<lparr>cfg_num := set_num cfg, cfg_key := set_key cfg, cfg_fee := set_fee cfg\<rparr>) db))"

definition is_func_has_open :: "u32 \<Rightarrow> config_data \<Rightarrow> name \<Rightarrow> i64 \<Rightarrow> bool" where
  "is_func_has_open head_block_num db func_typ default_open_block =
     (let head_num = int head_block_num; open_num = get_num_config_on_chain db func_typ (-1) in
      head_num \<ge> 0 \<and> ((open_num \<ge> 0 \<and> head_num \<ge> open_num) \<or>
        (open_num = -1 \<and> default_open_block \<noteq> 0 \<and> head_num \<ge> default_open_block)))"

definition is_func_open_in_curr_block :: "u32 \<Rightarrow> config_data \<Rightarrow> name \<Rightarrow> i64 \<Rightarrow> bool" where
  "is_func_open_in_curr_block head_block_num db func_typ default_open_block =
     (let head_num = int head_block_num; open_num = get_num_config_on_chain db func_typ (-1) in
      if open_num < 0 then default_open_block > 0 \<and> head_num = default_open_block
      else if head_num < 0 then False
      else head_num = open_num)"

definition set_list_config_on_chain :: "setconfig \<Rightarrow> list_state \<Rightarrow> list_state res" where
  "set_list_config_on_chain cfg s =
     (let set_type =
        (if set_typ cfg = list_actor_black then Actor_blacklist_type
         else if set_typ cfg = list_contract_black then Contract_blacklist_type
         else if set_typ cfg = list_resource_grey then Resource_greylist_type
         else List_type_count) in
      if set_type = List_type_count then Inr s
      else if set_num cfg = 1 then set_name_list set_type Insert_type [set_key cfg] s
      else if set_num cfg = 2 then set_name_list set_type Remove_type [set_key cfg] s
      else Inr s)"

text \<open>
  While the chain is stopped for maintenance, only configuration, the block action and the fee
  action are let through (\<open>controller_impl::check_action\<close>). An action is given by its account
  and its name.
\<close>

definition check_action :: "u32 \<Rightarrow> config_data \<Rightarrow> (account_name \<times> name) list \<Rightarrow> unit res" where
  "check_action head_block_num db actions =
     (let is_stop = is_func_has_open head_block_num db chain_maintain_stat 0 in
      efold (\<lambda>(account, act) u.
        eos_assert (\<not> is_stop \<or>
          (account = system_account_name \<and>
             (act = string_to_name ''setconfig'' \<or> act = string_to_name ''onblock'') \<or>
           (account = token_account_name \<and> act = string_to_name ''fee'')))
          Invalid_action_args_exception (Inr u)) actions ())"

section \<open>Fees\<close>

record action_fee_object =
  fee :: asset
  cpu_limit :: u32
  net_limit :: u32
  ram_limit :: u32

type_synonym fee_table = "(account_name \<times> name, action_fee_object) rows"

text \<open>
  The native fees that the constructor of \<open>txfee_manager\<close> enters, in its order; a later entry
  for the same action would replace an earlier one.
\<close>

definition native_fees :: "(name \<times> string \<times> int) list" where
  "native_fees =
    [(system_account_name, ''newaccount'', 1000), (system_account_name, ''updateauth'', 1000),
     (system_account_name, ''deleteauth'', 1000), (system_account_name, ''transfer'', 100),
     (system_account_name, ''vote'', 1000), (system_account_name, ''voteproducer'', 1000),
     (system_account_name, ''freeze'', 500), (system_account_name, ''unfreeze'', 100),
     (system_account_name, ''vote4ram'', 500), (system_account_name, ''claim'', 300),
     (system_account_name, ''updatebp'', 100 * 10000), (system_account_name, ''setemergency'', 10 * 10000),
     (system_account_name, ''addmortgage'', 5 * 10000), (system_account_name, ''claimmortgage'', 5 * 10000),
     (system_account_name, ''claimvote'', 300), (system_account_name, ''claimbp'', 300),
     (system_account_name, ''claimdevelop'', 300), (system_account_name, ''setparams'', 100 * 10000),
     (system_account_name, ''removebp'', 100 * 10000), (token_account_name, ''transfer'', 100),
     (token_account_name, ''issue'', 100), (token_account_name, ''create'', 10 * 10000),
     (token_account_name, ''trade'', 100), (token_account_name, ''castcoin'', 100),
     (token_account_name, ''takecoin'', 1000), (system_account_name, ''setabi'', 1000),
     (system_account_name, ''setfee'', 1000), (system_account_name, ''setcode'', 1000),
     (system_account_name, ''setconfig'', 100), (system_account_name, ''canceldelay'', 5000),
     (system_account_name, ''linkauth'', 5000), (system_account_name, ''unlinkauth'', 5000),
     (msig_account_name, ''propose'', 15000), (msig_account_name, ''approve'', 10000),
     (msig_account_name, ''unapprove'', 10000), (msig_account_name, ''cancel'', 10000),
     (msig_account_name, ''exec'', 10000), (relay_account_name, ''commit'', 15000),
     (relay_account_name, ''newchannel'', 100 * 10000), (relay_account_name, ''newmap'', 100 * 10000)]"

definition fee_map :: "(account_name \<times> name, asset) rows" where
  "fee_map = foldl (\<lambda>m (acc, act, f). fm_set (acc, string_to_name act) (core_asset f) m) [] native_fees"

definition get_native_fee :: "account_name \<Rightarrow> name \<Rightarrow> asset" where
  "get_native_fee acc act = (case map_of fee_map (acc, act) of Some f \<Rightarrow> f | None \<Rightarrow> core_asset 0)"

definition get_required_fee_action :: "fee_table \<Rightarrow> account_name \<Rightarrow> name \<Rightarrow> asset res" where
  "get_required_fee_action db account act =
     (let native_fee = get_native_fee account act;
          native = (if \<not> asset_eq native_fee (core_asset 0) then Inr native_fee
                    else Inl Action_validate_exception) in
      case map_of db (account, act) of
        Some f \<Rightarrow> if \<not> asset_eq (fee f) (core_asset 0) then Inr (fee f) else native
      | None \<Rightarrow> native)"

definition get_required_fee :: "fee_table \<Rightarrow> (account_name \<times> name) list \<Rightarrow> asset res" where
  "get_required_fee db actions =
     efold (\<lambda>(account, act) total.
       ebind (get_required_fee_action db account act) (\<lambda>f. asset_add_assign total f))
       actions (core_asset 0)"

section \<open>What a valid configuration guarantees\<close>

text \<open>
  C23. A configuration passes validation exactly when, over the integers, the percentages lie
  between 0.1% and 100%, the net limits are nested with at least 10 KB between the base and the
  maximum of a transaction, the discount is a ratio of at most one, a transaction of maximal
  cpu usage still leaves room in a block for one of minimal usage, and the authority depth is
  positive. The unsigned subtractions of the code never wrap on the way.
\<close>

theorem chain_config_validate_exact:
  assumes "max_transaction_net_usage c < 2 ^ 32" and "max_block_cpu_usage c < 2 ^ 32"
  shows "chain_config_validate c = Inr () \<longleftrightarrow>
    target_block_net_usage_pct c \<in> {10..10000} \<and> target_block_cpu_usage_pct c \<in> {10..10000} \<and>
    base_per_transaction_net_usage c + 10240 \<le> max_transaction_net_usage c \<and>
    max_transaction_net_usage c < max_block_net_usage c \<and>
    0 < context_free_discount_net_usage_den c \<and>
    context_free_discount_net_usage_num c \<le> context_free_discount_net_usage_den c \<and>
    min_transaction_cpu_usage c \<le> max_transaction_cpu_usage c \<and>
    min_transaction_cpu_usage c + max_transaction_cpu_usage c < max_block_cpu_usage c \<and>
    0 < max_authority_depth c"
proof -
  have net: "sub32 (max_transaction_net_usage c) (base_per_transaction_net_usage c) =
      max_transaction_net_usage c - base_per_transaction_net_usage c"
    if "base_per_transaction_net_usage c < max_transaction_net_usage c"
    using that assms(1) by (simp add: sub32_id)
  have cpu: "sub32 (max_block_cpu_usage c) (min_transaction_cpu_usage c) =
      max_block_cpu_usage c - min_transaction_cpu_usage c"
    if "min_transaction_cpu_usage c \<le> max_transaction_cpu_usage c"
      "max_transaction_cpu_usage c < max_block_cpu_usage c"
    using that assms(2) by (simp add: sub32_id)
  show ?thesis
    using net cpu
    by (auto simp: chain_config_validate_def res_simps percent_100_def percent_1_def
        min_net_usage_delta_between_base_and_max_for_trx_def)
qed

text \<open>The defaults of \<open>config.hpp\<close>, as the genesis state uses them.\<close>

definition default_chain_config :: chain_config where
  "default_chain_config =
     \<lparr>max_block_net_usage = 1024 * 1024, target_block_net_usage_pct = 10 * percent_1,
      max_transaction_net_usage = 1024 * 1024 div 2, base_per_transaction_net_usage = 12,
      net_usage_leeway = 500, context_free_discount_net_usage_num = 20,
      context_free_discount_net_usage_den = 100, max_block_cpu_usage = 1000000,
      target_block_cpu_usage_pct = 10 * percent_1, max_transaction_cpu_usage = 3 * 1000000 div 4,
      min_transaction_cpu_usage = 100, max_transaction_lifetime = 60 * 60,
      deferred_trx_expiration_window = 10 * 60, max_transaction_delay = 45 * 24 * 3600,
      max_inline_action_size = 256 * 1024, max_inline_action_depth = 4, max_authority_depth = 6\<rparr>"

theorem chain_config_validate_exact_witness:
  "chain_config_validate default_chain_config = Inr ()"
  using chain_config_validate_exact [of default_chain_config]
  by (simp add: default_chain_config_def percent_1_def)

text \<open>
  The comparison of configurations ignores the minimal cpu usage of a transaction and
  compares every other parameter: two configurations that differ in it alone count as equal.
\<close>

theorem chain_config_eq_exact:
  "chain_config_eq a b \<longleftrightarrow>
     a\<lparr>min_transaction_cpu_usage := 0\<rparr> = b\<lparr>min_transaction_cpu_usage := 0\<rparr>"
  by (cases a, cases b) (auto simp: chain_config_eq_def)

section \<open>The name lists stay ordered and in step with the database\<close>

interpretation names: strict_linear_order name_less
  by unfold_locales auto

definition lists_ok :: "list_state \<Rightarrow> bool" where
  "lists_ok s \<longleftrightarrow> conf_lists s = force_lists s \<and>
     sorted_wrt (<) (actor_blacklist (conf_lists s)) \<and>
     sorted_wrt (<) (contract_blacklist (conf_lists s)) \<and>
     sorted_wrt (<) (resource_greylist (conf_lists s))"

lemma flat_insert_all:
  "sorted_wrt (<) s \<Longrightarrow> sorted_wrt (<) (flat_insert_all ns s)"
  "sorted_wrt (<) s \<Longrightarrow> set (flat_insert_all ns s) = set s \<union> set ns"
  unfolding flat_insert_all_def using names.fold_flat_insert [of s ns] by simp_all

lemma set_difference_subset: "set (set_difference lt xs ys) \<subseteq> set xs"
  by (induction lt xs ys rule: set_difference.induct) auto

lemma set_set_difference:
  fixes xs ys :: "'a :: linorder list"
  shows "sorted_wrt (<) xs \<Longrightarrow> sorted_wrt (<) ys \<Longrightarrow>
    set (set_difference (<) xs ys) = set xs - set ys"
proof (induction "(<) :: 'a \<Rightarrow> 'a \<Rightarrow> bool" xs ys rule: set_difference.induct)
  case (3 x xs y ys)
  then show ?case by (cases x y rule: linorder_cases) auto
qed auto

definition changed_list :: "list_action_type \<Rightarrow> account_name set \<Rightarrow> account_name set \<Rightarrow> account_name set" where
  "changed_list act names old =
     (case act of Insert_type \<Rightarrow> old \<union> names | Remove_type \<Rightarrow> old - names | List_action_type_count \<Rightarrow> old)"

lemma get_put_list:
  "lst \<noteq> List_type_count \<Longrightarrow> get_list lst' (put_list lst l c) =
     (if lst' = lst then Inr l else get_list lst' c)"
  by (cases lst; cases lst') simp_all

lemma put_put_list [simp]: "put_list lst l (put_list lst l' c) = put_list lst l c"
  by (cases lst) simp_all

lemma lists_ok_iff:
  "lists_ok s \<longleftrightarrow> conf_lists s = force_lists s \<and>
     (\<forall>lst l. get_list lst (conf_lists s) = Inr l \<longrightarrow> sorted_wrt (<) l)"
proof -
  have "(\<forall>lst l. get_list lst c = Inr l \<longrightarrow> sorted_wrt (<) l) \<longleftrightarrow>
    sorted_wrt (<) (actor_blacklist c) \<and> sorted_wrt (<) (contract_blacklist c) \<and>
    sorted_wrt (<) (resource_greylist c)" for c
    by (metis get_list.simps list_type.exhaust sum.inject(2) sum.distinct(1))
  then show ?thesis by (simp add: lists_ok_def)
qed

lemma set_name_list_ok:
  assumes "lists_ok s" and "get_list lst (conf_lists s) = Inr old"
  shows "\<exists>s' new. set_name_list lst act ns s = Inr s' \<and> lists_ok s' \<and>
    get_list lst (conf_lists s') = Inr new \<and> set new = changed_list act (set ns) (set old) \<and>
    (\<forall>lst'. lst' \<noteq> lst \<longrightarrow> get_list lst' (conf_lists s') = get_list lst' (conf_lists s))"
proof -
  from assms(2) have lst: "lst \<noteq> List_type_count" by auto
  from assms have old: "sorted_wrt (<) old" and eq: "conf_lists s = force_lists s"
    and all: "get_list l (conf_lists s) = Inr x \<Longrightarrow> sorted_wrt (<) x" for l x
    by (auto simp: lists_ok_iff)
  define new where "new = (case act of Insert_type \<Rightarrow> flat_insert_all ns old
    | Remove_type \<Rightarrow> flat_insert_all (set_difference name_less old (flat_insert_all ns [])) []
    | List_action_type_count \<Rightarrow> old)"
  define s' where "s' = s\<lparr>conf_lists := put_list lst new (conf_lists s),
    force_lists := put_list lst new (force_lists s)\<rparr>"
  have "sorted_wrt (<) new" "set new = changed_list act (set ns) (set old)"
    using old by (auto simp: new_def changed_list_def flat_insert_all set_set_difference
        split: list_action_type.splits)
  moreover have "set_name_list lst act ns s = Inr s'"
    using assms(2) lst eq
    by (simp add: set_name_list_def sync_list_and_db_def get_put_list Let_def s'_def new_def)
  ultimately show ?thesis
    using all eq lst by (intro exI [of _ s'] exI [of _ new])
      (auto simp: lists_ok_iff s'_def get_put_list split: if_splits)
qed



section \<open>The fee of a transaction\<close>

definition fee_amount :: "fee_table \<Rightarrow> account_name \<times> name \<Rightarrow> int" where
  "fee_amount db a = (case get_required_fee_action db (fst a) (snd a) of Inr f \<Rightarrow> amount f | Inl _ \<Rightarrow> 0)"

text \<open>What the loop over the actions needs: fees in the core symbol, and sums within \<open>int64_t\<close>.\<close>

definition fee_in_core :: "fee_table \<Rightarrow> account_name \<times> name \<Rightarrow> bool" where
  "fee_in_core db a \<longleftrightarrow> (\<exists>f. get_required_fee_action db (fst a) (snd a) = Inr f \<and> sym f = core_symbol)"

definition in_int64 :: "int \<Rightarrow> bool" where
  "in_int64 x \<longleftrightarrow> - (2 ^ 63) \<le> x \<and> x < 2 ^ 63"

lemma add_required_fee:
  "ebind (get_required_fee_action db (fst x) (snd x)) (\<lambda>f. asset_add_assign (core_asset a) f) = Inr t \<longleftrightarrow>
   fee_in_core db x \<and> in_int64 (a + fee_amount db x) \<and> t = core_asset (a + fee_amount db x)"
  by (cases "get_required_fee_action db (fst x) (snd x)")
    (auto simp: fee_in_core_def in_int64_def fee_amount_def asset_add_assign_def core_asset_def int64_result_def res_simps)

lemma get_required_fee_from:
  "efold (\<lambda>x t. ebind (get_required_fee_action db (fst x) (snd x)) (\<lambda>f. asset_add_assign t f)) actions (core_asset a) = Inr required \<longleftrightarrow>
   (\<forall>x \<in> set actions. fee_in_core db x) \<and>
   (\<forall>n < length actions. in_int64 (a + (\<Sum>x\<leftarrow>take (Suc n) actions. fee_amount db x))) \<and>
   required = core_asset (a + (\<Sum>x\<leftarrow>actions. fee_amount db x))"
proof (induction actions arbitrary: a)
  case (Cons x actions)
  show ?case
    by (auto simp: efold_Cons_Inr add_required_fee Cons.IH All_less_Suc2 add.assoc
        simp del: efold.simps(2))
qed auto

text \<open>
  C40. The fee required for a transaction is the sum of the fees of its actions. It is computed
  exactly when every action has a fee, each of these fees is in the core symbol, and the sums on
  the way fit \<open>int64_t\<close>. Nothing is assumed of the fees stored in the database, which need
  not be in the core symbol.
\<close>

theorem get_required_fee_exact:
  "get_required_fee db actions = Inr required \<longleftrightarrow>
   (\<forall>(account, act) \<in> set actions. \<exists>f. get_required_fee_action db account act = Inr f \<and> sym f = core_symbol) \<and>
   (\<forall>n < length actions. in_int64 (\<Sum>x\<leftarrow>take (Suc n) actions. fee_amount db x)) \<and>
   required = core_asset (\<Sum>x\<leftarrow>actions. fee_amount db x)"
  unfolding get_required_fee_def case_prod_unfold get_required_fee_from by (auto simp: fee_in_core_def)

definition sample_fees :: fee_table where
  "sample_fees = [((1, 2), \<lparr>fee = core_asset 40, cpu_limit = 0, net_limit = 0, ram_limit = 0\<rparr>)]"

theorem get_required_fee_exact_witness:
  "get_required_fee sample_fees [(1, 2), (1, 2)] = Inr (core_asset 80)"
  by (subst get_required_fee_exact)
    (simp add: sample_fees_def fee_amount_def in_int64_def get_required_fee_action_def core_asset_def asset_eq_def
      All_less_Suc Let_def)

end
