(* ===== verification/Resource_Limits.thy ===== *)
theory Resource_Limits
  imports Chain_Config
begin

text \<open>
  Rate limiting (\<open>resource_limits.cpp\<close>, \<open>resource_limits_private.hpp\<close>): the moving averages of
  usage, the elastic limits of the block, the limits and the usage of accounts, and the totals
  the shares of accounts are computed from. Intermediate values of type \<open>uint128_t\<close> wrap where
  the code lets them.
\<close>

section \<open>Arithmetic helpers\<close>

record ratio =
  numerator :: u64
  denominator :: u64

text \<open>A value times a ratio; division by zero has no meaning.\<close>

definition ratio_times :: "u64 \<Rightarrow> ratio \<Rightarrow> u64 res" where
  "ratio_times v r =
     eos_assert (numerator r = 0 \<or> u64_max div numerator r \<ge> v) Rate_limiting_state_inconsistent
     (if denominator r = 0 then Inl Undefined_behaviour
      else Inr (wrap64 (v * numerator r) div denominator r))"

definition integer_divide_ceil :: "nat \<Rightarrow> nat \<Rightarrow> nat" where
  "integer_divide_ceil num den = num div den + (if num mod den > 0 then 1 else 0)"

text \<open>
  Casts from \<open>uint128_t\<close>: to \<open>uint64_t\<close> (same signedness) and to \<open>int64_t\<close> (different
  signedness).
\<close>

definition downgrade_cast_u64 :: "u128 \<Rightarrow> u64 res" where
  "downgrade_cast_u64 v = eos_assert (v \<le> u64_max) Rate_limiting_state_inconsistent (Inr v)"

definition downgrade_cast_i64 :: "u128 \<Rightarrow> i64 res" where
  "downgrade_cast_i64 v = eos_assert (v \<le> i64_max) Rate_limiting_state_inconsistent (Inr (int v))"

section \<open>The moving average\<close>

record usage_accumulator =
  last_ordinal :: u32
  value_ex :: u64
  consumed :: u64

definition new_accumulator :: usage_accumulator where
  "new_accumulator = \<lparr>last_ordinal = 0, value_ex = 0, consumed = 0\<rparr>"

definition rate_limiting_precision :: nat where
  "rate_limiting_precision = 1000 * 1000"

definition max_raw_value :: u64 where
  "max_raw_value = u64_max div rate_limiting_precision"

definition average :: "usage_accumulator \<Rightarrow> u64" where
  "average a = integer_divide_ceil (value_ex a) rate_limiting_precision"

text \<open>The decay between two ordinals, then the new contribution.\<close>

definition accumulator_decay :: "u32 \<Rightarrow> u32 \<Rightarrow> usage_accumulator \<Rightarrow> usage_accumulator res" where
  "accumulator_decay ordinal window_size a =
     eos_assert (ordinal > last_ordinal a) Resource_limit_exception
     (ebind (if last_ordinal a + window_size > ordinal
             then let delta = sub32 ordinal (last_ordinal a) in
                  ratio_times (value_ex a) \<lparr>numerator = sub64 window_size delta, denominator = window_size\<rparr>
             else Inr 0) (\<lambda>v.
      let a = a\<lparr>value_ex := v, last_ordinal := ordinal\<rparr> in
      Inr (a\<lparr>consumed := average a\<rparr>)))"

definition accumulator_add :: "u64 \<Rightarrow> u32 \<Rightarrow> u32 \<Rightarrow> usage_accumulator \<Rightarrow> usage_accumulator res" where
  "accumulator_add units ordinal window_size a =
     eos_assert (units \<le> max_raw_value) Rate_limiting_state_inconsistent
     (eos_assert (u64_max - consumed a \<ge> units) Rate_limiting_state_inconsistent
     (if window_size = 0 then Inl Undefined_behaviour else
      ebind (downgrade_cast_u64
          (integer_divide_ceil (wrap128 (units * rate_limiting_precision)) window_size)) (\<lambda>value_ex_contrib.
      eos_assert (u64_max - value_ex a \<ge> value_ex_contrib) Rate_limiting_state_inconsistent
      (ebind (if last_ordinal a \<noteq> ordinal then accumulator_decay ordinal window_size a else Inr a) (\<lambda>a.
       Inr (a\<lparr>consumed := wrap64 (consumed a + units),
              value_ex := wrap64 (value_ex a + value_ex_contrib)\<rparr>))))))"

section \<open>State\<close>

record elastic_limit_parameters =
  target :: u64
  limit_max :: u64
  periods :: u32
  max_multiplier :: u32
  contract_rate :: ratio
  expand_rate :: ratio

record gmr_parameters =
  ram_byte :: u64
  cpu_us :: u64
  net_byte :: u64

record resource_limits_object =
  net_weight :: i64
  cpu_weight :: i64
  ram_bytes :: i64

record resource_usage_object =
  net_usage :: usage_accumulator
  cpu_usage :: usage_accumulator
  ram_usage :: u64

record resource_limits_config =
  cpu_limit_parameters :: elastic_limit_parameters
  net_limit_parameters :: elastic_limit_parameters
  account_cpu_usage_average_window :: u32
  account_net_usage_average_window :: u32

record resource_limits_state =
  average_block_net_usage :: usage_accumulator
  average_block_cpu_usage :: usage_accumulator
  pending_net_usage :: u64
  pending_cpu_usage :: u64
  total_net_weight :: u64
  total_cpu_weight :: u64
  total_ram_bytes :: u64
  virtual_net_limit :: u64
  virtual_cpu_limit :: u64

text \<open>
  The tables the manager works on. Limits are keyed by the pending flag and the owner, as in
  the index \<open>by_owner\<close>; the contract tables and the configuration on chain are read for the
  memory rented by votes.
\<close>

record resource_db =
  account_limits :: "(bool \<times> account_name, resource_limits_object) rows"
  account_usage :: "(account_name, resource_usage_object) rows"
  limits_config :: resource_limits_config
  limits_state :: resource_limits_state
  gmr_config :: gmr_parameters
  contract_tables :: contract_db
  chain_configs :: config_data

definition new_limits :: resource_limits_object where
  "new_limits = \<lparr>net_weight = -1, cpu_weight = -1, ram_bytes = -1\<rparr>"

definition new_usage :: resource_usage_object where
  "new_usage = \<lparr>net_usage = new_accumulator, cpu_usage = new_accumulator, ram_usage = 0\<rparr>"

section \<open>Elastic limits\<close>

definition update_elastic_limit :: "u64 \<Rightarrow> u64 \<Rightarrow> elastic_limit_parameters \<Rightarrow> u64 res" where
  "update_elastic_limit current_limit average_usage p =
     ebind (if average_usage > target p
            then ratio_times current_limit (contract_rate p)
            else ratio_times current_limit (expand_rate p)) (\<lambda>result.
     Inr (min (max result (limit_max p)) (wrap64 (limit_max p * max_multiplier p))))"

definition elastic_limit_parameters_validate :: "elastic_limit_parameters \<Rightarrow> unit res" where
  "elastic_limit_parameters_validate p =
     eos_assert (periods p > 0) Resource_limit_exception
     (eos_assert (denominator (contract_rate p) > 0) Resource_limit_exception
     (eos_assert (denominator (expand_rate p) > 0) Resource_limit_exception (Inr ())))"

definition gmr_parameters_validate :: "gmr_parameters \<Rightarrow> unit res" where
  "gmr_parameters_validate g =
     eos_assert (cpu_us g > 0) Resource_limit_exception
     (eos_assert (net_byte g > 0) Resource_limit_exception
     (eos_assert (ram_byte g \<ge> 0) Resource_limit_exception (Inr ())))"

definition update_virtual_cpu_limit ::
  "resource_limits_config \<Rightarrow> resource_limits_state \<Rightarrow> resource_limits_state res" where
  "update_virtual_cpu_limit cfg s =
     ebind (update_elastic_limit (virtual_cpu_limit s) (average (average_block_cpu_usage s))
       (cpu_limit_parameters cfg)) (\<lambda>l. Inr (s\<lparr>virtual_cpu_limit := l\<rparr>))"

definition update_virtual_net_limit ::
  "resource_limits_config \<Rightarrow> resource_limits_state \<Rightarrow> resource_limits_state res" where
  "update_virtual_net_limit cfg s =
     ebind (update_elastic_limit (virtual_net_limit s) (average (average_block_net_usage s))
       (net_limit_parameters cfg)) (\<lambda>l. Inr (s\<lparr>virtual_net_limit := l\<rparr>))"

section \<open>Setting up\<close>

definition eos_percent :: "u64 \<Rightarrow> u32 \<Rightarrow> u64" where
  "eos_percent v percentage = wrap64 (v * percentage) div percent_100"

definition block_interval_ms :: nat where "block_interval_ms = 1000"
definition account_usage_average_window_ms :: nat where "account_usage_average_window_ms = 24 * 60 * 60 * 1000"
definition block_usage_average_window_ms :: nat where "block_usage_average_window_ms = 60 * 1000"

definition default_resource_config :: resource_limits_config where
  "default_resource_config =
     \<lparr>cpu_limit_parameters = \<lparr>target = eos_percent 1000000 (10 * percent_1), limit_max = 1000000,
        periods = block_usage_average_window_ms div block_interval_ms, max_multiplier = 1000,
        contract_rate = \<lparr>numerator = 99, denominator = 100\<rparr>,
        expand_rate = \<lparr>numerator = 1000, denominator = 999\<rparr>\<rparr>,
      net_limit_parameters = \<lparr>target = eos_percent (1024 * 1024) (10 * percent_1), limit_max = 1024 * 1024,
        periods = block_usage_average_window_ms div block_interval_ms, max_multiplier = 1000,
        contract_rate = \<lparr>numerator = 99, denominator = 100\<rparr>,
        expand_rate = \<lparr>numerator = 1000, denominator = 999\<rparr>\<rparr>,
      account_cpu_usage_average_window = account_usage_average_window_ms div block_interval_ms,
      account_net_usage_average_window = account_usage_average_window_ms div block_interval_ms\<rparr>"

definition default_gmr :: gmr_parameters where
  "default_gmr = \<lparr>ram_byte = 8 * 1024, cpu_us = 200000, net_byte = 10 * 1024\<rparr>"

definition initialize_database :: "contract_db \<Rightarrow> config_data \<Rightarrow> resource_db" where
  "initialize_database tabs cfgs =
     \<lparr>account_limits = [], account_usage = [], limits_config = default_resource_config,
      limits_state =
        \<lparr>average_block_net_usage = new_accumulator, average_block_cpu_usage = new_accumulator,
         pending_net_usage = 0, pending_cpu_usage = 0, total_net_weight = 0, total_cpu_weight = 0,
         total_ram_bytes = 0,
         virtual_net_limit = limit_max (net_limit_parameters default_resource_config),
         virtual_cpu_limit = limit_max (cpu_limit_parameters default_resource_config)\<rparr>,
      gmr_config = default_gmr, contract_tables = tabs, chain_configs = cfgs\<rparr>"

definition initialize_account :: "account_name \<Rightarrow> resource_db \<Rightarrow> resource_db res" where
  "initialize_account account db =
     ebind (tab_create (False, account) new_limits (account_limits db)) (\<lambda>ls.
     ebind (tab_create account new_usage (account_usage db)) (\<lambda>us.
     Inr (db\<lparr>account_limits := ls, account_usage := us\<rparr>)))"

definition set_gmr_parameters :: "gmr_parameters \<Rightarrow> resource_db \<Rightarrow> resource_db res" where
  "set_gmr_parameters g db =
     ebind (gmr_parameters_validate g) (\<lambda>_. Inr (db\<lparr>gmr_config := g\<rparr>))"

definition set_block_parameters ::
  "elastic_limit_parameters \<Rightarrow> elastic_limit_parameters \<Rightarrow> resource_db \<Rightarrow> resource_db res" where
  "set_block_parameters cpu net db =
     ebind (elastic_limit_parameters_validate cpu) (\<lambda>_.
     ebind (elastic_limit_parameters_validate net) (\<lambda>_.
     if cpu_limit_parameters (limits_config db) = cpu \<and> net_limit_parameters (limits_config db) = net
     then Inr db
     else Inr (db\<lparr>limits_config :=
       (limits_config db)\<lparr>cpu_limit_parameters := cpu, net_limit_parameters := net\<rparr>\<rparr>)))"

section \<open>Limits of accounts\<close>

text \<open>Conversion from \<open>uint64_t\<close> to \<open>int64_t\<close>.\<close>

definition i64_of_u64 :: "u64 \<Rightarrow> i64" where
  "i64_of_u64 n = (if n < 2 ^ 63 then int n else int n - 2 ^ 64)"

text \<open>
  The memory an account may use: unlimited for the system's own accounts, otherwise the
  guaranteed amount, with what the account has rented by votes. The serialised row of the
  votes is read by \<open>unpack\<close>, which gives the staked amount.
\<close>

definition get_account_ram_limit ::
  "(bytes \<Rightarrow> i64 res) \<Rightarrow> resource_db \<Rightarrow> account_name \<Rightarrow> i64 res" where
  "get_account_ram_limit unpack db account =
     (let init_ram_size = i64_of_u64 (ram_byte (gmr_config db)) in
      if account \<in> {system_account_name, token_account_name, msig_account_name, bios_account_name,
                    relay_account_name}
      then Inr (-1)
      else ebind (memory_db_get unpack system_account_name system_account_name
               (string_to_name ''vote4ramsum'') account (contract_tables db)) (\<lambda>vote_info.
        case vote_info of
          None \<Rightarrow> Inr init_ram_size
        | Some staked \<Rightarrow>
            let ram_rent = get_num_config_on_chain (chain_configs db) ram_rent_b_per_eos 10240 in
            ebind (int64_result (staked * ram_rent)) (\<lambda>p.
            int64_result (tdiv p 1000000 + init_ram_size))))"

definition get_account_limits ::
  "(bytes \<Rightarrow> i64 res) \<Rightarrow> resource_db \<Rightarrow> account_name \<Rightarrow> (i64 \<times> i64 \<times> i64) res" where
  "get_account_limits unpack db account =
     (case map_of (account_limits db) (True, account) of
        Some pending_buo \<Rightarrow>
          ebind (get_account_ram_limit unpack db account) (\<lambda>ram.
          Inr (ram, net_weight pending_buo, cpu_weight pending_buo))
      | None \<Rightarrow>
          ebind (tab_get (account_limits db) (False, account)) (\<lambda>buo.
          ebind (get_account_ram_limit unpack db account) (\<lambda>ram.
          Inr (ram, net_weight buo, cpu_weight buo))))"

definition set_account_limits ::
  "account_name \<Rightarrow> i64 \<Rightarrow> i64 \<Rightarrow> i64 \<Rightarrow> resource_db \<Rightarrow> (bool \<times> resource_db) res" where
  "set_account_limits account ram net cpu db =
     ebind (case map_of (account_limits db) (True, account) of
              None \<Rightarrow>
                ebind (tab_get (account_limits db) (False, account)) (\<lambda>limits.
                ebind (tab_create (True, account) limits (account_limits db)) (\<lambda>ls.
                Inr (limits, db\<lparr>account_limits := ls\<rparr>)))
            | Some pending_limits \<Rightarrow> Inr (pending_limits, db)) (\<lambda>(limits, db).
     let decreased_limit = (if ram \<ge> 0 then ram_bytes limits < 0 \<or> ram < ram_bytes limits else False) in
     Inr (decreased_limit,
       db\<lparr>account_limits := tab_modify (True, account)
         (limits\<lparr>ram_bytes := ram, net_weight := net, cpu_weight := cpu\<rparr>) (account_limits db)\<rparr>))"

text \<open>Moving one value from its old to its pending value, with the total kept beside it.\<close>

definition update_state_and_value :: "u64 \<Rightarrow> i64 \<Rightarrow> i64 \<Rightarrow> u64 res" where
  "update_state_and_value tot val pending_value =
     ebind (if val > 0
            then eos_assert (tot \<ge> nat val) Rate_limiting_state_inconsistent (Inr (tot - nat val))
            else Inr tot) (\<lambda>tot.
     if pending_value > 0
     then eos_assert (u64_max - tot \<ge> nat pending_value) Rate_limiting_state_inconsistent
       (Inr (tot + nat pending_value))
     else Inr tot)"

text \<open>The first pending row in the order of owners.\<close>

definition first_pending ::
  "(bool \<times> account_name, resource_limits_object) rows \<Rightarrow> (account_name \<times> resource_limits_object) option" where
  "first_pending ls =
     map_option (\<lambda>((_, o'), r). (o', r))
       (index_begin (\<lambda>a b. snd (fst a) < snd (fst b)) (filter (fst \<circ> fst) ls))"

definition apply_pending ::
  "account_name \<Rightarrow> resource_limits_object \<Rightarrow> resource_db \<Rightarrow> resource_db res" where
  "apply_pending owner p db =
     (let s = limits_state db in
      ebind (tab_get (account_limits db) (False, owner)) (\<lambda>actual.
      ebind (update_state_and_value (total_ram_bytes s) (ram_bytes actual) (ram_bytes p)) (\<lambda>ram.
      ebind (update_state_and_value (total_cpu_weight s) (cpu_weight actual) (cpu_weight p)) (\<lambda>cpu.
      ebind (update_state_and_value (total_net_weight s) (net_weight actual) (net_weight p)) (\<lambda>net.
      Inr (db\<lparr>limits_state := s\<lparr>total_ram_bytes := ram, total_cpu_weight := cpu, total_net_weight := net\<rparr>,
              account_limits := tab_remove (True, owner) (tab_modify (False, owner)
                (actual\<lparr>ram_bytes := ram_bytes p, cpu_weight := cpu_weight p, net_weight := net_weight p\<rparr>)
                (account_limits db))\<rparr>))))))"

lemma first_pending_mem:
  "first_pending ls = Some (o', r) \<Longrightarrow> ((True, o'), r) \<in> set ls"
  by (auto simp: first_pending_def dest!: index_begin_in)

lemma tab_modify_length [simp]: "length (tab_modify k r t) = length t"
  by (induction k r t rule: tab_modify.induct) auto

lemma tab_remove_length: "k \<in> set (tab_keys t) \<Longrightarrow> length (tab_remove k t) < length t"
  by (induction k t rule: tab_remove.induct) auto

lemma apply_pending_length:
  assumes "apply_pending owner p db = Inr db'" and "first_pending (account_limits db) = Some (owner, p)"
  shows "length (account_limits db') < length (account_limits db)"
proof -
  have "(True, owner) \<in> set (tab_keys (account_limits db))"
    using first_pending_mem [OF assms(2)] by force
  then have "length (tab_remove (True, owner) (tab_modify (False, owner) r (account_limits db)))
      < length (account_limits db)" for r
    using tab_remove_length [of "(True, owner)" "tab_modify (False, owner) r (account_limits db)"] by simp
  then show ?thesis
    using assms(1) by (auto simp: apply_pending_def Let_def res_simps)
qed

function process_account_limit_updates :: "resource_db \<Rightarrow> resource_db res" where
  "process_account_limit_updates db =
     (case first_pending (account_limits db) of
        None \<Rightarrow> Inr db
      | Some (owner, p) \<Rightarrow>
          (case apply_pending owner p db of
             Inl e \<Rightarrow> Inl e
           | Inr db' \<Rightarrow> process_account_limit_updates db'))"
  by pat_completeness auto

termination
  by (relation "measure (\<lambda>db. length (account_limits db))") (auto intro: apply_pending_length)

declare process_account_limit_updates.simps [simp del]

section \<open>Usage\<close>

definition update_account_usage :: "account_name list \<Rightarrow> u32 \<Rightarrow> resource_db \<Rightarrow> resource_db res" where
  "update_account_usage accounts time_slot db =
     efold (\<lambda>a db.
       let config = limits_config db in
       ebind (tab_get (account_usage db) a) (\<lambda>usage.
       ebind (accumulator_add 0 time_slot (account_net_usage_average_window config) (net_usage usage)) (\<lambda>net.
       ebind (accumulator_add 0 time_slot (account_cpu_usage_average_window config) (cpu_usage usage)) (\<lambda>cpu.
       Inr (db\<lparr>account_usage := tab_modify a (usage\<lparr>net_usage := net, cpu_usage := cpu\<rparr>) (account_usage db)\<rparr>)))))
       accounts db"

text \<open>What an account may use in a window, and what it has used, rounded down.\<close>

definition max_use_in_window :: "u64 \<Rightarrow> u32 \<Rightarrow> i64 \<Rightarrow> u64 \<Rightarrow> u64 \<Rightarrow> u128" where
  "max_use_in_window virtual_limit window_size weight all_weight guaranteed =
     wrap128 (wrap128 (wrap128 (virtual_limit * window_size) * nat weight) div all_weight + guaranteed)"

definition used_in_window :: "usage_accumulator \<Rightarrow> u32 \<Rightarrow> u128" where
  "used_in_window a window_size = wrap128 (value_ex a * window_size) div rate_limiting_precision"

definition bill_account ::
  "(bytes \<Rightarrow> i64 res) \<Rightarrow> u64 \<Rightarrow> u64 \<Rightarrow> u32 \<Rightarrow> account_name \<Rightarrow> resource_db \<Rightarrow> resource_db res" where
  "bill_account unpack cpu net time_slot a db =
     (let state = limits_state db; config = limits_config db; gmr = gmr_config db;
          cpu_window = account_cpu_usage_average_window config;
          net_window = account_net_usage_average_window config in
      ebind (tab_get (account_usage db) a) (\<lambda>usage.
      ebind (get_account_limits unpack db a) (\<lambda>(_, net_w, cpu_w).
      ebind (accumulator_add net time_slot net_window (net_usage usage)) (\<lambda>net_acc.
      ebind (accumulator_add cpu time_slot cpu_window (cpu_usage usage)) (\<lambda>cpu_acc.
      eos_assert (\<not> (cpu_w \<ge> 0 \<and> total_cpu_weight state > 0) \<or>
          used_in_window cpu_acc cpu_window \<le>
            max_use_in_window (virtual_cpu_limit state) cpu_window cpu_w (total_cpu_weight state) (cpu_us gmr))
        Tx_cpu_usage_exceeded
      (eos_assert (\<not> (net_w \<ge> 0 \<and> total_net_weight state > 0) \<or>
          used_in_window net_acc net_window \<le>
            max_use_in_window (virtual_net_limit state) net_window net_w (total_net_weight state) (cpu_us gmr))
        Tx_net_usage_exceeded
      (Inr (db\<lparr>account_usage :=
         tab_modify a (usage\<lparr>net_usage := net_acc, cpu_usage := cpu_acc\<rparr>) (account_usage db)\<rparr>))))))))"

definition add_transaction_usage ::
  "(bytes \<Rightarrow> i64 res) \<Rightarrow> account_name list \<Rightarrow> u64 \<Rightarrow> u64 \<Rightarrow> u32 \<Rightarrow> resource_db \<Rightarrow> resource_db res" where
  "add_transaction_usage unpack accounts cpu net time_slot db =
     ebind (efold (bill_account unpack cpu net time_slot) accounts db) (\<lambda>db.
     let config = limits_config db; s = limits_state db;
         s = s\<lparr>pending_cpu_usage := wrap64 (pending_cpu_usage s + cpu),
               pending_net_usage := wrap64 (pending_net_usage s + net)\<rparr> in
     eos_assert (pending_cpu_usage s \<le> limit_max (cpu_limit_parameters config)) Block_resource_exhausted
     (eos_assert (pending_net_usage s \<le> limit_max (net_limit_parameters config)) Block_resource_exhausted
     (Inr (db\<lparr>limits_state := s\<rparr>))))"

text \<open>
  Memory: the negation of the smallest \<open>int64_t\<close> has no meaning; the addition to the unsigned
  counter is modulo its width.
\<close>

definition add_pending_ram_usage :: "account_name \<Rightarrow> i64 \<Rightarrow> resource_db \<Rightarrow> resource_db res" where
  "add_pending_ram_usage account ram_delta db =
     (if ram_delta = 0 then Inr db
      else ebind (tab_get (account_usage db) account) (\<lambda>usage.
        eos_assert (ram_delta \<le> 0 \<or> u64_max - ram_usage usage \<ge> nat ram_delta) Transaction_exception
        (if ram_delta = - (2 ^ 63) then Inl Undefined_behaviour else
         eos_assert (ram_delta \<ge> 0 \<or> ram_usage usage \<ge> nat (- ram_delta)) Transaction_exception
         (Inr (db\<lparr>account_usage := tab_modify account
            (usage\<lparr>ram_usage := nat ((int (ram_usage usage) + ram_delta) mod 2 ^ 64)\<rparr>) (account_usage db)\<rparr>)))))"

definition verify_account_ram_usage :: "(bytes \<Rightarrow> i64 res) \<Rightarrow> account_name \<Rightarrow> resource_db \<Rightarrow> unit res" where
  "verify_account_ram_usage unpack account db =
     ebind (get_account_limits unpack db account) (\<lambda>(ram, _, _).
     ebind (tab_get (account_usage db) account) (\<lambda>usage.
     if ram \<ge> 0 then eos_assert (ram_usage usage \<le> nat ram) Ram_usage_exceeded (Inr ()) else Inr ()))"

definition get_account_ram_usage :: "resource_db \<Rightarrow> account_name \<Rightarrow> i64 res" where
  "get_account_ram_usage db account =
     ebind (tab_get (account_usage db) account) (\<lambda>usage. Inr (i64_of_u64 (ram_usage usage)))"

section \<open>The end of a block\<close>

definition process_block_usage :: "u32 \<Rightarrow> resource_db \<Rightarrow> resource_db res" where
  "process_block_usage block_num db =
     (let config = limits_config db; s = limits_state db in
      ebind (accumulator_add (pending_cpu_usage s) block_num (periods (cpu_limit_parameters config))
        (average_block_cpu_usage s)) (\<lambda>cpu.
      ebind (update_virtual_cpu_limit config (s\<lparr>average_block_cpu_usage := cpu\<rparr>)) (\<lambda>s.
      let s = s\<lparr>pending_cpu_usage := 0\<rparr> in
      ebind (accumulator_add (pending_net_usage s) block_num (periods (net_limit_parameters config))
        (average_block_net_usage s)) (\<lambda>net.
      ebind (update_virtual_net_limit config (s\<lparr>average_block_net_usage := net\<rparr>)) (\<lambda>s.
      Inr (db\<lparr>limits_state := s\<lparr>pending_net_usage := 0\<rparr>\<rparr>))))))"

section \<open>Queries\<close>

definition get_block_cpu_limit :: "resource_db \<Rightarrow> u64" where
  "get_block_cpu_limit db =
     sub64 (limit_max (cpu_limit_parameters (limits_config db))) (pending_cpu_usage (limits_state db))"

definition get_block_net_limit :: "resource_db \<Rightarrow> u64" where
  "get_block_net_limit db =
     sub64 (limit_max (net_limit_parameters (limits_config db))) (pending_net_usage (limits_state db))"

record account_resource_limit =
  arl_used :: i64
  arl_available :: i64
  arl_max :: i64

definition account_limit_of :: "u128 \<Rightarrow> u128 \<Rightarrow> account_resource_limit res" where
  "account_limit_of max_user_use used =
     ebind (if max_user_use \<le> used then Inr 0 else downgrade_cast_i64 (max_user_use - used)) (\<lambda>available.
     ebind (downgrade_cast_i64 used) (\<lambda>u.
     ebind (downgrade_cast_i64 max_user_use) (\<lambda>m.
     Inr \<lparr>arl_used = u, arl_available = available, arl_max = m\<rparr>)))"

definition unlimited_account :: account_resource_limit where
  "unlimited_account = \<lparr>arl_used = -1, arl_available = -1, arl_max = -1\<rparr>"

definition get_account_cpu_limit_ex ::
  "(bytes \<Rightarrow> i64 res) \<Rightarrow> resource_db \<Rightarrow> account_name \<Rightarrow> bool \<Rightarrow> account_resource_limit res" where
  "get_account_cpu_limit_ex unpack db account elastic =
     (let state = limits_state db; config = limits_config db; gmr = gmr_config db;
          window_size = account_cpu_usage_average_window config in
      ebind (tab_get (account_usage db) account) (\<lambda>usage.
      ebind (get_account_limits unpack db account) (\<lambda>(_, _, cpu_w).
      if cpu_w < 0 \<or> total_cpu_weight state = 0 then Inr unlimited_account
      else account_limit_of
        (max_use_in_window
          (if elastic then virtual_cpu_limit state else limit_max (cpu_limit_parameters config))
          window_size cpu_w (total_cpu_weight state) (cpu_us gmr))
        (integer_divide_ceil (wrap128 (value_ex (cpu_usage usage) * window_size)) rate_limiting_precision))))"

definition get_account_net_limit_ex ::
  "(bytes \<Rightarrow> i64 res) \<Rightarrow> resource_db \<Rightarrow> account_name \<Rightarrow> bool \<Rightarrow> account_resource_limit res" where
  "get_account_net_limit_ex unpack db account elastic =
     (let state = limits_state db; config = limits_config db; gmr = gmr_config db;
          window_size = account_net_usage_average_window config in
      ebind (tab_get (account_usage db) account) (\<lambda>usage.
      ebind (get_account_limits unpack db account) (\<lambda>(_, net_w, _).
      if net_w < 0 \<or> total_net_weight state = 0 then Inr unlimited_account
      else account_limit_of
        (max_use_in_window
          (if elastic then virtual_net_limit state else limit_max (net_limit_parameters config))
          window_size net_w (total_net_weight state) (net_byte gmr))
        (integer_divide_ceil (wrap128 (value_ex (net_usage usage) * window_size)) rate_limiting_precision))))"

definition get_account_cpu_limit ::
  "(bytes \<Rightarrow> i64 res) \<Rightarrow> resource_db \<Rightarrow> account_name \<Rightarrow> bool \<Rightarrow> i64 res" where
  "get_account_cpu_limit unpack db account elastic =
     ebind (get_account_cpu_limit_ex unpack db account elastic) (\<lambda>arl. Inr (arl_available arl))"

definition get_account_net_limit ::
  "(bytes \<Rightarrow> i64 res) \<Rightarrow> resource_db \<Rightarrow> account_name \<Rightarrow> bool \<Rightarrow> i64 res" where
  "get_account_net_limit unpack db account elastic =
     ebind (get_account_net_limit_ex unpack db account elastic) (\<lambda>arl. Inr (arl_available arl))"

end
