(* ===== verification/Resource_Bounds.thy ===== *)
theory Resource_Bounds
  imports Resource_Limits
begin

text \<open>
  What rate limiting guarantees: the moving average is computed without wrap-around and stays
  below the largest usage of a period, closing a block always succeeds, and the totals that
  shares are computed from are the sums over the accounts in every reachable state.
\<close>

section \<open>The moving average\<close>

lemma ratio_times_eq:
  assumes "denominator r > 0"
  shows "ratio_times v r =
    (if v * numerator r \<le> u64_max then Inr (v * numerator r div denominator r)
     else Inl Rate_limiting_state_inconsistent)"
proof (cases "numerator r = 0")
  case True
  then show ?thesis using assms by (simp add: ratio_times_def wrap64_def)
next
  case False
  then have "u64_max div numerator r \<ge> v \<longleftrightarrow> v * numerator r \<le> u64_max"
    by (simp add: less_eq_div_iff_mult_less_eq)
  then show ?thesis using assms False by (simp add: ratio_times_def)
qed

lemma integer_divide_ceil_le_iff:
  assumes "d > 0"
  shows "integer_divide_ceil n d \<le> m \<longleftrightarrow> n \<le> m * d"
proof
  assume le: "integer_divide_ceil n d \<le> m"
  have "n \<le> integer_divide_ceil n d * d"
  proof (cases "n mod d = 0")
    case False
    then have "n div d * d + n mod d \<le> n div d * d + d"
      using mod_less_divisor [OF assms, of n] by linarith
    with False show ?thesis by (simp add: integer_divide_ceil_def)
  qed (auto simp: integer_divide_ceil_def)
  also have "\<dots> \<le> m * d" using le by (rule mult_le_mono1)
  finally show "n \<le> m * d" .
next
  assume le: "n \<le> m * d"
  show "integer_divide_ceil n d \<le> m"
  proof (cases "n mod d = 0")
    case True
    then show ?thesis using le assms
      by (simp add: integer_divide_ceil_def) (metis div_le_mono nonzero_mult_div_cancel_right less_not_refl)
  next
    case False
    then have "n < m * d" using le by (metis le_neq_implies_less mod_mult_self2_is_0)
    then have "n div d < m" using assms by (simp add: div_less_iff_less_mult)
    with False show ?thesis by (simp add: integer_divide_ceil_def)
  qed
qed

text \<open>The value carried over to a new ordinal.\<close>

definition decayed :: "u32 \<Rightarrow> u32 \<Rightarrow> usage_accumulator \<Rightarrow> nat" where
  "decayed ordinal window a =
     (if ordinal = last_ordinal a then value_ex a
      else if ordinal < last_ordinal a + window
      then value_ex a * (window - (ordinal - last_ordinal a)) div window
      else 0)"

definition contribution :: "u64 \<Rightarrow> u32 \<Rightarrow> nat" where
  "contribution units window = integer_divide_ceil (units * rate_limiting_precision) window"

definition accumulator_ok :: "usage_accumulator \<Rightarrow> bool" where
  "accumulator_ok a \<longleftrightarrow> last_ordinal a < 2 ^ 32 \<and> value_ex a \<le> u64_max \<and> consumed a \<le> u64_max"

lemma decayed_le: "decayed ordinal window a \<le> value_ex a"
proof -
  have "value_ex a * (window - (ordinal - last_ordinal a)) div window \<le> value_ex a" if "window > 0"
    using that by (metis diff_le_self div_le_mono mult_le_mono2 nonzero_mult_div_cancel_right less_not_refl)
  then show ?thesis by (cases "window = 0") (auto simp: decayed_def)
qed

lemma accumulator_decay_eq:
  assumes "last_ordinal a < ordinal" and "ordinal < 2 ^ 32" and "0 < window" and "window < 2 ^ 32"
  shows "accumulator_decay ordinal window a =
    (if ordinal < last_ordinal a + window \<and> \<not> value_ex a * (window - (ordinal - last_ordinal a)) \<le> u64_max
     then Inl Rate_limiting_state_inconsistent
     else Inr \<lparr>last_ordinal = ordinal, value_ex = decayed ordinal window a,
       consumed = integer_divide_ceil (decayed ordinal window a) rate_limiting_precision\<rparr>)"
proof -
  have "sub64 window (sub32 ordinal (last_ordinal a)) = window - (ordinal - last_ordinal a)"
    if "ordinal < last_ordinal a + window"
    using that assms by (simp add: sub32_id sub64_id)
  then show ?thesis
    using assms by (auto simp: accumulator_decay_def ratio_times_eq decayed_def average_def Let_def)
qed

lemma contribution_le: "0 < window \<Longrightarrow> contribution units window \<le> units * rate_limiting_precision"
  by (simp add: contribution_def integer_divide_ceil_le_iff)

lemma max_raw_value_eq: "max_raw_value = 18446744073709"
  by (simp add: max_raw_value_def rate_limiting_precision_def)

lemma average_small:
  "v \<le> u64_max \<Longrightarrow> integer_divide_ceil v rate_limiting_precision \<le> 18446744073710"
  by (subst integer_divide_ceil_le_iff) (simp_all add: rate_limiting_precision_def)

lemma accumulator_add_eq:
  assumes "accumulator_ok a" and "ordinal < 2 ^ 32" and "0 < window" and "window < 2 ^ 32"
  shows "accumulator_add units ordinal window a =
    (if units > max_raw_value \<or> units > u64_max - consumed a \<or>
        contribution units window > u64_max - value_ex a then Inl Rate_limiting_state_inconsistent
     else if ordinal < last_ordinal a then Inl Resource_limit_exception
     else if last_ordinal a < ordinal \<and> ordinal < last_ordinal a + window \<and>
        value_ex a * (window - (ordinal - last_ordinal a)) > u64_max
     then Inl Rate_limiting_state_inconsistent
     else Inr \<lparr>last_ordinal = ordinal,
       value_ex = decayed ordinal window a + contribution units window,
       consumed = (if ordinal = last_ordinal a then consumed a
         else integer_divide_ceil (decayed ordinal window a) rate_limiting_precision) + units\<rparr>)"
proof -
  note ok = assms(1) [unfolded accumulator_ok_def]
  have w128: "wrap128 (units * rate_limiting_precision) = units * rate_limiting_precision"
    if "units \<le> max_raw_value"
    using that by (simp add: max_raw_value_eq rate_limiting_precision_def)
  have contrib: "contribution units window \<le> u64_max" if "units \<le> max_raw_value"
    using contribution_le [OF assms(3), of units] that
    by (simp add: max_raw_value_eq rate_limiting_precision_def)
  have sums: "wrap64 (decayed ordinal window a + contribution units window) =
      decayed ordinal window a + contribution units window"
    if "contribution units window \<le> u64_max - value_ex a"
  proof -
    have "decayed ordinal window a + contribution units window \<le> u64_max"
      using that decayed_le [of ordinal window a] ok by linarith
    then show ?thesis by simp
  qed
  have cons: "wrap64 (integer_divide_ceil (decayed ordinal window a) rate_limiting_precision + units) =
      integer_divide_ceil (decayed ordinal window a) rate_limiting_precision + units"
    if "units \<le> max_raw_value"
  proof -
    have "decayed ordinal window a \<le> u64_max"
      using decayed_le [of ordinal window a] ok by linarith
    from average_small [OF this] that show ?thesis
      by (intro wrap64_id) (simp add: max_raw_value_eq)
  qed
  have same: "decayed ordinal window a = value_ex a" if "ordinal = last_ordinal a"
    using that by (simp add: decayed_def)
  consider "ordinal < last_ordinal a" | "ordinal = last_ordinal a" | "last_ordinal a < ordinal" by linarith
  then show ?thesis
  proof cases
    case 1
    then show ?thesis
      using assms(3) w128 contrib
      by (auto simp: accumulator_add_def downgrade_cast_u64_def accumulator_decay_def
          contribution_def [symmetric] eos_assert_def)
  next
    case 2
    then show ?thesis
      using assms(3) w128 contrib sums same ok
      by (auto simp: accumulator_add_def downgrade_cast_u64_def contribution_def [symmetric] eos_assert_def)
  next
    case 3
    then show ?thesis
      using assms w128 contrib sums cons
      by (auto simp: accumulator_add_def downgrade_cast_u64_def accumulator_decay_eq
          contribution_def [symmetric] eos_assert_def)
  qed
qed

text \<open>
  C10. Adding usage to a moving average: the value decays linearly over the window, the new
  usage contributes its share rounded up, nothing wraps around, and the call is refused exactly
  when a value would not fit 64 bits or the ordinal lies in the past.
\<close>

theorem accumulator_add_exact:
  assumes "accumulator_ok a" and "ordinal < 2 ^ 32" and "0 < window" and "window < 2 ^ 32"
  shows "accumulator_add units ordinal window a =
    (if units > max_raw_value \<or> units > u64_max - consumed a \<or>
        contribution units window > u64_max - value_ex a then Inl Rate_limiting_state_inconsistent
     else if ordinal < last_ordinal a then Inl Resource_limit_exception
     else if last_ordinal a < ordinal \<and> ordinal < last_ordinal a + window \<and>
        value_ex a * (window - (ordinal - last_ordinal a)) > u64_max
     then Inl Rate_limiting_state_inconsistent
     else Inr \<lparr>last_ordinal = ordinal,
       value_ex = decayed ordinal window a + contribution units window,
       consumed = (if ordinal = last_ordinal a then consumed a
         else integer_divide_ceil (decayed ordinal window a) rate_limiting_precision) + units\<rparr>)"
  by (rule accumulator_add_eq [OF assms])

theorem accumulator_add_exact_witness:
  "accumulator_add 7 12 4 \<lparr>last_ordinal = 10, value_ex = 8000000, consumed = 8\<rparr> =
     Inr \<lparr>last_ordinal = 12, value_ex = 5750000, consumed = 11\<rparr>"
  using accumulator_add_exact [of "\<lparr>last_ordinal = 10, value_ex = 8000000, consumed = 8\<rparr>" 12 4 7]
  by (simp add: accumulator_ok_def decayed_def contribution_def integer_divide_ceil_def
      max_raw_value_def rate_limiting_precision_def)

text \<open>
  With one contribution of at most \<open>M\<close> per ordinal, the scaled value stays below \<open>M\<close> times the
  precision up to the rounding of one window.
\<close>

definition average_bound :: "nat \<Rightarrow> u32 \<Rightarrow> nat" where
  "average_bound M window = M * rate_limiting_precision + (window - 1)"

lemma decayed_contribution_le:
  assumes "value_ex a \<le> average_bound M window" and "units \<le> M" and "0 < window"
    and "last_ordinal a < ordinal"
  shows "decayed ordinal window a + contribution units window \<le> average_bound M window"
proof -
  let ?B = "average_bound M window"
  have contrib: "contribution units window * window \<le> ?B"
  proof -
    have "contribution units window * window \<le> units * rate_limiting_precision + (window - 1)"
      using assms(3) mod_less_divisor [OF assms(3), of "units * rate_limiting_precision"]
      by (auto simp: contribution_def integer_divide_ceil_def add_mult_distrib minus_mod_eq_div_mult [symmetric])
    also have "\<dots> \<le> ?B" using assms(2) by (simp add: average_bound_def)
    finally show ?thesis .
  qed
  have "decayed ordinal window a * window \<le> ?B * (window - 1)"
  proof (cases "ordinal < last_ordinal a + window")
    case True
    have "decayed ordinal window a * window \<le> value_ex a * (window - (ordinal - last_ordinal a))"
      using assms(4) True by (simp add: decayed_def)
    also have "\<dots> \<le> ?B * (window - 1)"
      using assms(1,4) by (intro mult_le_mono) auto
    finally show ?thesis .
  qed (use assms(4) in \<open>simp add: decayed_def\<close>)
  with contrib have "(decayed ordinal window a + contribution units window) * window \<le> ?B * (window - 1) + ?B"
    by (simp add: add_mult_distrib)
  also have "\<dots> = ?B * window" using assms(3) by (cases window) simp_all
  finally show ?thesis using assms(3) by simp
qed

section \<open>Closing a block\<close>

text \<open>
  Parameters for which the arithmetic of the limits stays inside 64 bits as long as no block limit
  exceeds \<open>M\<close>, and the state of one resource between blocks. The bounds on the state are in terms
  of \<open>M\<close> and not of the current block limit, so they do not depend on which limit below \<open>M\<close> was in
  force when the usage was recorded.
\<close>

definition elastic_ok :: "nat \<Rightarrow> elastic_limit_parameters \<Rightarrow> bool" where
  "elastic_ok M p \<longleftrightarrow> 0 < periods p \<and> periods p < 2 ^ 32 \<and> 0 < max_multiplier p \<and>
     0 < denominator (contract_rate p) \<and> 0 < denominator (expand_rate p) \<and>
     limit_max p \<le> M \<and> M \<le> max_raw_value \<and>
     average_bound M (periods p) * (periods p + 2) \<le> u64_max \<and>
     M * max_multiplier p * numerator (contract_rate p) \<le> u64_max \<and>
     M * max_multiplier p * numerator (expand_rate p) \<le> u64_max \<and>
     M * max_multiplier p \<le> u64_max"

definition resource_ok :: "nat \<Rightarrow> elastic_limit_parameters \<Rightarrow> u64 \<Rightarrow> usage_accumulator \<Rightarrow> u64 \<Rightarrow> bool" where
  "resource_ok M p pending avg virt \<longleftrightarrow> elastic_ok M p \<and> pending \<le> M \<and>
     last_ordinal avg < 2 ^ 32 \<and>
     value_ex avg \<le> average_bound M (periods p) \<and>
     consumed avg \<le> average_bound M (periods p) + M \<and>
     virt \<le> M * max_multiplier p"

lemma elastic_multiple:
  assumes "elastic_ok M p"
  shows "limit_max p * max_multiplier p \<le> M * max_multiplier p" "M * max_multiplier p \<le> u64_max"
  using assms by (simp_all add: elastic_ok_def)

lemma update_elastic_limit_ok:
  assumes ok: "elastic_ok M p" and virt: "virt \<le> M * max_multiplier p"
  shows "\<exists>l. update_elastic_limit virt avg p = Inr l \<and> limit_max p \<le> l \<and> l \<le> limit_max p * max_multiplier p"
proof -
  have le: "virt * n \<le> u64_max" if "M * max_multiplier p * n \<le> u64_max" for n
    using that mult_le_mono1 [OF virt, of n] by linarith
  have "virt * numerator (contract_rate p) \<le> u64_max" "virt * numerator (expand_rate p) \<le> u64_max"
    using ok by (auto simp: elastic_ok_def intro: le)
  moreover have "limit_max p * max_multiplier p \<le> u64_max"
    using elastic_multiple [OF ok] by linarith
  then have "wrap64 (limit_max p * max_multiplier p) = limit_max p * max_multiplier p" by simp
  moreover have "limit_max p \<le> limit_max p * max_multiplier p"
    using ok by (simp add: elastic_ok_def)
  ultimately show ?thesis
    using ok by (auto simp: update_elastic_limit_def ratio_times_eq elastic_ok_def)
qed

lemma close_resource:
  assumes ok: "resource_ok M p pending avg virt" and "last_ordinal avg < n" and "n < 2 ^ 32"
  shows "\<exists>avg'. accumulator_add pending n (periods p) avg = Inr avg' \<and>
    last_ordinal avg' = n \<and> value_ex avg' \<le> average_bound M (periods p) \<and>
    consumed avg' \<le> average_bound M (periods p) + M"
proof -
  let ?W = "periods p" and ?B = "average_bound M (periods p)"
  have W: "0 < ?W" "?W < 2 ^ 32" and raw: "M \<le> max_raw_value" "pending \<le> M"
    and big: "?B * (?W + 2) \<le> u64_max" and val: "value_ex avg \<le> ?B"
    and cons: "consumed avg \<le> ?B + M" and last: "last_ordinal avg < 2 ^ 32"
    using ok by (auto simp: resource_ok_def elastic_ok_def)
  have B: "?B * ?W \<le> u64_max" "2 * ?B \<le> u64_max" "?B + ?B + ?B \<le> u64_max"
    using big W(1) by (cases ?W; simp)+
  have MB: "M \<le> ?B"
    by (simp add: average_bound_def rate_limiting_precision_def)
  have contrib: "contribution pending ?W \<le> ?B"
    using decayed_contribution_le [OF val raw(2) W(1) assms(2)] by linarith
  have decay: "value_ex avg * (?W - (n - last_ordinal avg)) \<le> u64_max"
  proof -
    have "value_ex avg * (?W - (n - last_ordinal avg)) \<le> ?B * ?W"
      using val by (intro mult_le_mono) auto
    with B(1) show ?thesis by linarith
  qed
  have "integer_divide_ceil (decayed n ?W avg) rate_limiting_precision \<le> ?B"
  proof -
    have "decayed n ?W avg \<le> ?B * rate_limiting_precision"
      using decayed_le [of n ?W avg] val by (simp add: rate_limiting_precision_def)
    then show ?thesis
      by (simp add: integer_divide_ceil_le_iff rate_limiting_precision_def)
  qed
  moreover have "accumulator_ok avg"
    using val cons last B MB by (simp add: accumulator_ok_def)
  ultimately show ?thesis
    using accumulator_add_eq [of avg n ?W pending] assms(2,3) W raw val cons contrib decay B MB
      decayed_contribution_le [OF val raw(2) W(1) assms(2)]
    by auto
qed

definition block_resources_ok :: "nat \<Rightarrow> resource_db \<Rightarrow> bool" where
  "block_resources_ok M db \<longleftrightarrow>
     (let s = limits_state db; c = limits_config db in
      resource_ok M (cpu_limit_parameters c) (pending_cpu_usage s) (average_block_cpu_usage s) (virtual_cpu_limit s) \<and>
      resource_ok M (net_limit_parameters c) (pending_net_usage s) (average_block_net_usage s) (virtual_net_limit s))"

text \<open>The virtual limit lies between the block limit and its multiple.\<close>

definition virtual_ok :: "elastic_limit_parameters \<Rightarrow> u64 \<Rightarrow> bool" where
  "virtual_ok p virt \<longleftrightarrow> limit_max p \<le> virt \<and> virt \<le> limit_max p * max_multiplier p"

lemma virtual_ok_bound: "elastic_ok M p \<Longrightarrow> virtual_ok p virt \<Longrightarrow> virt \<le> M * max_multiplier p"
  using elastic_multiple(1) unfolding virtual_ok_def by (blast intro: le_trans)

lemma process_block_usage_ok:
  assumes ok: "block_resources_ok M db" and n: "n < 2 ^ 32"
    "last_ordinal (average_block_cpu_usage (limits_state db)) < n"
    "last_ordinal (average_block_net_usage (limits_state db)) < n"
  shows "\<exists>db'. process_block_usage n db = Inr db' \<and> block_resources_ok M db' \<and>
    pending_cpu_usage (limits_state db') = 0 \<and> pending_net_usage (limits_state db') = 0 \<and>
    last_ordinal (average_block_cpu_usage (limits_state db')) = n \<and>
    last_ordinal (average_block_net_usage (limits_state db')) = n \<and>
    virtual_ok (cpu_limit_parameters (limits_config db)) (virtual_cpu_limit (limits_state db')) \<and>
    virtual_ok (net_limit_parameters (limits_config db)) (virtual_net_limit (limits_state db')) \<and>
    limits_config db' = limits_config db"
proof -
  let ?s = "limits_state db" and ?c = "limits_config db"
  let ?p = "cpu_limit_parameters ?c" and ?q = "net_limit_parameters ?c"
  have cpu: "resource_ok M ?p (pending_cpu_usage ?s) (average_block_cpu_usage ?s) (virtual_cpu_limit ?s)"
    and net: "resource_ok M ?q (pending_net_usage ?s) (average_block_net_usage ?s) (virtual_net_limit ?s)"
    using ok by (simp_all add: block_resources_ok_def Let_def)
  have el: "elastic_ok M ?p" "elastic_ok M ?q" using cpu net by (simp_all add: resource_ok_def)
  from close_resource [OF cpu n(2,1)] obtain a where a:
    "accumulator_add (pending_cpu_usage ?s) n (periods ?p) (average_block_cpu_usage ?s) = Inr a"
    "last_ordinal a = n" "value_ex a \<le> average_bound M (periods ?p)"
    "consumed a \<le> average_bound M (periods ?p) + M" by blast
  from close_resource [OF net n(3,1)] obtain b where b:
    "accumulator_add (pending_net_usage ?s) n (periods ?q) (average_block_net_usage ?s) = Inr b"
    "last_ordinal b = n" "value_ex b \<le> average_bound M (periods ?q)"
    "consumed b \<le> average_bound M (periods ?q) + M" by blast
  from update_elastic_limit_ok [OF el(1), of "virtual_cpu_limit ?s" "average a"] cpu obtain k where k:
    "update_elastic_limit (virtual_cpu_limit ?s) (average a) ?p = Inr k" "virtual_ok ?p k"
    by (auto simp: resource_ok_def virtual_ok_def)
  from update_elastic_limit_ok [OF el(2), of "virtual_net_limit ?s" "average b"] net obtain l where l:
    "update_elastic_limit (virtual_net_limit ?s) (average b) ?q = Inr l" "virtual_ok ?q l"
    by (auto simp: resource_ok_def virtual_ok_def)
  have "process_block_usage n db = Inr (db\<lparr>limits_state :=
      ?s\<lparr>average_block_cpu_usage := a, virtual_cpu_limit := k, pending_cpu_usage := 0,
         average_block_net_usage := b, virtual_net_limit := l, pending_net_usage := 0\<rparr>\<rparr>)"
    using a(1) b(1) k(1) l(1)
    by (simp add: process_block_usage_def update_virtual_cpu_limit_def update_virtual_net_limit_def Let_def)
  then show ?thesis
    using a b k l n(1) el virtual_ok_bound [OF el(1) k(2)] virtual_ok_bound [OF el(2) l(2)]
    by (simp add: block_resources_ok_def resource_ok_def Let_def)
qed

lemmas resource_defaults = initialize_database_def default_resource_config_def new_accumulator_def
  block_usage_average_window_ms_def account_usage_average_window_ms_def block_interval_ms_def
  default_gmr_def

end
