(* ===== verification/Resource_Totals.thy ===== *)
theory Resource_Totals
  imports Resource_Bounds
begin

text \<open>
  The manager's operations as a transition system: the invariant that ties the totals to the
  limits of the accounts, what applying the pending limits does, and what a billed transaction
  and a change of memory usage guarantee.
\<close>

section \<open>Sums over accounts\<close>

definition actual_sum :: "(resource_limits_object \<Rightarrow> i64) \<Rightarrow> resource_db \<Rightarrow> nat" where
  "actual_sum w db = tab_sum (\<lambda>(p, _) r. if p then 0 else nat (w r)) (account_limits db)"

definition pending_sum :: "(resource_limits_object \<Rightarrow> i64) \<Rightarrow> resource_db \<Rightarrow> nat" where
  "pending_sum w db = tab_sum (\<lambda>(p, _) r. if p then nat (w r) else 0) (account_limits db)"

definition limits_ok :: "resource_db \<Rightarrow> bool" where
  "limits_ok db \<longleftrightarrow> tab_ok (account_limits db) \<and>
     (\<forall>a. map_of (account_limits db) (True, a) \<noteq> None \<longrightarrow> map_of (account_limits db) (False, a) \<noteq> None) \<and>
     total_ram_bytes (limits_state db) = actual_sum ram_bytes db \<and>
     total_cpu_weight (limits_state db) = actual_sum cpu_weight db \<and>
     total_net_weight (limits_state db) = actual_sum net_weight db \<and>
     actual_sum ram_bytes db \<le> u64_max \<and> actual_sum cpu_weight db \<le> u64_max \<and>
     actual_sum net_weight db \<le> u64_max"

lemma limits_okD:
  assumes "limits_ok db"
  shows "tab_ok (account_limits db)"
    "map_of (account_limits db) (True, a) \<noteq> None \<Longrightarrow> map_of (account_limits db) (False, a) \<noteq> None"
    "total_ram_bytes (limits_state db) = actual_sum ram_bytes db"
    "total_cpu_weight (limits_state db) = actual_sum cpu_weight db"
    "total_net_weight (limits_state db) = actual_sum net_weight db"
    "actual_sum ram_bytes db \<le> u64_max" "actual_sum cpu_weight db \<le> u64_max"
    "actual_sum net_weight db \<le> u64_max"
  using assms by (simp_all add: limits_ok_def)

lemma actual_sum_ge:
  "map_of (account_limits db) (False, a) = Some r \<Longrightarrow> nat (w r) \<le> actual_sum w db"
  using tab_sum_ge [of "account_limits db" "(False, a)" r "\<lambda>(p, _) r. if p then 0 else nat (w r)"]
  by (simp add: actual_sum_def)

text \<open>The limits an account will have once the pending ones are applied.\<close>

definition effective_limits :: "resource_db \<Rightarrow> account_name \<Rightarrow> resource_limits_object option" where
  "effective_limits db a =
     (case map_of (account_limits db) (True, a) of
        Some p \<Rightarrow> Some p | None \<Rightarrow> map_of (account_limits db) (False, a))"

lemma update_state_and_value_eq:
  assumes "nat v \<le> t" and "t \<le> u64_max"
  shows "update_state_and_value t v pv =
    (if t - nat v + nat pv \<le> u64_max then Inr (t - nat v + nat pv)
     else Inl Rate_limiting_state_inconsistent)"
  using assms by (auto simp: update_state_and_value_def eos_assert_def)

section \<open>Applying the pending limits\<close>

lemma first_pending_None:
  "first_pending ls = None \<longleftrightarrow> (\<forall>a. map_of ls (True, a) = None)"
proof -
  have "first_pending ls = None \<longleftrightarrow> (\<forall>x \<in> set ls. \<not> fst (fst x))"
    by (simp add: first_pending_def filter_empty_conv)
  also have "\<dots> \<longleftrightarrow> (\<forall>a. (True, a) \<notin> fst ` set ls)"
    by force
  finally show ?thesis by (simp add: map_of_eq_None_iff)
qed

lemma first_pending_Some:
  assumes "tab_ok ls" and "first_pending ls = Some (a, p)"
  shows "map_of ls (True, a) = Some p"
  using first_pending_mem [OF assms(2)] assms(1) by (simp add: tab_ok_def)

text \<open>One round of the loop, on a consistent state: only an overflow of a total can stop it.\<close>

definition applied :: "account_name \<Rightarrow> resource_limits_object \<Rightarrow> resource_db \<Rightarrow> resource_db" where
  "applied a p db = db\<lparr>
     limits_state := (limits_state db)\<lparr>
       total_ram_bytes := total_ram_bytes (limits_state db)
         - nat (ram_bytes (the (map_of (account_limits db) (False, a)))) + nat (ram_bytes p),
       total_cpu_weight := total_cpu_weight (limits_state db)
         - nat (cpu_weight (the (map_of (account_limits db) (False, a)))) + nat (cpu_weight p),
       total_net_weight := total_net_weight (limits_state db)
         - nat (net_weight (the (map_of (account_limits db) (False, a)))) + nat (net_weight p)\<rparr>,
     account_limits := tab_remove (True, a) (tab_modify (False, a) p (account_limits db))\<rparr>"

lemma applied_sums:
  assumes "map_of (account_limits db) (True, a) = Some p" and "map_of (account_limits db) (False, a) = Some r"
  shows "actual_sum w (applied a p db) + nat (w r) = actual_sum w db + nat (w p)"
    and "pending_sum w (applied a p db) + nat (w p) = pending_sum w db"
proof -
  let ?m = "tab_modify (False, a) p (account_limits db)"
  have "map_of ?m (True, a) = Some p" by (simp add: rows.modify_find assms(1))
  note removed = tab_sum_remove [OF this] and modified = tab_sum_modify [OF assms(2)]
  show "actual_sum w (applied a p db) + nat (w r) = actual_sum w db + nat (w p)"
    using removed [of "\<lambda>(p, _) r. if p then 0 else nat (w r)"]
      modified [of "\<lambda>(p, _) r. if p then 0 else nat (w r)" p]
    by (simp add: actual_sum_def applied_def)
  show "pending_sum w (applied a p db) + nat (w p) = pending_sum w db"
    using removed [of "\<lambda>(p, _) r. if p then nat (w r) else 0"]
      modified [of "\<lambda>(p, _) r. if p then nat (w r) else 0" p]
    by (simp add: pending_sum_def applied_def)
qed

lemma apply_pending_eq:
  assumes ok: "limits_ok db" and p: "map_of (account_limits db) (True, a) = Some p"
  shows "apply_pending a p db =
    (if actual_sum ram_bytes (applied a p db) \<le> u64_max \<and> actual_sum cpu_weight (applied a p db) \<le> u64_max \<and>
        actual_sum net_weight (applied a p db) \<le> u64_max
     then Inr (applied a p db) else Inl Rate_limiting_state_inconsistent)"
proof -
  from limits_okD(2) [OF ok, of a] p obtain r where r: "map_of (account_limits db) (False, a) = Some r"
    by auto
  have sum: "actual_sum w (applied a p db) = actual_sum w db - nat (w r) + nat (w p)" for w
    using applied_sums(1) [OF p r, of w] actual_sum_ge [OF r, of w] by linarith
  note usv = update_state_and_value_eq [OF actual_sum_ge [OF r]]
  have same: "r\<lparr>ram_bytes := ram_bytes p, cpu_weight := cpu_weight p, net_weight := net_weight p\<rparr> = p"
    by (cases r, cases p) simp
  show ?thesis
    unfolding apply_pending_def Let_def tab_get_def r from_some_simps ebind_simps same
      limits_okD(3-5) [OF ok] usv [OF limits_okD(6) [OF ok]] usv [OF limits_okD(7) [OF ok]]
      usv [OF limits_okD(8) [OF ok]] sum
    by (simp add: applied_def r limits_okD(3-5) [OF ok])
qed

lemma applied_ok:
  assumes ok: "limits_ok db" and p: "map_of (account_limits db) (True, a) = Some p"
    and fits: "actual_sum ram_bytes (applied a p db) \<le> u64_max" "actual_sum cpu_weight (applied a p db) \<le> u64_max"
      "actual_sum net_weight (applied a p db) \<le> u64_max"
  shows "limits_ok (applied a p db)" and "effective_limits (applied a p db) = effective_limits db"
proof -
  from limits_okD(2) [OF ok, of a] p obtain r where r: "map_of (account_limits db) (False, a) = Some r"
    by auto
  note tab = limits_okD(1) [OF ok]
  have find: "map_of (account_limits (applied a p db)) k =
      (if k = (True, a) then None else if k = (False, a) then Some p else map_of (account_limits db) k)" for k
    using tab r by (simp add: applied_def rows.remove_find rows.modify_ok rows.modify_find)
  have sum: "actual_sum w (applied a p db) = actual_sum w db - nat (w r) + nat (w p)" for w
    using applied_sums(1) [OF p r, of w] actual_sum_ge [OF r, of w] by linarith
  have "total_ram_bytes (limits_state (applied a p db)) = actual_sum ram_bytes (applied a p db)"
    "total_cpu_weight (limits_state (applied a p db)) = actual_sum cpu_weight (applied a p db)"
    "total_net_weight (limits_state (applied a p db)) = actual_sum net_weight (applied a p db)"
    using limits_okD(3-5) [OF ok] unfolding sum by (simp_all add: applied_def r)
  moreover have "tab_ok (account_limits (applied a p db))"
    using tab by (simp add: applied_def rows.remove_ok rows.modify_ok)
  moreover have "map_of (account_limits (applied a p db)) (True, b) \<noteq> None \<longrightarrow>
      map_of (account_limits (applied a p db)) (False, b) \<noteq> None" for b
    using limits_okD(2) [OF ok, of b] by (simp add: find)
  ultimately show "limits_ok (applied a p db)"
    using fits unfolding limits_ok_def by blast
  show "effective_limits (applied a p db) = effective_limits db"
    using p r by (auto simp: effective_limits_def fun_eq_iff find split: option.splits)
qed

lemma process_limits_ok:
  assumes "limits_ok db" and "process_account_limit_updates db = Inr db'"
  shows "limits_ok db' \<and> effective_limits db' = effective_limits db \<and>
    (\<forall>a. map_of (account_limits db') (True, a) = None)"
  using assms
proof (induction db rule: process_account_limit_updates.induct)
  case (1 db)
  show ?case
  proof (cases "first_pending (account_limits db)")
    case None
    with "1.prems" have "db' = db" by (simp add: process_account_limit_updates.simps)
    with None "1.prems"(1) show ?thesis by (simp add: first_pending_None)
  next
    case (Some x)
    obtain a p where x: "x = (a, p)" by (cases x)
    note p = first_pending_Some [OF limits_okD(1) [OF "1.prems"(1)] Some [unfolded x]]
    note ok = applied_ok [OF "1.prems"(1) p] and eq = apply_pending_eq [OF "1.prems"(1) p]
    from "1.prems"(2) Some x obtain db1 where db1: "apply_pending a p db = Inr db1"
      "process_account_limit_updates db1 = Inr db'"
      by (simp add: process_account_limit_updates.simps [of db] split: sum.splits)
    with eq have "db1 = applied a p db" and "limits_ok db1" "effective_limits db1 = effective_limits db"
      using ok by (auto split: if_splits)
    then show ?thesis
      using "1.IH" [OF Some x [symmetric] db1(1) _ db1(2)] x by simp
  qed
qed

lemma process_limits_succeeds:
  assumes "limits_ok db"
    and "\<forall>w \<in> {ram_bytes, cpu_weight, net_weight}. actual_sum w db + pending_sum w db \<le> u64_max"
  shows "\<exists>db'. process_account_limit_updates db = Inr db'"
  using assms
proof (induction db rule: process_account_limit_updates.induct)
  case (1 db)
  show ?case
  proof (cases "first_pending (account_limits db)")
    case None
    then show ?thesis by (simp add: process_account_limit_updates.simps)
  next
    case (Some x)
    obtain a p where x: "x = (a, p)" by (cases x)
    note p = first_pending_Some [OF limits_okD(1) [OF "1.prems"(1)] Some [unfolded x]]
    from limits_okD(2) [OF "1.prems"(1), of a] p obtain r
      where r: "map_of (account_limits db) (False, a) = Some r" by auto
    have less: "actual_sum w (applied a p db) + pending_sum w (applied a p db) \<le> actual_sum w db + pending_sum w db" for w
      using applied_sums [OF p r, of w] by linarith
    then have fits: "\<forall>w \<in> {ram_bytes, cpu_weight, net_weight}.
        actual_sum w (applied a p db) + pending_sum w (applied a p db) \<le> u64_max"
      using "1.prems"(2) order_trans by blast
    then have "apply_pending a p db = Inr (applied a p db)"
      using apply_pending_eq [OF "1.prems"(1) p] by simp
    moreover have "limits_ok (applied a p db)"
      using applied_ok(1) [OF "1.prems"(1) p] fits by simp
    ultimately show ?thesis
      using "1.IH" [OF Some x [symmetric] _ _ fits] Some x
      by (simp add: process_account_limit_updates.simps [of db])
  qed
qed

text \<open>
  C14. Applying the pending limits: on a consistent state whose limits fit 64 bits in total the
  loop ends and succeeds, no limit is pending afterwards, every account has exactly the limits
  that were pending for it or else its old ones, and the totals are again the sums.
\<close>

theorem process_account_limit_updates_exact:
  assumes "limits_ok db"
    and "\<forall>w \<in> {ram_bytes, cpu_weight, net_weight}. actual_sum w db + pending_sum w db \<le> u64_max"
  shows "\<exists>db'. process_account_limit_updates db = Inr db' \<and> limits_ok db' \<and>
    (\<forall>a. map_of (account_limits db') (True, a) = None \<and>
         map_of (account_limits db') (False, a) = effective_limits db a)"
proof -
  from process_limits_succeeds [OF assms] obtain db'
    where db': "process_account_limit_updates db = Inr db'" by blast
  from process_limits_ok [OF assms(1) this] have "limits_ok db'"
    and none: "\<And>a. map_of (account_limits db') (True, a) = None"
    and eff: "effective_limits db' = effective_limits db" by auto
  moreover have "map_of (account_limits db') (False, a) = effective_limits db a" for a
    using none [of a] fun_cong [OF eff, of a] by (simp add: effective_limits_def)
  ultimately show ?thesis using db' none by blast
qed

section \<open>Every operation keeps the state consistent\<close>

definition usage_row_ok :: "resource_usage_object \<Rightarrow> bool" where
  "usage_row_ok r \<longleftrightarrow> accumulator_ok (net_usage r) \<and> accumulator_ok (cpu_usage r) \<and> ram_usage r \<le> u64_max"

definition usage_ok :: "resource_db \<Rightarrow> bool" where
  "usage_ok db \<longleftrightarrow> tab_ok (account_usage db) \<and>
     (\<forall>a r. map_of (account_usage db) a = Some r \<longrightarrow> usage_row_ok r) \<and>
     account_cpu_usage_average_window (limits_config db) \<in> {0<..<2 ^ 32} \<and>
     account_net_usage_average_window (limits_config db) \<in> {0<..<2 ^ 32}"

definition resource_inv :: "resource_db \<Rightarrow> bool" where
  "resource_inv db \<longleftrightarrow> limits_ok db \<and> usage_ok db"

inductive resource_step :: "(bytes \<Rightarrow> i64 res) \<Rightarrow> resource_db \<Rightarrow> resource_db \<Rightarrow> bool" for unpack where
  "initialize_account a db = Inr db' \<Longrightarrow> resource_step unpack db db'"
| "set_gmr_parameters g db = Inr db' \<Longrightarrow> resource_step unpack db db'"
| "set_block_parameters cpu net db = Inr db' \<Longrightarrow> resource_step unpack db db'"
| "update_account_usage accounts slot db = Inr db' \<Longrightarrow> slot < 2 ^ 32 \<Longrightarrow> resource_step unpack db db'"
| "add_transaction_usage unpack accounts c n slot db = Inr db' \<Longrightarrow> slot < 2 ^ 32 \<Longrightarrow>
     resource_step unpack db db'"
| "add_pending_ram_usage a delta db = Inr db' \<Longrightarrow> resource_step unpack db db'"
| "set_account_limits a r n c db = Inr (decreased, db') \<Longrightarrow> resource_step unpack db db'"
| "process_account_limit_updates db = Inr db' \<Longrightarrow> resource_step unpack db db'"
| "process_block_usage num db = Inr db' \<Longrightarrow> resource_step unpack db db'"

lemma limits_ok_cong:
  assumes "account_limits db' = account_limits db"
    and "total_ram_bytes (limits_state db') = total_ram_bytes (limits_state db)"
    and "total_cpu_weight (limits_state db') = total_cpu_weight (limits_state db)"
    and "total_net_weight (limits_state db') = total_net_weight (limits_state db)"
  shows "limits_ok db' \<longleftrightarrow> limits_ok db"
  using assms by (simp add: limits_ok_def actual_sum_def)

lemma usage_ok_cong:
  assumes "account_usage db' = account_usage db"
    and "account_cpu_usage_average_window (limits_config db') = account_cpu_usage_average_window (limits_config db)"
    and "account_net_usage_average_window (limits_config db') = account_net_usage_average_window (limits_config db)"
  shows "usage_ok db' \<longleftrightarrow> usage_ok db"
  using assms by (simp add: usage_ok_def)

lemma usage_ok_modify:
  "usage_ok db \<Longrightarrow> usage_row_ok r \<Longrightarrow> usage_ok (db\<lparr>account_usage := tab_modify a r (account_usage db)\<rparr>)"
  by (auto simp: usage_ok_def rows.modify_ok rows.modify_find)

lemma usage_okD:
  assumes "usage_ok db" and "tab_get (account_usage db) a = Inr r"
  shows "accumulator_ok (net_usage r)" "accumulator_ok (cpu_usage r)" "ram_usage r \<le> u64_max"
  using assms by (auto simp: usage_ok_def tab_get_def usage_row_ok_def res_simps)

lemma accumulator_add_ok:
  assumes "accumulator_add units ordinal window a = Inr b" and "accumulator_ok a"
    and "ordinal < 2 ^ 32" and "0 < window" and "window < 2 ^ 32"
  shows "accumulator_ok b"
proof -
  have "integer_divide_ceil (decayed ordinal window a) rate_limiting_precision \<le> 18446744073710"
    using average_small decayed_le [of ordinal window a] assms(2) by (auto simp: accumulator_ok_def)
  then show ?thesis
    using assms(1,2) decayed_le [of ordinal window a] assms(3)
    unfolding accumulator_add_eq [OF assms(2-5)]
    by (auto simp: accumulator_ok_def max_raw_value_eq split: if_splits)
qed

lemma bill_account_cases:
  assumes "bill_account unpack cpu net slot a db = Inr db'"
  obtains usage ram net_w cpu_w net_acc cpu_acc where
    "tab_get (account_usage db) a = Inr usage"
    "get_account_limits unpack db a = Inr (ram, net_w, cpu_w)"
    "accumulator_add net slot (account_net_usage_average_window (limits_config db)) (net_usage usage) = Inr net_acc"
    "accumulator_add cpu slot (account_cpu_usage_average_window (limits_config db)) (cpu_usage usage) = Inr cpu_acc"
    "cpu_w < 0 \<or> total_cpu_weight (limits_state db) = 0 \<or>
       used_in_window cpu_acc (account_cpu_usage_average_window (limits_config db)) \<le>
       max_use_in_window (virtual_cpu_limit (limits_state db)) (account_cpu_usage_average_window (limits_config db))
         cpu_w (total_cpu_weight (limits_state db)) (cpu_us (gmr_config db))"
    "net_w < 0 \<or> total_net_weight (limits_state db) = 0 \<or>
       used_in_window net_acc (account_net_usage_average_window (limits_config db)) \<le>
       max_use_in_window (virtual_net_limit (limits_state db)) (account_net_usage_average_window (limits_config db))
         net_w (total_net_weight (limits_state db)) (cpu_us (gmr_config db))"
    "db' = db\<lparr>account_usage := tab_modify a (usage\<lparr>net_usage := net_acc, cpu_usage := cpu_acc\<rparr>) (account_usage db)\<rparr>"
  using assms unfolding bill_account_def Let_def res_simps split_paired_Ex
  by (auto simp: res_simps not_le)

lemma bill_account_inv:
  assumes "resource_inv db" and "bill_account unpack cpu net slot a db = Inr db'" and "slot < 2 ^ 32"
  shows "resource_inv db'"
  using assms(2)
proof (rule bill_account_cases)
  fix usage net_acc cpu_acc
  assume u: "tab_get (account_usage db) a = Inr usage"
    and n: "accumulator_add net slot (account_net_usage_average_window (limits_config db)) (net_usage usage) = Inr net_acc"
    and c: "accumulator_add cpu slot (account_cpu_usage_average_window (limits_config db)) (cpu_usage usage) = Inr cpu_acc"
    and db': "db' = db\<lparr>account_usage := tab_modify a (usage\<lparr>net_usage := net_acc, cpu_usage := cpu_acc\<rparr>) (account_usage db)\<rparr>"
  have ok: "limits_ok db" "usage_ok db" using assms(1) by (simp_all add: resource_inv_def)
  then have "usage_row_ok (usage\<lparr>net_usage := net_acc, cpu_usage := cpu_acc\<rparr>)"
    using accumulator_add_ok [OF n usage_okD(1) [OF ok(2) u] assms(3)]
      accumulator_add_ok [OF c usage_okD(2) [OF ok(2) u] assms(3)] usage_okD(3) [OF ok(2) u]
    by (simp add: usage_row_ok_def usage_ok_def)
  from usage_ok_modify [OF ok(2) this, of a] have "usage_ok db'" by (simp add: db')
  moreover have "limits_ok db'" using ok(1) limits_ok_cong [of db' db] by (simp add: db')
  ultimately show ?thesis by (simp add: resource_inv_def)
qed

lemma add_transaction_usage_cases:
  assumes "add_transaction_usage unpack accounts cpu net slot db = Inr db'"
  obtains db1 where "efold (bill_account unpack cpu net slot) accounts db = Inr db1"
    "db' = db1\<lparr>limits_state := (limits_state db1)\<lparr>
       pending_cpu_usage := wrap64 (pending_cpu_usage (limits_state db1) + cpu),
       pending_net_usage := wrap64 (pending_net_usage (limits_state db1) + net)\<rparr>\<rparr>"
    "wrap64 (pending_cpu_usage (limits_state db1) + cpu) \<le> limit_max (cpu_limit_parameters (limits_config db1))"
    "wrap64 (pending_net_usage (limits_state db1) + net) \<le> limit_max (net_limit_parameters (limits_config db1))"
  using assms by (auto simp: add_transaction_usage_def Let_def res_simps)

lemma add_transaction_usage_inv:
  assumes "resource_inv db" and "add_transaction_usage unpack accounts cpu net slot db = Inr db'"
    and "slot < 2 ^ 32"
  shows "resource_inv db'"
  using assms(2)
proof (rule add_transaction_usage_cases)
  fix db1
  assume bill: "efold (bill_account unpack cpu net slot) accounts db = Inr db1"
    and db': "db' = db1\<lparr>limits_state := (limits_state db1)\<lparr>
       pending_cpu_usage := wrap64 (pending_cpu_usage (limits_state db1) + cpu),
       pending_net_usage := wrap64 (pending_net_usage (limits_state db1) + net)\<rparr>\<rparr>"
  have "resource_inv db1"
    using efold_invariant [OF bill, of resource_inv] assms(1,3) bill_account_inv by blast
  then show ?thesis
    using limits_ok_cong [of db' db1] usage_ok_cong [of db' db1] by (simp add: resource_inv_def db')
qed

lemma update_account_usage_inv:
  assumes "resource_inv db" and "update_account_usage accounts slot db = Inr db'" and "slot < 2 ^ 32"
  shows "resource_inv db'"
  using assms(2) unfolding update_account_usage_def
proof (rule efold_invariant [where I = resource_inv])
  fix a and s s' :: resource_db
  assume inv: "resource_inv s" and step: "(let config = limits_config s in
       ebind (tab_get (account_usage s) a) (\<lambda>usage.
       ebind (accumulator_add 0 slot (account_net_usage_average_window config) (net_usage usage)) (\<lambda>net.
       ebind (accumulator_add 0 slot (account_cpu_usage_average_window config) (cpu_usage usage)) (\<lambda>cpu.
       Inr (s\<lparr>account_usage := tab_modify a (usage\<lparr>net_usage := net, cpu_usage := cpu\<rparr>) (account_usage s)\<rparr>))))) = Inr s'"
  from step obtain usage net cpu where u: "tab_get (account_usage s) a = Inr usage"
    and n: "accumulator_add 0 slot (account_net_usage_average_window (limits_config s)) (net_usage usage) = Inr net"
    and c: "accumulator_add 0 slot (account_cpu_usage_average_window (limits_config s)) (cpu_usage usage) = Inr cpu"
    and s': "s' = s\<lparr>account_usage := tab_modify a (usage\<lparr>net_usage := net, cpu_usage := cpu\<rparr>) (account_usage s)\<rparr>"
    by (auto simp: Let_def res_simps)
  from inv have ok: "limits_ok s" "usage_ok s" by (simp_all add: resource_inv_def)
  then have "usage_row_ok (usage\<lparr>net_usage := net, cpu_usage := cpu\<rparr>)"
    using accumulator_add_ok [OF n usage_okD(1) [OF ok(2) u] assms(3)]
      accumulator_add_ok [OF c usage_okD(2) [OF ok(2) u] assms(3)] usage_okD(3) [OF ok(2) u]
    by (simp add: usage_row_ok_def usage_ok_def)
  from usage_ok_modify [OF ok(2) this, of a] have "usage_ok s'" by (simp add: s')
  moreover have "limits_ok s'" using ok(1) limits_ok_cong [of s' s] by (simp add: s')
  ultimately show "resource_inv s'" by (simp add: resource_inv_def)
qed (rule assms(1))

lemma initialize_account_inv:
  assumes "resource_inv db" and "initialize_account a db = Inr db'"
  shows "resource_inv db'"
proof -
  from assms(2) obtain ls us where ls: "tab_create (False, a) new_limits (account_limits db) = Inr ls"
    and us: "tab_create a new_usage (account_usage db) = Inr us"
    and db': "db' = db\<lparr>account_limits := ls, account_usage := us\<rparr>"
    by (auto simp: initialize_account_def res_simps)
  from assms(1) have ok: "limits_ok db" "usage_ok db" by (simp_all add: resource_inv_def)
  have sums: "actual_sum ram_bytes db' = actual_sum ram_bytes db" "actual_sum cpu_weight db' = actual_sum cpu_weight db"
    "actual_sum net_weight db' = actual_sum net_weight db"
    using ls by (simp_all add: actual_sum_def db' tab_create_Inr new_limits_def)
  have "limits_ok db'"
    using limits_okD [OF ok(1)] rows.create_ok [OF ls] rows.create_find [OF ls]
    unfolding limits_ok_def sums by (simp add: db')
  moreover have "usage_row_ok new_usage"
    by (simp add: usage_row_ok_def new_usage_def accumulator_ok_def new_accumulator_def)
  then have "usage_ok db'"
    using ok(2) rows.create_ok [OF us] rows.create_find [OF us] by (auto simp: usage_ok_def db')
  ultimately show ?thesis by (simp add: resource_inv_def)
qed

lemma set_account_limits_inv:
  assumes "resource_inv db" and "set_account_limits a r n c db = Inr (b, db')"
  shows "resource_inv db'"
proof -
  from assms(1) have ok: "limits_ok db" "usage_ok db" by (simp_all add: resource_inv_def)
  from assms(2) obtain limits ls where
    old: "map_of ls (True, a) = Some limits" "tab_ok ls" "map_of (account_limits db) (False, a) \<noteq> None"
      "\<And>k. k \<noteq> (True, a) \<Longrightarrow> map_of ls k = map_of (account_limits db) k"
      "\<And>w. tab_sum (\<lambda>(p, _) r. if p then 0 else nat (w r)) ls = actual_sum w db"
    and db': "db' = db\<lparr>account_limits := tab_modify (True, a)
         (limits\<lparr>ram_bytes := r, net_weight := n, cpu_weight := c\<rparr>) ls\<rparr>"
  proof (cases "map_of (account_limits db) (True, a)")
    case None
    with assms(2) obtain limits ls where l: "tab_get (account_limits db) (False, a) = Inr limits"
      "tab_create (True, a) limits (account_limits db) = Inr ls"
      "db' = db\<lparr>account_limits := tab_modify (True, a)
         (limits\<lparr>ram_bytes := r, net_weight := n, cpu_weight := c\<rparr>) ls\<rparr>"
      by (auto simp: set_account_limits_def Let_def res_simps)
    show thesis
    proof (rule that [of ls limits])
      show "map_of ls (True, a) = Some limits" "\<And>k. k \<noteq> (True, a) \<Longrightarrow> map_of ls k = map_of (account_limits db) k"
        using rows.create_find [OF l(2)] by simp_all
      show "tab_sum (\<lambda>(p, _) r. if p then 0 else nat (w r)) ls = actual_sum w db" for w
        using l(2) by (simp add: tab_create_Inr actual_sum_def)
    qed (use l rows.create_ok [OF l(2) limits_okD(1) [OF ok(1)]] in \<open>auto simp: tab_get_def res_simps\<close>)
  next
    case (Some limits)
    with assms(2) limits_okD(1,2) [OF ok(1)] show thesis
      by (intro that [of "account_limits db" limits])
        (auto simp: set_account_limits_def Let_def actual_sum_def)
  qed
  have sums: "actual_sum w db' = actual_sum w db" for w
    using tab_sum_modify [OF old(1), of "\<lambda>(p, _) r. if p then 0 else nat (w r)"] old(5) [of w]
    unfolding actual_sum_def [of w db'] by (simp add: db')
  have "limits_ok db'"
    using limits_okD [OF ok(1)] old(1-4) unfolding limits_ok_def sums
    by (simp add: db' rows.modify_ok rows.modify_find)
  moreover have "usage_ok db'" using ok(2) usage_ok_cong [of db' db] by (simp add: db')
  ultimately show ?thesis by (simp add: resource_inv_def)
qed

lemma add_pending_ram_usage_eq:
  assumes "map_of (account_usage db) a = Some u" and "ram_usage u \<le> u64_max"
    and "- (2 ^ 63) < delta" and "delta < 2 ^ 63"
  shows "add_pending_ram_usage a delta db =
    (if delta = 0 then Inr db
     else if 0 \<le> int (ram_usage u) + delta \<and> int (ram_usage u) + delta \<le> int u64_max
     then Inr (db\<lparr>account_usage :=
       tab_modify a (u\<lparr>ram_usage := nat (int (ram_usage u) + delta)\<rparr>) (account_usage db)\<rparr>)
     else Inl Transaction_exception)"
proof -
  have "(int (ram_usage u) + delta) mod 2 ^ 64 = int (ram_usage u) + delta"
    if "0 \<le> int (ram_usage u) + delta" "int (ram_usage u) + delta \<le> int u64_max"
    using that by (intro mod_pos_pos_trivial) simp_all
  then show ?thesis
    using assms by (auto simp: add_pending_ram_usage_def tab_get_def eos_assert_def le_diff_conv nat_le_iff)
qed

lemma add_pending_ram_usage_inv:
  assumes "resource_inv db" and "add_pending_ram_usage a delta db = Inr db'"
  shows "resource_inv db'"
proof -
  from assms(1) have ok: "limits_ok db" "usage_ok db" by (simp_all add: resource_inv_def)
  consider "db' = db" | u r where "tab_get (account_usage db) a = Inr u"
    "db' = db\<lparr>account_usage := tab_modify a (u\<lparr>ram_usage := r\<rparr>) (account_usage db)\<rparr>" "r \<le> u64_max"
  proof (cases "db' = db")
    case False
    with assms(2) obtain u where u: "tab_get (account_usage db) a = Inr u"
      "db' = db\<lparr>account_usage := tab_modify a
        (u\<lparr>ram_usage := nat ((int (ram_usage u) + delta) mod 2 ^ 64)\<rparr>) (account_usage db)\<rparr>"
      by (auto simp: add_pending_ram_usage_def res_simps split: if_splits)
    moreover have "nat ((int (ram_usage u) + delta) mod 2 ^ 64) \<le> u64_max"
      using pos_mod_bound [of "2 ^ 64" "int (ram_usage u) + delta"] by simp
    ultimately show thesis using that(2) by blast
  qed (use that in blast)
  then show ?thesis
  proof cases
    case (2 u r)
    then have "usage_row_ok (u\<lparr>ram_usage := r\<rparr>)"
      using usage_okD [OF ok(2) 2(1)] by (simp add: usage_row_ok_def)
    from usage_ok_modify [OF ok(2) this, of a] have "usage_ok db'" by (simp add: 2(2))
    moreover have "limits_ok db'" using ok(1) limits_ok_cong [of db' db] by (simp add: 2(2))
    ultimately show ?thesis by (simp add: resource_inv_def)
  qed (use assms(1) in simp)
qed

lemma process_account_limit_updates_usage:
  "process_account_limit_updates db = Inr db' \<Longrightarrow>
   account_usage db' = account_usage db \<and> limits_config db' = limits_config db"
proof (induction db rule: process_account_limit_updates.induct)
  case (1 db)
  show ?case
  proof (cases "first_pending (account_limits db)")
    case None
    with "1.prems" show ?thesis by (simp add: process_account_limit_updates.simps)
  next
    case (Some x)
    obtain a p where x: "x = (a, p)" by (cases x)
    with "1.prems" Some obtain db1 where db1: "apply_pending a p db = Inr db1"
      "process_account_limit_updates db1 = Inr db'"
      by (simp add: process_account_limit_updates.simps [of db] split: sum.splits)
    from db1(1) have "account_usage db1 = account_usage db \<and> limits_config db1 = limits_config db"
      by (auto simp: apply_pending_def Let_def res_simps)
    with "1.IH" [OF Some x [symmetric] db1(1) db1(2)] x show ?thesis by simp
  qed
qed

lemma process_block_usage_frame:
  assumes "process_block_usage n db = Inr db'"
  shows "account_limits db' = account_limits db" "account_usage db' = account_usage db"
    "limits_config db' = limits_config db"
    "total_ram_bytes (limits_state db') = total_ram_bytes (limits_state db)"
    "total_cpu_weight (limits_state db') = total_cpu_weight (limits_state db)"
    "total_net_weight (limits_state db') = total_net_weight (limits_state db)"
  using assms by (auto simp: process_block_usage_def update_virtual_cpu_limit_def
      update_virtual_net_limit_def Let_def res_simps)

lemma resource_step_inv:
  assumes "resource_step unpack db db'" and "resource_inv db"
  shows "resource_inv db'"
  using assms
proof cases
  case (1 a)
  then show ?thesis using initialize_account_inv [OF assms(2)] by blast
next
  case (2 g)
  then have "db' = db\<lparr>gmr_config := g\<rparr>" by (auto simp: set_gmr_parameters_def res_simps)
  then show ?thesis
    using assms(2) limits_ok_cong [of db' db] usage_ok_cong [of db' db] by (simp add: resource_inv_def)
next
  case (3 cpu net)
  then have "db' = db \<or> db' = db\<lparr>limits_config :=
       (limits_config db)\<lparr>cpu_limit_parameters := cpu, net_limit_parameters := net\<rparr>\<rparr>"
    by (auto simp: set_block_parameters_def res_simps split: if_splits)
  then show ?thesis
    using assms(2) limits_ok_cong [of db' db] usage_ok_cong [of db' db] by (auto simp: resource_inv_def)
next
  case (4 accounts slot)
  then show ?thesis using update_account_usage_inv [OF assms(2)] by blast
next
  case (5 accounts c n slot)
  then show ?thesis using add_transaction_usage_inv [OF assms(2)] by blast
next
  case (6 a delta)
  then show ?thesis using add_pending_ram_usage_inv [OF assms(2)] by blast
next
  case (7 a r n c decreased)
  then show ?thesis using set_account_limits_inv [OF assms(2)] by blast
next
  case 8
  have ok: "limits_ok db" "usage_ok db" using assms(2) by (simp_all add: resource_inv_def)
  show ?thesis
    using process_limits_ok [OF ok(1) 8] process_account_limit_updates_usage [OF 8]
      usage_ok_cong [of db' db] ok(2) by (simp add: resource_inv_def)
next
  case (9 num)
  note f = process_block_usage_frame [OF this]
  show ?thesis
    using assms(2) limits_ok_cong [OF f(1,4,5,6)] usage_ok_cong [OF f(2)] f(3) by (simp add: resource_inv_def)
qed

lemma initial_resource_inv: "resource_inv (initialize_database tabs cfgs)"
  by (simp add: resource_inv_def limits_ok_def usage_ok_def tab_ok_def actual_sum_def resource_defaults)

interpretation limits: invariant_system
  "\<lambda>db. \<exists>tabs cfgs. db = initialize_database tabs cfgs" "resource_step unpack" resource_inv
  by unfold_locales (auto intro: resource_step_inv initial_resource_inv)

text \<open>
  C6. After any sequence of the manager's operations, the totals of memory, cpu and net
  weight are the sums over the accounts of their positive limits (and fit 64 bits), every
  account with pending limits also has actual ones, and every usage counter is in range.
\<close>

theorem reachable_totals:
  assumes "(resource_step unpack)\<^sup>*\<^sup>* (initialize_database tabs cfgs) db"
  shows "total_ram_bytes (limits_state db) = actual_sum ram_bytes db \<and>
    total_cpu_weight (limits_state db) = actual_sum cpu_weight db \<and>
    total_net_weight (limits_state db) = actual_sum net_weight db \<and> resource_inv db"
  using limits.reachable_inv [OF _ assms] by (auto simp: resource_inv_def limits_ok_def)

section \<open>Billing a transaction\<close>

lemma bill_account_frame:
  assumes "bill_account unpack cpu net slot a db = Inr db'"
  shows "\<exists>us. db' = db\<lparr>account_usage := us\<rparr> \<and> (\<forall>b. b \<noteq> a \<longrightarrow> map_of us b = map_of (account_usage db) b)"
  using assms by (rule bill_account_cases) (auto simp: rows.modify_find)

lemma bill_accounts_frame:
  assumes "efold (bill_account unpack cpu net slot) accounts db = Inr db'"
  shows "\<exists>us. db' = db\<lparr>account_usage := us\<rparr> \<and>
    (\<forall>b. b \<notin> set accounts \<longrightarrow> map_of us b = map_of (account_usage db) b)"
  using assms
proof (induction accounts arbitrary: db)
  case Nil
  then show ?case by (auto intro: exI [of _ "account_usage db"])
next
  case (Cons a accounts)
  then obtain db1 where db1: "bill_account unpack cpu net slot a db = Inr db1"
    "efold (bill_account unpack cpu net slot) accounts db1 = Inr db'"
    by (auto split: sum.splits)
  from Cons.IH [OF db1(2)] bill_account_frame [OF db1(1)] show ?case by auto
qed

lemma get_account_ram_limit_usage [simp]:
  "get_account_ram_limit unpack (db\<lparr>account_usage := us\<rparr>) a = get_account_ram_limit unpack db a"
  by (simp add: get_account_ram_limit_def Let_def cong: if_cong option.case_cong)

lemma get_account_limits_usage [simp]:
  "get_account_limits unpack (db\<lparr>account_usage := us\<rparr>) a = get_account_limits unpack db a"
  by (simp add: get_account_limits_def cong: option.case_cong)

lemma billed_account:
  assumes "efold (bill_account unpack cpu net slot) accounts db = Inr db'"
    and "distinct accounts" and "a \<in> set accounts"
  obtains db1 db2 where "bill_account unpack cpu net slot a db1 = Inr db2"
    "\<exists>us. db1 = db\<lparr>account_usage := us\<rparr>" "\<exists>us. db' = db\<lparr>account_usage := us\<rparr>"
    "map_of (account_usage db') a = map_of (account_usage db2) a"
proof -
  from split_list [OF assms(3)] obtain xs ys where xy: "accounts = xs @ a # ys" by blast
  with assms(1) obtain db1 db2 where d: "efold (bill_account unpack cpu net slot) xs db = Inr db1"
    "bill_account unpack cpu net slot a db1 = Inr db2"
    "efold (bill_account unpack cpu net slot) ys db2 = Inr db'"
    by (auto simp: efold_append res_simps efold_Cons_Inr simp del: efold.simps(2))
  have "a \<notin> set ys" using assms(2) xy by simp
  with bill_accounts_frame [OF d(3)] have same: "map_of (account_usage db') a = map_of (account_usage db2) a"
    by auto
  have "\<exists>us. db1 = db\<lparr>account_usage := us\<rparr>" "\<exists>us. db' = db\<lparr>account_usage := us\<rparr>"
    using bill_accounts_frame [OF d(1)] bill_accounts_frame [OF assms(1)] by auto
  from that [OF d(2) this same] show thesis .
qed

text \<open>What the checks of a successful billing establish.\<close>

lemma billed_within_checks:
  assumes "add_transaction_usage unpack accounts cpu net slot db = Inr db'"
    and "distinct accounts" and "a \<in> set accounts"
    and "get_account_limits unpack db a = Inr (ram, net_w, cpu_w)"
  shows "pending_cpu_usage (limits_state db') \<le> limit_max (cpu_limit_parameters (limits_config db)) \<and>
    pending_net_usage (limits_state db') \<le> limit_max (net_limit_parameters (limits_config db)) \<and>
    (\<exists>u. map_of (account_usage db') a = Some u \<and>
      (cpu_w < 0 \<or> total_cpu_weight (limits_state db) = 0 \<or>
       used_in_window (cpu_usage u) (account_cpu_usage_average_window (limits_config db)) \<le>
       max_use_in_window (virtual_cpu_limit (limits_state db)) (account_cpu_usage_average_window (limits_config db))
         cpu_w (total_cpu_weight (limits_state db)) (cpu_us (gmr_config db))) \<and>
      (net_w < 0 \<or> total_net_weight (limits_state db) = 0 \<or>
       used_in_window (net_usage u) (account_net_usage_average_window (limits_config db)) \<le>
       max_use_in_window (virtual_net_limit (limits_state db)) (account_net_usage_average_window (limits_config db))
         net_w (total_net_weight (limits_state db)) (cpu_us (gmr_config db))))"
  using assms(1)
proof (rule add_transaction_usage_cases)
  fix d
  assume fold: "efold (bill_account unpack cpu net slot) accounts db = Inr d"
    and db': "db' = d\<lparr>limits_state := (limits_state d)\<lparr>
       pending_cpu_usage := wrap64 (pending_cpu_usage (limits_state d) + cpu),
       pending_net_usage := wrap64 (pending_net_usage (limits_state d) + net)\<rparr>\<rparr>"
    and block: "wrap64 (pending_cpu_usage (limits_state d) + cpu) \<le> limit_max (cpu_limit_parameters (limits_config d))"
      "wrap64 (pending_net_usage (limits_state d) + net) \<le> limit_max (net_limit_parameters (limits_config d))"
  from fold assms(2,3) obtain db1 db2 us vs where bill: "bill_account unpack cpu net slot a db1 = Inr db2"
    and db1: "db1 = db\<lparr>account_usage := us\<rparr>" and d: "d = db\<lparr>account_usage := vs\<rparr>"
    and same: "map_of (account_usage d) a = map_of (account_usage db2) a"
    by (rule billed_account) blast
  from bill show ?thesis
  proof (rule bill_account_cases)
    fix usage ram' net_w' cpu_w' net_acc cpu_acc
    assume u: "tab_get (account_usage db1) a = Inr usage"
      and lim: "get_account_limits unpack db1 a = Inr (ram', net_w', cpu_w')"
      and db2: "db2 = db1\<lparr>account_usage := tab_modify a (usage\<lparr>net_usage := net_acc, cpu_usage := cpu_acc\<rparr>) (account_usage db1)\<rparr>"
      and within: "cpu_w' < 0 \<or> total_cpu_weight (limits_state db1) = 0 \<or>
       used_in_window cpu_acc (account_cpu_usage_average_window (limits_config db1)) \<le>
       max_use_in_window (virtual_cpu_limit (limits_state db1)) (account_cpu_usage_average_window (limits_config db1))
         cpu_w' (total_cpu_weight (limits_state db1)) (cpu_us (gmr_config db1))"
       "net_w' < 0 \<or> total_net_weight (limits_state db1) = 0 \<or>
       used_in_window net_acc (account_net_usage_average_window (limits_config db1)) \<le>
       max_use_in_window (virtual_net_limit (limits_state db1)) (account_net_usage_average_window (limits_config db1))
         net_w' (total_net_weight (limits_state db1)) (cpu_us (gmr_config db1))"
    from lim assms(4) have "net_w' = net_w" "cpu_w' = cpu_w" by (simp_all add: db1)
    moreover have "map_of (account_usage d) a = Some (usage\<lparr>net_usage := net_acc, cpu_usage := cpu_acc\<rparr>)"
      using u unfolding same by (simp add: db2 rows.modify_find tab_get_def res_simps)
    ultimately show ?thesis
      using within block by (simp add: db' db1 d)
  qed
qed

lemma get_account_limits_cong:
  assumes "account_limits db' = account_limits db" and "gmr_config db' = gmr_config db"
    and "contract_tables db' = contract_tables db" and "chain_configs db' = chain_configs db"
  shows "get_account_limits unpack db' a = get_account_limits unpack db a"
  unfolding get_account_limits_def get_account_ram_limit_def assms by (rule refl)

lemma add_transaction_usage_frame:
  assumes "add_transaction_usage unpack accounts cpu net slot db = Inr db'"
  shows "account_limits db' = account_limits db" "gmr_config db' = gmr_config db"
    "contract_tables db' = contract_tables db" "chain_configs db' = chain_configs db"
    "limits_config db' = limits_config db"
    "\<exists>c n. limits_state db' = (limits_state db)\<lparr>pending_cpu_usage := c, pending_net_usage := n\<rparr>"
proof -
  from assms obtain d where d: "efold (bill_account unpack cpu net slot) accounts db = Inr d"
    and db': "db' = d\<lparr>limits_state := (limits_state d)\<lparr>
       pending_cpu_usage := wrap64 (pending_cpu_usage (limits_state d) + cpu),
       pending_net_usage := wrap64 (pending_net_usage (limits_state d) + net)\<rparr>\<rparr>"
    by (rule add_transaction_usage_cases) blast
  from bill_accounts_frame [OF d] obtain us where "d = db\<lparr>account_usage := us\<rparr>" by blast
  with db' show "account_limits db' = account_limits db" "gmr_config db' = gmr_config db"
    "contract_tables db' = contract_tables db" "chain_configs db' = chain_configs db"
    "limits_config db' = limits_config db"
    "\<exists>c n. limits_state db' = (limits_state db)\<lparr>pending_cpu_usage := c, pending_net_usage := n\<rparr>"
    by auto
qed

lemma account_limit_of_max: "account_limit_of m u = Inr arl \<Longrightarrow> arl_max arl = int m"
  by (auto simp: account_limit_of_def downgrade_cast_i64_def res_simps)

text \<open>The limits that the manager reports for an account with a weight.\<close>

lemma reported_max:
  assumes "get_account_limits unpack db a = Inr (ram, net_w, cpu_w)"
  shows "get_account_cpu_limit_ex unpack db a True = Inr arl \<Longrightarrow> arl \<noteq> unlimited_account \<Longrightarrow>
      0 \<le> cpu_w \<and> total_cpu_weight (limits_state db) \<noteq> 0 \<and> arl_max arl = int (max_use_in_window
        (virtual_cpu_limit (limits_state db)) (account_cpu_usage_average_window (limits_config db))
        cpu_w (total_cpu_weight (limits_state db)) (cpu_us (gmr_config db)))"
    and "get_account_net_limit_ex unpack db a True = Inr arl \<Longrightarrow> arl \<noteq> unlimited_account \<Longrightarrow>
      0 \<le> net_w \<and> total_net_weight (limits_state db) \<noteq> 0 \<and> arl_max arl = int (max_use_in_window
        (virtual_net_limit (limits_state db)) (account_net_usage_average_window (limits_config db))
        net_w (total_net_weight (limits_state db)) (net_byte (gmr_config db)))"
  using assms by (auto simp: get_account_cpu_limit_ex_def get_account_net_limit_ex_def Let_def res_simps
      dest: account_limit_of_max split: if_splits)

lemma max_use_guaranteed:
  assumes "virt * window * nat w + g < 2 ^ 128"
  shows "int (max_use_in_window virt window w tot h) \<le> int (max_use_in_window virt window w tot g) + (int h - int g)"
proof -
  let ?x = "wrap128 (wrap128 (virt * window) * nat w) div tot"
  have "?x \<le> wrap128 (wrap128 (virt * window) * nat w)" by (rule div_le_dividend)
  also have "\<dots> \<le> wrap128 (virt * window) * nat w" by (simp only: wrap128_def mod_less_eq_dividend)
  also have "\<dots> \<le> virt * window * nat w" by (intro mult_le_mono1) (simp only: wrap128_def mod_less_eq_dividend)
  finally have "?x + g < 2 ^ 128" using assms by linarith
  then have "wrap128 (?x + g) = ?x + g" by simp
  moreover have "wrap128 (?x + h) \<le> ?x + h" by (simp only: wrap128_def mod_less_eq_dividend)
  ultimately show ?thesis unfolding max_use_in_window_def by linarith
qed

text \<open>
  C15. What a successful billing guarantees, against the limits that the manager itself reports
  afterwards. The pending usage of the block is within the block limits. The cpu that a billed
  account has used in its window is within the cpu limit reported for it. For net the guarantee is
  weaker: the check adds the guaranteed cpu time where the reported net limit adds the guaranteed
  net bytes, so the net used in the window exceeds the reported net limit by at most the
  difference of the two (when the share of the account fits 128 bits).
\<close>

theorem billed_within_reported_limits:
  assumes "add_transaction_usage unpack accounts cpu net slot db = Inr db'"
    and "distinct accounts" and "a \<in> set accounts"
    and "get_account_limits unpack db a = Inr (ram, net_w, cpu_w)"
    and "get_account_cpu_limit_ex unpack db' a True = Inr cpu_arl"
    and "get_account_net_limit_ex unpack db' a True = Inr net_arl"
    and "virtual_net_limit (limits_state db) * account_net_usage_average_window (limits_config db) * nat net_w +
      net_byte (gmr_config db) < 2 ^ 128"
  shows "pending_cpu_usage (limits_state db') \<le> limit_max (cpu_limit_parameters (limits_config db)) \<and>
    pending_net_usage (limits_state db') \<le> limit_max (net_limit_parameters (limits_config db)) \<and>
    (\<exists>u. map_of (account_usage db') a = Some u \<and>
      (cpu_arl = unlimited_account \<or>
       int (used_in_window (cpu_usage u) (account_cpu_usage_average_window (limits_config db))) \<le> arl_max cpu_arl) \<and>
      (net_arl = unlimited_account \<or>
       int (used_in_window (net_usage u) (account_net_usage_average_window (limits_config db))) \<le>
       arl_max net_arl + (int (cpu_us (gmr_config db)) - int (net_byte (gmr_config db)))))"
proof -
  note f = add_transaction_usage_frame [OF assms(1)]
  have lim: "get_account_limits unpack db' a = Inr (ram, net_w, cpu_w)"
    using assms(4) get_account_limits_cong [OF f(1-4)] by simp
  from f(6) have st: "virtual_cpu_limit (limits_state db') = virtual_cpu_limit (limits_state db)"
    "virtual_net_limit (limits_state db') = virtual_net_limit (limits_state db)"
    "total_cpu_weight (limits_state db') = total_cpu_weight (limits_state db)"
    "total_net_weight (limits_state db') = total_net_weight (limits_state db)" by auto
  note r = reported_max [OF lim, unfolded f(2,5) st]
  note g = max_use_guaranteed [OF assms(7), of "total_net_weight (limits_state db)" "cpu_us (gmr_config db)"]
  from billed_within_checks [OF assms(1-4)] show ?thesis
    using r(1) [OF assms(5)] r(2) [OF assms(6)] g by fastforce
qed

section \<open>Memory\<close>

text \<open>
  C29. A change of the memory usage of an account is accepted exactly when the result fits the
  unsigned counter, and then changes the counter by exactly that amount, with no wrap-around.
\<close>

theorem add_pending_ram_usage_exact:
  assumes "map_of (account_usage db) a = Some u" and "ram_usage u \<le> u64_max"
    and "- (2 ^ 63) < delta" and "delta < 2 ^ 63"
  shows "add_pending_ram_usage a delta db =
    (if delta = 0 then Inr db
     else if 0 \<le> int (ram_usage u) + delta \<and> int (ram_usage u) + delta \<le> int u64_max
     then Inr (db\<lparr>account_usage :=
       tab_modify a (u\<lparr>ram_usage := nat (int (ram_usage u) + delta)\<rparr>) (account_usage db)\<rparr>)
     else Inl Transaction_exception)"
  by (rule add_pending_ram_usage_eq [OF assms])

section \<open>A sample state\<close>

text \<open>One account with pending limits, reached from the initial state.\<close>

definition sample_limits :: resource_limits_object where
  "sample_limits = \<lparr>net_weight = 30, cpu_weight = 20, ram_bytes = 100\<rparr>"

definition sample_resources :: resource_db where
  "sample_resources = (initialize_database empty_contract_db [])\<lparr>
     account_limits := [((False, 5), new_limits), ((True, 5), sample_limits)],
     account_usage := [(5, new_usage)]\<rparr>"

abbreviation sample_account :: resource_db where
  "sample_account \<equiv> (initialize_database empty_contract_db [])\<lparr>
     account_limits := [((False, 5), new_limits)], account_usage := [(5, new_usage)]\<rparr>"

lemma sample_account_created: "initialize_account 5 (initialize_database empty_contract_db []) = Inr sample_account"
  by (simp add: initialize_account_def tab_create_def initialize_database_def)

lemma sample_limits_set: "set_account_limits 5 100 30 20 sample_account = Inr (True, sample_resources)"
  by (simp add: set_account_limits_def tab_get_def tab_create_def new_limits_def sample_limits_def
      sample_resources_def Let_def initialize_database_def)

lemma sample_resources_reachable:
  "(resource_step (\<lambda>_. Inr 0))\<^sup>*\<^sup>* (initialize_database empty_contract_db []) sample_resources"
  using sample_account_created sample_limits_set
  by (meson resource_step.intros(1,7) converse_rtranclp_into_rtranclp rtranclp.rtrancl_refl)

theorem reachable_totals_witness:
  "(resource_step (\<lambda>_. Inr 0))\<^sup>*\<^sup>* (initialize_database empty_contract_db []) sample_resources \<and>
   resource_inv sample_resources"
  using reachable_totals [OF sample_resources_reachable] sample_resources_reachable by simp

lemma sample_resources_inv: "resource_inv sample_resources"
  using limits.reachable_inv [OF _ sample_resources_reachable] by blast

theorem process_account_limit_updates_exact_witness:
  "\<exists>db'. process_account_limit_updates sample_resources = Inr db' \<and>
     map_of (account_limits db') (False, 5) = Some sample_limits"
proof -
  have "\<forall>w \<in> {ram_bytes, cpu_weight, net_weight}.
      actual_sum w sample_resources + pending_sum w sample_resources \<le> u64_max"
    by (simp add: actual_sum_def pending_sum_def sample_resources_def new_limits_def sample_limits_def)
  from process_account_limit_updates_exact [OF _ this] sample_resources_inv
  show ?thesis
    by (auto simp: resource_inv_def effective_limits_def sample_resources_def)
qed

theorem add_pending_ram_usage_exact_witness:
  "add_pending_ram_usage 5 (-1) sample_resources = Inl Transaction_exception"
  using add_pending_ram_usage_exact [of sample_resources 5 new_usage "-1"]
  by (simp add: sample_resources_def new_usage_def)

text \<open>The same account with its limits applied, billed for a transaction.\<close>

definition sample_billing :: resource_db where
  "sample_billing = sample_resources\<lparr>account_limits := [((False, 5), sample_limits)],
     limits_state := (limits_state sample_resources)\<lparr>total_cpu_weight := 20, total_net_weight := 30,
       total_ram_bytes := 100\<rparr>\<rparr>"

lemma sample_billing_limits:
  "get_account_limits (\<lambda>_. Inr 0) sample_billing 5 = Inr (8192, 30, 20)"
  by (simp add: get_account_limits_def get_account_ram_limit_def sample_billing_def sample_resources_def
      sample_limits_def memory_db_get_def find_table_def empty_contract_db_def tab_get_def
      constant_values i64_of_u64_def resource_defaults)

definition sample_billed :: resource_db where
  "sample_billed = sample_billing\<lparr>account_usage := tab_modify 5
      (new_usage\<lparr>net_usage := \<lparr>last_ordinal = 1, value_ex = 186, consumed = 16\<rparr>,
        cpu_usage := \<lparr>last_ordinal = 1, value_ex = 116, consumed = 10\<rparr>\<rparr>) (account_usage sample_billing),
     limits_state := (limits_state sample_billing)\<lparr>pending_cpu_usage := 10, pending_net_usage := 16\<rparr>\<rparr>"

lemma sample_billing_succeeds:
  "add_transaction_usage (\<lambda>_. Inr 0) [5] 10 16 1 sample_billing = Inr sample_billed"
proof -
  have acc: "accumulator_add 10 1 86400 new_accumulator = Inr \<lparr>last_ordinal = 1, value_ex = 116, consumed = 10\<rparr>"
    "accumulator_add 16 1 86400 new_accumulator = Inr \<lparr>last_ordinal = 1, value_ex = 186, consumed = 16\<rparr>"
    by (simp_all add: accumulator_add_eq accumulator_ok_def new_accumulator_def decayed_def
        contribution_def integer_divide_ceil_def max_raw_value_def rate_limiting_precision_def)
  have used: "used_in_window \<lparr>last_ordinal = 1, value_ex = 116, consumed = 10\<rparr> 86400 = 10"
    "used_in_window \<lparr>last_ordinal = 1, value_ex = 186, consumed = 16\<rparr> 86400 = 16"
    by (simp_all add: used_in_window_def rate_limiting_precision_def)
  have share: "max_use_in_window 1000000 86400 20 20 200000 = 86400200000"
    "max_use_in_window 1048576 86400 30 30 200000 = 90597166400"
    by (simp_all add: max_use_in_window_def)
  have fields: "limits_state sample_billing = (limits_state (initialize_database empty_contract_db []))
      \<lparr>total_cpu_weight := 20, total_net_weight := 30, total_ram_bytes := 100\<rparr>"
    "limits_config sample_billing = default_resource_config" "gmr_config sample_billing = default_gmr"
    "tab_get (account_usage sample_billing) 5 = Inr new_usage"
    by (simp_all add: sample_billing_def sample_resources_def initialize_database_def tab_get_def)
  have window: "account_cpu_usage_average_window default_resource_config = 86400"
    "account_net_usage_average_window default_resource_config = 86400"
    "limit_max (cpu_limit_parameters default_resource_config) = 1000000"
    "limit_max (net_limit_parameters default_resource_config) = 1048576"
    "cpu_us default_gmr = 200000"
    by (simp_all add: resource_defaults)
  have state: "virtual_cpu_limit (limits_state (initialize_database tabs cfgs)) = 1000000"
    "virtual_net_limit (limits_state (initialize_database tabs cfgs)) = 1048576"
    "pending_cpu_usage (limits_state (initialize_database tabs cfgs)) = 0"
    "pending_net_usage (limits_state (initialize_database tabs cfgs)) = 0" for tabs cfgs
    by (simp_all add: initialize_database_def window)
  have "bill_account (\<lambda>_. Inr 0) 10 16 1 5 sample_billing = Inr (sample_billing\<lparr>account_usage :=
      tab_modify 5 (new_usage\<lparr>net_usage := \<lparr>last_ordinal = 1, value_ex = 186, consumed = 16\<rparr>,
        cpu_usage := \<lparr>last_ordinal = 1, value_ex = 116, consumed = 10\<rparr>\<rparr>) (account_usage sample_billing)\<rparr>)"
    unfolding bill_account_def Let_def fields sample_billing_limits
    using acc used share by (simp add: window state new_usage_def)
  then show ?thesis
    by (simp add: add_transaction_usage_def Let_def fields window state sample_billed_def)
qed

lemma sample_billed_limits:
  "get_account_limits (\<lambda>_. Inr 0) sample_billed 5 = Inr (8192, 30, 20)"
  using sample_billing_limits get_account_limits_cong [OF add_transaction_usage_frame(1-4) [OF sample_billing_succeeds]] by simp

lemma sample_billed_reports:
  "get_account_cpu_limit_ex (\<lambda>_. Inr 0) sample_billed 5 True =
     Inr \<lparr>arl_used = 11, arl_available = 86400199989, arl_max = 86400200000\<rparr>"
  "get_account_net_limit_ex (\<lambda>_. Inr 0) sample_billed 5 True =
     Inr \<lparr>arl_used = 17, arl_available = 90596976623, arl_max = 90596976640\<rparr>"
  unfolding get_account_cpu_limit_ex_def get_account_net_limit_ex_def Let_def sample_billed_limits
  by (simp_all add: sample_billed_def sample_billing_def sample_resources_def resource_defaults tab_get_def
      account_limit_of_def downgrade_cast_i64_def max_use_in_window_def integer_divide_ceil_def rate_limiting_precision_def
      eos_assert_def new_usage_def)

theorem billed_within_reported_limits_witness:
  "add_transaction_usage (\<lambda>_. Inr 0) [5] 10 16 1 sample_billing = Inr sample_billed \<and>
   (\<exists>u. map_of (account_usage sample_billed) 5 = Some u \<and>
     int (used_in_window (cpu_usage u) 86400) \<le> 86400200000 \<and> int (used_in_window (net_usage u) 86400) \<le> 90597166400)"
  using billed_within_reported_limits [OF sample_billing_succeeds _ _ sample_billing_limits sample_billed_reports]
    sample_billing_succeeds
  by (auto simp: sample_billing_def sample_resources_def resource_defaults unlimited_account_def)

end
