(* ===== verification/Resource_Closing.thy ===== *)
theory Resource_Closing
  imports Resource_Totals
begin

text \<open>
  The resource part of \<open>controller_impl::finalize_block\<close>: pending limits are applied, the block
  parameters are taken from the chain configuration, the usage of the block enters the averages
  and the virtual limits, and the guaranteed resources are refreshed. Between blocks the node bills
  transactions and changes limits. Closing a block succeeds in every state that such a node
  reaches, whatever block limits below $2^{32}$ the producers choose from block to block; a net
  limit far above makes it fail.
\<close>

definition cpu_block_parameters :: "chain_config \<Rightarrow> elastic_limit_parameters" where
  "cpu_block_parameters c =
     \<lparr>target = eos_percent (max_block_cpu_usage c) (target_block_cpu_usage_pct c), limit_max = max_block_cpu_usage c,
      periods = block_usage_average_window_ms div block_interval_ms, max_multiplier = 1000,
      contract_rate = \<lparr>numerator = 99, denominator = 100\<rparr>, expand_rate = \<lparr>numerator = 1000, denominator = 999\<rparr>\<rparr>"

definition net_block_parameters :: "chain_config \<Rightarrow> elastic_limit_parameters" where
  "net_block_parameters c =
     \<lparr>target = eos_percent (max_block_net_usage c) (target_block_net_usage_pct c), limit_max = max_block_net_usage c,
      periods = block_usage_average_window_ms div block_interval_ms, max_multiplier = 1000,
      contract_rate = \<lparr>numerator = 99, denominator = 100\<rparr>, expand_rate = \<lparr>numerator = 1000, denominator = 999\<rparr>\<rparr>"

definition finalize_resources ::
  "chain_config \<Rightarrow> gmr_parameters \<Rightarrow> u32 \<Rightarrow> resource_db \<Rightarrow> resource_db res" where
  "finalize_resources c gmr n db =
     ebind (process_account_limit_updates db) (\<lambda>db.
     ebind (set_block_parameters (cpu_block_parameters c) (net_block_parameters c) db) (\<lambda>db.
     ebind (process_block_usage n db) (\<lambda>db.
     set_gmr_parameters gmr db)))"

section \<open>The node between blocks\<close>

text \<open>
  The steps of a node: what transactions do to the limits and usages and to the tables of
  contracts and the values on chain, and closing a block with a number above that of the blocks closed before. The block limit for cpu is 32 bits wide in the
  configuration; the one for net is 64 bits wide, and the steps cover limits below $2^{32}$.
\<close>

definition closes_after :: "u32 \<Rightarrow> resource_db \<Rightarrow> bool" where
  "closes_after n db \<longleftrightarrow> n < 2 ^ 32 \<and> last_ordinal (average_block_cpu_usage (limits_state db)) < n \<and>
     last_ordinal (average_block_net_usage (limits_state db)) < n"

definition moderate_limits :: "chain_config \<Rightarrow> bool" where
  "moderate_limits c \<longleftrightarrow> max_block_cpu_usage c < 2 ^ 32 \<and> max_block_net_usage c < 2 ^ 32"

inductive node_step :: "(bytes \<Rightarrow> i64 res) \<Rightarrow> resource_db \<Rightarrow> resource_db \<Rightarrow> bool" for unpack where
  new_account: "initialize_account a db = Inr db' \<Longrightarrow> node_step unpack db db'"
| guarantee: "set_gmr_parameters g db = Inr db' \<Longrightarrow> node_step unpack db db'"
| touch: "update_account_usage accounts slot db = Inr db' \<Longrightarrow> slot < 2 ^ 32 \<Longrightarrow> node_step unpack db db'"
| bill: "add_transaction_usage unpack accounts cpu net slot db = Inr db' \<Longrightarrow> slot < 2 ^ 32 \<Longrightarrow> node_step unpack db db'"
| memory: "add_pending_ram_usage a delta db = Inr db' \<Longrightarrow> node_step unpack db db'"
| limits: "set_account_limits a ram net cpu db = Inr (decreased, db') \<Longrightarrow> node_step unpack db db'"
| other_tables: "node_step unpack db (db\<lparr>contract_tables := tabs, chain_configs := cfgs\<rparr>)"
| close_block: "finalize_resources c gmr n db = Inr db' \<Longrightarrow> closes_after n db \<Longrightarrow> moderate_limits c \<Longrightarrow> node_step unpack db db'"

section \<open>What every step keeps\<close>

abbreviation block_bound :: nat where
  "block_bound \<equiv> 4294967295"

definition controller_form :: "elastic_limit_parameters \<Rightarrow> bool" where
  "controller_form p \<longleftrightarrow> limit_max p \<le> block_bound \<and> periods p = 60 \<and> max_multiplier p = 1000 \<and>
     contract_rate p = \<lparr>numerator = 99, denominator = 100\<rparr> \<and> expand_rate p = \<lparr>numerator = 1000, denominator = 999\<rparr>"

lemma controller_form_ok: "controller_form p \<Longrightarrow> elastic_ok block_bound p"
  by (simp add: controller_form_def elastic_ok_def average_bound_def max_raw_value_def rate_limiting_precision_def)

lemma block_parameters_form:
  assumes "moderate_limits c"
  shows "controller_form (cpu_block_parameters c)" "controller_form (net_block_parameters c)"
  using assms by (auto simp: controller_form_def cpu_block_parameters_def net_block_parameters_def moderate_limits_def
      block_usage_average_window_ms_def block_interval_ms_def)

definition node_inv :: "resource_db \<Rightarrow> bool" where
  "node_inv db \<longleftrightarrow> resource_inv db \<and> block_resources_ok block_bound db \<and>
     controller_form (cpu_limit_parameters (limits_config db)) \<and> controller_form (net_limit_parameters (limits_config db))"

text \<open>The part of the state that block limits, averages and virtual limits make up.\<close>

definition same_block_state :: "resource_limits_state \<Rightarrow> resource_limits_state \<Rightarrow> bool" where
  "same_block_state s s' \<longleftrightarrow> pending_cpu_usage s' = pending_cpu_usage s \<and> pending_net_usage s' = pending_net_usage s \<and>
     average_block_cpu_usage s' = average_block_cpu_usage s \<and> average_block_net_usage s' = average_block_net_usage s \<and>
     virtual_cpu_limit s' = virtual_cpu_limit s \<and> virtual_net_limit s' = virtual_net_limit s"

lemma node_inv_frame:
  assumes "node_inv db" and "resource_inv db'" and "limits_config db' = limits_config db"
    and "same_block_state (limits_state db) (limits_state db')"
  shows "node_inv db'"
  using assms by (simp add: node_inv_def block_resources_ok_def same_block_state_def Let_def)

lemma update_account_usage_frame:
  assumes "update_account_usage accounts slot db = Inr db'"
  shows "limits_config db' = limits_config db \<and> limits_state db' = limits_state db"
  using assms unfolding update_account_usage_def
  by (rule efold_invariant [where I = "\<lambda>d. limits_config d = limits_config db \<and> limits_state d = limits_state db"])
    (auto simp: Let_def res_simps)

lemma process_account_limit_updates_frame:
  "process_account_limit_updates db = Inr db' \<Longrightarrow>
   limits_config db' = limits_config db \<and> same_block_state (limits_state db) (limits_state db')"
proof (induction db rule: process_account_limit_updates.induct)
  case (1 db)
  show ?case
  proof (cases "first_pending (account_limits db)")
    case None
    with "1.prems" show ?thesis by (simp add: process_account_limit_updates.simps same_block_state_def)
  next
    case (Some x)
    obtain a p where x: "x = (a, p)" by (cases x)
    with "1.prems" Some obtain db1 where db1: "apply_pending a p db = Inr db1"
      "process_account_limit_updates db1 = Inr db'"
      by (simp add: process_account_limit_updates.simps [of db] split: sum.splits)
    from db1(1) have "limits_config db1 = limits_config db \<and> same_block_state (limits_state db) (limits_state db1)"
      by (auto simp: apply_pending_def Let_def res_simps same_block_state_def)
    with "1.IH" [OF Some x [symmetric] db1(1) db1(2)] x show ?thesis by (simp add: same_block_state_def)
  qed
qed

lemma set_block_parameters_Inr:
  "set_block_parameters p q db = Inr db' \<Longrightarrow>
   db' = db\<lparr>limits_config := (limits_config db)\<lparr>cpu_limit_parameters := p, net_limit_parameters := q\<rparr>\<rparr>"
  by (auto simp: set_block_parameters_def res_simps split: if_splits)

lemma controller_form_validate: "controller_form p \<Longrightarrow> elastic_limit_parameters_validate p = Inr ()"
  by (simp add: controller_form_def elastic_limit_parameters_validate_def)

text \<open>The parameters may change before the block is closed: the bounds of the state do not depend on them.\<close>

lemma node_inv_set_parameters:
  assumes "node_inv db" and "moderate_limits c"
  shows "\<exists>db'. set_block_parameters (cpu_block_parameters c) (net_block_parameters c) db = Inr db' \<and> node_inv db' \<and>
    cpu_limit_parameters (limits_config db') = cpu_block_parameters c \<and>
    net_limit_parameters (limits_config db') = net_block_parameters c \<and> limits_state db' = limits_state db"
proof -
  note f = block_parameters_form [OF assms(2)]
  have "\<exists>db'. set_block_parameters (cpu_block_parameters c) (net_block_parameters c) db = Inr db'"
    using f by (simp add: set_block_parameters_def controller_form_validate)
  then obtain db' where db': "set_block_parameters (cpu_block_parameters c) (net_block_parameters c) db = Inr db'" ..
  have "resource_inv db'"
    using resource_step_inv [OF resource_step.intros(3) [OF db']] assms(1) by (simp add: node_inv_def)
  moreover have "periods p = 60 \<and> max_multiplier p = 1000" if "controller_form p" for p
    using that by (simp add: controller_form_def)
  ultimately have "node_inv db'"
    using assms(1) f controller_form_ok [OF f(1)] controller_form_ok [OF f(2)]
    unfolding set_block_parameters_Inr [OF db'] node_inv_def
    by (auto simp: block_resources_ok_def resource_ok_def Let_def)
  with db' set_block_parameters_Inr [OF db'] show ?thesis by auto
qed

lemma node_inv_close:
  assumes inv: "node_inv db" and n: "closes_after n db" and c: "moderate_limits c"
    and pending: "process_account_limit_updates db = Inr db1" and g: "gmr_parameters_validate gmr = Inr ()"
  shows "\<exists>db'. finalize_resources c gmr n db = Inr db' \<and> node_inv db' \<and>
    pending_cpu_usage (limits_state db') = 0 \<and> pending_net_usage (limits_state db') = 0 \<and>
    last_ordinal (average_block_cpu_usage (limits_state db')) = n \<and>
    last_ordinal (average_block_net_usage (limits_state db')) = n \<and>
    virtual_ok (cpu_block_parameters c) (virtual_cpu_limit (limits_state db')) \<and>
    virtual_ok (net_block_parameters c) (virtual_net_limit (limits_state db'))"
proof -
  note f = process_account_limit_updates_frame [OF pending]
  have "resource_inv db1" using resource_step_inv [OF resource_step.intros(8) [OF pending]] inv by (simp add: node_inv_def)
  with node_inv_frame [OF inv] f have "node_inv db1" by blast
  from node_inv_set_parameters [OF this c] obtain db2 where
    db2: "set_block_parameters (cpu_block_parameters c) (net_block_parameters c) db1 = Inr db2" "node_inv db2"
    "cpu_limit_parameters (limits_config db2) = cpu_block_parameters c"
    "net_limit_parameters (limits_config db2) = net_block_parameters c" "limits_state db2 = limits_state db1" by blast
  have "closes_after n db2" using n f by (simp add: closes_after_def db2 same_block_state_def)
  then obtain db3 where db3: "process_block_usage n db2 = Inr db3" "block_resources_ok block_bound db3"
    "pending_cpu_usage (limits_state db3) = 0" "pending_net_usage (limits_state db3) = 0"
    "last_ordinal (average_block_cpu_usage (limits_state db3)) = n" "last_ordinal (average_block_net_usage (limits_state db3)) = n"
    "virtual_ok (cpu_block_parameters c) (virtual_cpu_limit (limits_state db3))"
    "virtual_ok (net_block_parameters c) (virtual_net_limit (limits_state db3))" "limits_config db3 = limits_config db2"
    using process_block_usage_ok [of block_bound db2 n] db2 by (auto simp: closes_after_def node_inv_def)
  have "resource_inv db3" using resource_step_inv [OF resource_step.intros(9) [OF db3(1)]] db2(2) by (simp add: node_inv_def)
  with db2(2) db3 have inv3: "node_inv db3" by (simp add: node_inv_def)
  have db4: "set_gmr_parameters gmr db3 = Inr (db3\<lparr>gmr_config := gmr\<rparr>)" using g by (simp add: set_gmr_parameters_def)
  from inv3 resource_step_inv [OF resource_step.intros(2) [OF db4]]
  have "node_inv (db3\<lparr>gmr_config := gmr\<rparr>)" by (simp add: node_inv_def block_resources_ok_def)
  then show ?thesis
    using pending db2(1) db3 db4 by (simp add: finalize_resources_def)
qed

lemma node_step_inv:
  assumes "node_inv db" and "node_step unpack db db'"
  shows "node_inv db'"
  using assms(2)
proof cases
  case (new_account a)
  then show ?thesis
    using node_inv_frame [OF assms(1) resource_step_inv [OF resource_step.intros(1) [OF new_account]]] assms(1)
    by (auto simp: initialize_account_def res_simps node_inv_def same_block_state_def)
next
  case (guarantee g)
  then show ?thesis
    using node_inv_frame [OF assms(1) resource_step_inv [OF resource_step.intros(2) [OF guarantee]]] assms(1)
    by (auto simp: set_gmr_parameters_def res_simps node_inv_def same_block_state_def)
next
  case (touch accounts slot)
  then show ?thesis
    using node_inv_frame [OF assms(1) resource_step_inv [OF resource_step.intros(4) [OF touch]]] assms(1)
      update_account_usage_frame [OF touch(1)] by (auto simp: node_inv_def same_block_state_def)
next
  case (bill accounts cpu net slot)
  have inv: "resource_inv db'" using resource_step_inv [OF resource_step.intros(5) [OF bill]] assms(1) by (simp add: node_inv_def)
  note f = add_transaction_usage_frame(5,6) [OF bill(1)]
  have "pending_cpu_usage (limits_state db') \<le> limit_max (cpu_limit_parameters (limits_config db')) \<and>
      pending_net_usage (limits_state db') \<le> limit_max (net_limit_parameters (limits_config db'))"
    using bill(1) by (auto elim: add_transaction_usage_cases)
  moreover from f(2) obtain a b where
    st: "limits_state db' = (limits_state db)\<lparr>pending_cpu_usage := a, pending_net_usage := b\<rparr>" by blast
  ultimately show ?thesis
    using assms(1) inv f(1) by (auto simp: node_inv_def block_resources_ok_def resource_ok_def Let_def controller_form_def)
next
  case (memory a delta)
  then show ?thesis
    using node_inv_frame [OF assms(1) resource_step_inv [OF resource_step.intros(6) [OF memory]]] assms(1)
    by (auto simp: add_pending_ram_usage_def res_simps node_inv_def same_block_state_def split: if_splits)
next
  case (limits a ram net cpu decreased)
  then show ?thesis
    using node_inv_frame [OF assms(1) resource_step_inv [OF resource_step.intros(7) [OF limits]]] assms(1)
    by (auto simp: set_account_limits_def res_simps Let_def node_inv_def same_block_state_def split: option.splits)
next
  case (other_tables tabs cfgs)
  have "resource_inv db'"
    using assms(1) limits_ok_cong [of db' db] usage_ok_cong [of db' db]
    by (simp add: node_inv_def resource_inv_def other_tables)
  then show ?thesis by (rule node_inv_frame [OF assms(1)]) (simp_all add: other_tables same_block_state_def)
next
  case (close_block c gmr n)
  from close_block(1) obtain db1 where "process_account_limit_updates db = Inr db1" "gmr_parameters_validate gmr = Inr ()"
    by (auto simp: finalize_resources_def set_gmr_parameters_def res_simps)
  from node_inv_close [OF assms(1) close_block(2,3) this] close_block(1) show ?thesis by auto
qed

lemma initial_node_inv: "node_inv (initialize_database tabs cfgs)"
proof -
  have "controller_form (cpu_limit_parameters default_resource_config)"
    and "controller_form (net_limit_parameters default_resource_config)"
    by (simp_all add: controller_form_def resource_defaults)
  moreover from this have "block_resources_ok block_bound (initialize_database tabs cfgs)"
    using controller_form_ok
    by (simp add: block_resources_ok_def resource_ok_def initialize_database_def controller_form_def new_accumulator_def Let_def)
  ultimately show ?thesis
    unfolding node_inv_def using initial_resource_inv by (simp add: initialize_database_def)
qed

interpretation node: invariant_system "\<lambda>db. \<exists>tabs cfgs. db = initialize_database tabs cfgs" "node_step unpack" node_inv
  for unpack
  by unfold_locales (auto intro: node_step_inv initial_node_inv)

section \<open>Closing a block succeeds\<close>

text \<open>
  C12. In every state a node reaches by billing transactions, changing limits and closing blocks,
  the resource part of \<open>finalize_block\<close> succeeds, also when the producers have just changed the
  configuration: the state satisfies the bounds that the accumulators and the virtual limits need.
  It succeeds for a block number above the earlier ones, block limits below $2^{32}$ (before and
  now), guaranteed resources that pass validation, and pending limits whose sums with the actual
  ones fit 64 bits. It then leaves no pending usage of the block, averages up to date with
  the block, and virtual limits between the new block limit and a thousand times that.
\<close>

theorem finalize_resources_succeeds:
  assumes "(node_step unpack)\<^sup>*\<^sup>* (initialize_database tabs cfgs) db"
    and "closes_after n db" and "moderate_limits c" and "gmr_parameters_validate gmr = Inr ()"
    and "\<forall>w \<in> {ram_bytes, cpu_weight, net_weight}. actual_sum w db + pending_sum w db \<le> u64_max"
  shows "\<exists>db'. finalize_resources c gmr n db = Inr db' \<and> node_inv db' \<and>
    pending_cpu_usage (limits_state db') = 0 \<and> pending_net_usage (limits_state db') = 0 \<and>
    last_ordinal (average_block_cpu_usage (limits_state db')) = n \<and>
    last_ordinal (average_block_net_usage (limits_state db')) = n \<and>
    virtual_ok (cpu_block_parameters c) (virtual_cpu_limit (limits_state db')) \<and>
    virtual_ok (net_block_parameters c) (virtual_net_limit (limits_state db'))"
proof -
  from node.reachable_inv [OF _ assms(1)] have inv: "node_inv db" by blast
  then have "limits_ok db" by (simp add: node_inv_def resource_inv_def)
  from process_limits_succeeds [OF this assms(5)] obtain db1 where "process_account_limit_updates db = Inr db1" ..
  from node_inv_close [OF inv assms(2,3) this assms(4)] show ?thesis .
qed

section \<open>A block limit that is too large\<close>

text \<open>
  A virtual limit of $2^{58}$ or more can neither be contracted nor expanded in 64 bits, so a state
  with such a limit for net cannot close a block, and no other step changes that limit.
\<close>

definition net_stuck :: "resource_db \<Rightarrow> bool" where
  "net_stuck db \<longleftrightarrow> 2 ^ 58 \<le> virtual_net_limit (limits_state db)"

lemma ratio_times_large:
  "2 ^ 58 \<le> v \<Longrightarrow> 99 \<le> numerator r \<Longrightarrow> ratio_times v r = Inl Rate_limiting_state_inconsistent"
proof -
  assume v: "2 ^ 58 \<le> v" and r: "99 \<le> numerator r"
  have "u64_max div numerator r \<le> u64_max div 99" using r by (rule div_le_mono2 [rotated]) simp
  also have "\<dots> < 2 ^ 58" by simp
  finally show ?thesis using v r by (simp add: ratio_times_def)
qed

lemma update_elastic_limit_large:
  assumes "2 ^ 58 \<le> v" and "99 \<le> numerator (contract_rate p)" and "99 \<le> numerator (expand_rate p)"
  shows "update_elastic_limit v u p = Inl Rate_limiting_state_inconsistent"
  by (simp add: update_elastic_limit_def ratio_times_large [OF assms(1,2)] ratio_times_large [OF assms(1,3)])

lemma update_elastic_limit_range:
  "update_elastic_limit v u p = Inr w \<Longrightarrow> min (limit_max p) (wrap64 (limit_max p * max_multiplier p)) \<le> w"
  by (auto simp: update_elastic_limit_def res_simps)

lemma process_block_usage_net:
  assumes "process_block_usage n db = Inr db'"
  obtains u where "update_elastic_limit (virtual_net_limit (limits_state db)) u (net_limit_parameters (limits_config db)) =
    Inr (virtual_net_limit (limits_state db'))"
  using assms by (auto simp: process_block_usage_def update_virtual_net_limit_def update_virtual_cpu_limit_def res_simps Let_def)

lemma net_stuck_close:
  assumes "net_stuck db"
  shows "\<exists>e. finalize_resources c gmr n db = Inl e"
proof (rule ccontr)
  assume "\<nexists>e. finalize_resources c gmr n db = Inl e"
  then obtain db' where "finalize_resources c gmr n db = Inr db'" by (cases "finalize_resources c gmr n db") auto
  then obtain db1 db2 db3 where d: "process_account_limit_updates db = Inr db1"
    "set_block_parameters (cpu_block_parameters c) (net_block_parameters c) db1 = Inr db2"
    "process_block_usage n db2 = Inr db3"
    by (auto simp: finalize_resources_def res_simps)
  have v: "2 ^ 58 \<le> virtual_net_limit (limits_state db2)"
    using assms process_account_limit_updates_frame [OF d(1)] set_block_parameters_Inr [OF d(2)]
    by (simp add: net_stuck_def same_block_state_def)
  have "net_limit_parameters (limits_config db2) = net_block_parameters c"
    using set_block_parameters_Inr [OF d(2)] by simp
  with process_block_usage_net [OF d(3)] obtain u w
    where "update_elastic_limit (virtual_net_limit (limits_state db2)) u (net_block_parameters c) = Inr w" by metis
  then show False
    using update_elastic_limit_large [OF v, of "net_block_parameters c" u] by (simp add: net_block_parameters_def)
qed

lemma net_stuck_step:
  assumes "net_stuck db" and "node_step unpack db db'"
  shows "net_stuck db'"
  using assms(2)
proof cases
  case (touch accounts slot)
  then show ?thesis using update_account_usage_frame [OF touch(1)] assms(1) by (simp add: net_stuck_def)
next
  case (bill accounts cpu net slot)
  from add_transaction_usage_frame(6) [OF bill(1)] assms(1) show ?thesis by (auto simp: net_stuck_def)
next
  case (close_block c gmr n)
  with net_stuck_close [OF assms(1), of c gmr n] show ?thesis by simp
qed (use assms(1) in \<open>auto simp: net_stuck_def initialize_account_def set_gmr_parameters_def add_pending_ram_usage_def
      set_account_limits_def res_simps Let_def split: if_splits option.splits\<close>)

interpretation stuck: invariant_system net_stuck "node_step unpack" net_stuck for unpack
  by unfold_locales (auto intro: net_stuck_step)

lemma oversized_net_limit:
  assumes "finalize_resources c gmr n db = Inr db'"
    and "2 ^ 58 \<le> max_block_net_usage c" and "2 ^ 58 \<le> wrap64 (max_block_net_usage c * 1000)"
  shows "net_stuck db'"
proof -
  from assms(1) obtain db1 db2 db3 where set: "set_block_parameters (cpu_block_parameters c) (net_block_parameters c) db1 = Inr db2"
    and d: "process_block_usage n db2 = Inr db3" "db' = db3\<lparr>gmr_config := gmr\<rparr>"
    by (auto simp: finalize_resources_def set_gmr_parameters_def res_simps)
  have "net_limit_parameters (limits_config db2) = net_block_parameters c"
    using set_block_parameters_Inr [OF set] by simp
  with process_block_usage_net [OF d(1)] obtain u
    where "update_elastic_limit (virtual_net_limit (limits_state db2)) u (net_block_parameters c) =
      Inr (virtual_net_limit (limits_state db3))" by metis
  from update_elastic_limit_range [OF this] assms(2,3) show ?thesis
    by (auto simp: d(2) net_stuck_def net_block_parameters_def)
qed


section \<open>Sample blocks\<close>

text \<open>
  Block 1 is closed under doubled block limits, with the pending limits of an account to be
  applied, or under a net limit that is too large.
\<close>

definition doubled_config :: chain_config where
  "doubled_config = default_chain_config\<lparr>max_block_cpu_usage := 2000000, max_block_net_usage := 2 ^ 21\<rparr>"

definition oversized_config :: chain_config where
  "oversized_config = default_chain_config\<lparr>max_block_net_usage := 2 ^ 60\<rparr>"

lemmas config_defaults = chain_config_validate_def default_chain_config_def percent_100_def percent_1_def
  min_net_usage_delta_between_base_and_max_for_trx_def sub32_def

lemma sample_node_reachable:
  "(node_step (\<lambda>_. Inr 0))\<^sup>*\<^sup>* (initialize_database empty_contract_db []) sample_resources"
  using node_step.new_account [OF sample_account_created] node_step.limits [OF sample_limits_set]
  by (meson converse_rtranclp_into_rtranclp r_into_rtranclp)

lemma sample_node_ready:
  "closes_after 1 sample_resources" "moderate_limits doubled_config" "gmr_parameters_validate default_gmr = Inr ()"
  "\<forall>w \<in> {ram_bytes, cpu_weight, net_weight}. actual_sum w sample_resources + pending_sum w sample_resources \<le> u64_max"
  by (simp_all add: closes_after_def moderate_limits_def doubled_config_def default_chain_config_def actual_sum_def
      pending_sum_def sample_resources_def new_limits_def sample_limits_def resource_defaults gmr_parameters_validate_def)

theorem finalize_resources_succeeds_witness:
  "\<exists>db'. chain_config_validate doubled_config = Inr () \<and> finalize_resources doubled_config default_gmr 1 sample_resources = Inr db' \<and>
     2000000 \<le> virtual_cpu_limit (limits_state db') \<and> virtual_cpu_limit (limits_state db') \<le> 2000000000"
proof -
  have "chain_config_validate doubled_config = Inr ()" by (simp add: config_defaults doubled_config_def)
  with finalize_resources_succeeds [OF sample_node_reachable sample_node_ready] show ?thesis
    by (auto simp: virtual_ok_def cpu_block_parameters_def doubled_config_def)
qed

lemma oversized_close:
  "\<exists>db'. finalize_resources oversized_config default_gmr 1 (initialize_database empty_contract_db []) = Inr db'"
  by (simp add: finalize_resources_def process_account_limit_updates.simps first_pending_def set_block_parameters_def
      elastic_limit_parameters_validate_def cpu_block_parameters_def net_block_parameters_def resource_defaults
      process_block_usage_def accumulator_add_def accumulator_decay_def max_raw_value_def rate_limiting_precision_def
      integer_divide_ceil_def downgrade_cast_u64_def ratio_times_def average_def update_virtual_cpu_limit_def
      update_virtual_net_limit_def update_elastic_limit_def set_gmr_parameters_def gmr_parameters_validate_def Let_def)


end
