(* ===== verification/Authority.thy ===== *)
theory Authority
  imports Chain_Tables "HOL-Library.Product_Lexorder"
begin

text \<open>
  Authorities (\<open>authority.hpp\<close>): weighted keys, permission levels and waits with a threshold,
  their validation and their size for billing. A permission level (\<open>action.hpp\<close>) is the pair of
  its actor and its permission, which the library orders lexicographically, as the code does.
  The order of public keys and their serialised size belong to the crypto library and are
  parameters.
\<close>

section \<open>Data\<close>

type_synonym permission_name = name
type_synonym permission_level = "account_name \<times> permission_name"
type_synonym weight_type = u16

text \<open>A level whose two names are not empty.\<close>

definition named_level :: "permission_level \<Rightarrow> bool" where
  "named_level p \<longleftrightarrow> fst p \<noteq> 0 \<and> snd p \<noteq> 0"

record permission_level_weight =
  plw_permission :: permission_level
  plw_weight :: weight_type

record key_weight =
  kw_key :: public_key
  kw_weight :: weight_type

record wait_weight =
  wait_sec :: u32
  ww_weight :: weight_type

record authority =
  threshold :: u32
  keys :: "key_weight list"
  accounts :: "permission_level_weight list"
  waits :: "wait_weight list"

definition authority_of_key :: "public_key \<Rightarrow> u32 \<Rightarrow> authority" where
  "authority_of_key k delay_sec =
     (let a = \<lparr>threshold = 1, keys = [\<lparr>kw_key = k, kw_weight = 1\<rparr>], accounts = [], waits = []\<rparr> in
      if delay_sec > 0 then a\<lparr>threshold := 2, waits := [\<lparr>wait_sec = delay_sec, ww_weight = 1\<rparr>]\<rparr> else a)"

definition authority_of_permission :: "permission_level \<Rightarrow> u32 \<Rightarrow> authority" where
  "authority_of_permission p delay_sec =
     (let a = \<lparr>threshold = 1, keys = [], accounts = [\<lparr>plw_permission = p, plw_weight = 1\<rparr>], waits = []\<rparr> in
      if delay_sec > 0 then a\<lparr>threshold := 2, waits := [\<lparr>wait_sec = delay_sec, ww_weight = 1\<rparr>]\<rparr> else a)"

text \<open>The copy kept in the database holds the same vectors.\<close>

definition to_authority :: "authority \<Rightarrow> authority" where
  "to_authority s =
     \<lparr>threshold = threshold s,
      keys = foldl (\<lambda>l k. l @ [k]) [] (keys s),
      accounts = foldl (\<lambda>l a. l @ [a]) [] (accounts s),
      waits = foldl (\<lambda>l w. l @ [w]) [] (waits s)\<rparr>"

section \<open>Size for billing\<close>

definition billable_alignment :: nat where
  "billable_alignment = 16"

definition billable_size_v :: "nat \<Rightarrow> nat" where
  "billable_size_v n = ((n + billable_alignment - 1) div billable_alignment) * billable_alignment"

definition get_billable_size :: "(public_key \<Rightarrow> nat) \<Rightarrow> authority \<Rightarrow> nat" where
  "get_billable_size pack_size a =
     (let accounts_size = length (accounts a) * billable_size_v 24;
          waits_size = length (waits a) * billable_size_v 16;
          keys_size = foldl (\<lambda>s k. s + billable_size_v 8 + pack_size (kw_key k)) 0 (keys a) in
      accounts_size + waits_size + keys_size)"

section \<open>Validation\<close>

text \<open>
  One pass over a vector: each element must come after the previous one, and its weight is
  added to the running total of type \<open>uint32_t\<close>.
\<close>

fun tally_sorted :: "('a \<Rightarrow> 'a \<Rightarrow> bool) \<Rightarrow> ('a \<Rightarrow> weight_type) \<Rightarrow> 'a option \<Rightarrow> u32 \<Rightarrow> 'a list \<Rightarrow> u32 option" where
  "tally_sorted before weight prev total_weight [] = Some total_weight"
| "tally_sorted before weight prev total_weight (x # xs) =
     (if (case prev of None \<Rightarrow> False | Some p \<Rightarrow> \<not> before p x) then None
      else tally_sorted before weight (Some x) (wrap32 (total_weight + weight x)) xs)"

definition validate :: "(public_key \<Rightarrow> public_key \<Rightarrow> bool) \<Rightarrow> authority \<Rightarrow> bool" where
  "validate key_less auth =
     (if length (keys auth) + length (accounts auth) + length (waits auth) > 2 ^ 16 then False
      else if threshold auth = 0 then False
      else case tally_sorted (\<lambda>p k. key_less (kw_key p) (kw_key k)) kw_weight None 0 (keys auth) of
        None \<Rightarrow> False
      | Some w1 \<Rightarrow>
        (case tally_sorted (\<lambda>p a. plw_permission p < plw_permission a) plw_weight None w1 (accounts auth) of
           None \<Rightarrow> False
         | Some w2 \<Rightarrow>
           if (case waits auth of [] \<Rightarrow> False | w # _ \<Rightarrow> wait_sec w = 0) then False
           else case tally_sorted (\<lambda>p w. wait_sec p < wait_sec w) ww_weight None w2 (waits auth) of
             None \<Rightarrow> False
           | Some total_weight \<Rightarrow> total_weight \<ge> threshold auth))"

section \<open>What validation accepts\<close>

definition authority_weight :: "authority \<Rightarrow> nat" where
  "authority_weight a =
     sum_list (map kw_weight (keys a)) + sum_list (map plw_weight (accounts a)) + sum_list (map ww_weight (waits a))"

definition authority_ranges :: "authority \<Rightarrow> bool" where
  "authority_ranges a \<longleftrightarrow> (\<forall>k \<in> set (keys a). kw_weight k < 2 ^ 16) \<and>
     (\<forall>p \<in> set (accounts a). plw_weight p < 2 ^ 16) \<and> (\<forall>w \<in> set (waits a). ww_weight w < 2 ^ 16)"

lemma tally_sorted_Some:
  assumes "transp before"
  shows "tally_sorted before weight (Some p) t xs =
    (if sorted_wrt before (p # xs) then Some (foldl (\<lambda>t x. wrap32 (t + weight x)) t xs) else None)"
proof (induction xs arbitrary: p t)
  case (Cons x xs)
  have "sorted_wrt before (p # x # xs) \<longleftrightarrow> before p x \<and> sorted_wrt before (x # xs)"
    using transpD [OF assms] by auto
  then show ?case by (simp add: Cons.IH del: sorted_wrt.simps)
qed simp

lemma tally_sorted_None:
  assumes "transp before"
  shows "tally_sorted before weight None t xs =
    (if sorted_wrt before xs then Some (foldl (\<lambda>t x. wrap32 (t + weight x)) t xs) else None)"
  by (cases xs) (simp_all add: tally_sorted_Some [OF assms] del: sorted_wrt.simps(2))

lemma foldl_wrap32:
  assumes "t + sum_list (map weight xs) < 2 ^ 32"
  shows "foldl (\<lambda>t x. wrap32 (t + weight x)) t xs = t + sum_list (map weight xs)"
  using assms by (induction xs arbitrary: t) (simp_all add: add.assoc)

lemma sum_weights_bound:
  fixes weight :: "'a \<Rightarrow> nat"
  assumes "\<forall>x \<in> set xs. weight x < 2 ^ 16"
  shows "sum_list (map weight xs) \<le> length xs * 65535"
  using assms by (induction xs) auto

lemma authority_weight_bound:
  assumes "authority_ranges a" and "length (keys a) + length (accounts a) + length (waits a) \<le> 2 ^ 16"
  shows "authority_weight a < 2 ^ 32"
proof -
  have "authority_weight a \<le> (length (keys a) + length (accounts a) + length (waits a)) * 65535"
    using assms(1) sum_weights_bound [of "keys a" kw_weight] sum_weights_bound [of "accounts a" plw_weight]
      sum_weights_bound [of "waits a" ww_weight]
    by (simp add: authority_weight_def authority_ranges_def)
  also have "\<dots> \<le> 2 ^ 16 * 65535" using assms(2) by (rule mult_le_mono1)
  finally show ?thesis by simp
qed

lemma validate_iff:
  assumes "transp key_less" and "authority_ranges a"
  shows "validate key_less a \<longleftrightarrow>
    length (keys a) + length (accounts a) + length (waits a) \<le> 2 ^ 16 \<and>
    0 < threshold a \<and> threshold a \<le> authority_weight a \<and>
    sorted_wrt key_less (map kw_key (keys a)) \<and> sorted_wrt (<) (map plw_permission (accounts a)) \<and>
    sorted_wrt (<) (map wait_sec (waits a)) \<and> 0 \<notin> wait_sec ` set (waits a)"
proof (cases "length (keys a) + length (accounts a) + length (waits a) \<le> 2 ^ 16")
  case True
  let ?K = "sum_list (map kw_weight (keys a))" and ?A = "sum_list (map plw_weight (accounts a))"
    and ?W = "sum_list (map ww_weight (waits a))"
  have w: "?K + ?A + ?W < 2 ^ 32"
    using authority_weight_bound [OF assms(2) True] by (simp add: authority_weight_def)
  have sums: "foldl (\<lambda>t x. wrap32 (t + kw_weight x)) 0 (keys a) = ?K"
    "foldl (\<lambda>t x. wrap32 (t + plw_weight x)) ?K (accounts a) = ?K + ?A"
    "foldl (\<lambda>t x. wrap32 (t + ww_weight x)) (?K + ?A) (waits a) = ?K + ?A + ?W"
    using w by (simp_all add: foldl_wrap32)
  have tr: "transp (\<lambda>p k. key_less (kw_key p) (kw_key k))"
    "transp (\<lambda>p q :: permission_level_weight. plw_permission p < plw_permission q)"
    "transp (\<lambda>p q :: wait_weight. wait_sec p < wait_sec q)"
    using assms(1) by (auto simp: transp_def)
  have zero: "(case waits a of [] \<Rightarrow> False | w # _ \<Rightarrow> wait_sec w = 0) \<longleftrightarrow> 0 \<in> wait_sec ` set (waits a)"
    if "sorted_wrt (\<lambda>p w. wait_sec p < wait_sec w) (waits a)"
    using that by (cases "waits a") force+
  show ?thesis
    using True zero
    by (auto simp: validate_def tally_sorted_None [OF tr(1)] tally_sorted_None [OF tr(2)]
        tally_sorted_None [OF tr(3)] sums sorted_wrt_map authority_weight_def not_less
        split: option.splits if_splits)
qed (auto simp: validate_def)

text \<open>
  C33. An authority is valid exactly when it has at most 65536 factors, a positive threshold that
  the sum of all weights reaches, strictly ascending keys, permission levels and waits, and no
  wait of zero. The 32-bit total of the code never wraps, so the sum is the true one.
\<close>

theorem validate_exact:
  assumes "transp key_less" and "authority_ranges a"
  shows "validate key_less a \<longleftrightarrow>
    length (keys a) + length (accounts a) + length (waits a) \<le> 2 ^ 16 \<and>
    0 < threshold a \<and> threshold a \<le> authority_weight a \<and>
    sorted_wrt key_less (map kw_key (keys a)) \<and> sorted_wrt (<) (map plw_permission (accounts a)) \<and>
    sorted_wrt (<) (map wait_sec (waits a)) \<and> 0 \<notin> wait_sec ` set (waits a)"
  by (rule validate_iff [OF assms])

theorem validate_exact_witness:
  "validate (<) (authority_of_key 7 60) \<and> \<not> validate (<) ((authority_of_key 7 60)\<lparr>threshold := 3\<rparr>)"
  using validate_exact [of "(<)" "authority_of_key 7 60"]
    validate_exact [of "(<)" "(authority_of_key 7 60)\<lparr>threshold := 3\<rparr>"]
  by (simp add: authority_of_key_def authority_ranges_def authority_weight_def transp_def)

text \<open>Copying between the database and memory loses nothing.\<close>

lemma to_authority_id [simp]: "to_authority a = a"
  by (simp add: to_authority_def foldl_push_back)

end
