(* ===== verification/Permissions.thy ===== *)
theory Permissions
  imports Chain_Constants Chain_Tables Authority
begin

text \<open>
  Permissions and permission links in the chain state (\<open>permission_object.hpp\<close>,
  \<open>permission_link_object.hpp\<close>) with the operations of the authorization manager on them
  (\<open>authorization_manager.cpp\<close>): the permissions of an account form a tree, and a permission
  satisfies those below it.
\<close>

section \<open>Objects and tables\<close>

type_synonym time_point = i64
type_synonym action_name = name

record permission_object =
  usage_id :: nat
  parent :: nat
  owner :: account_name
  perm_name :: permission_name
  last_updated :: time_point
  auth :: authority

text \<open>
  Permissions and usage objects are stored under their ids, which the database hands out in
  order; links under account, code and message type, which are unique.
\<close>

record auth_db =
  permissions :: "(nat, permission_object) rows"
  next_permission :: nat
  usages :: "(nat, time_point) rows"
  next_usage :: nat
  links :: "(account_name \<times> account_name \<times> action_name, permission_name) rows"

text \<open>The index \<open>by_owner\<close>: at most one permission for an owner and a name.\<close>

definition find_by_owner :: "auth_db \<Rightarrow> account_name \<Rightarrow> permission_name \<Rightarrow> (nat \<times> permission_object) option" where
  "find_by_owner db a n = find (\<lambda>(i, p). owner p = a \<and> perm_name p = n) (permissions db)"

definition create_permission_object :: "permission_object \<Rightarrow> auth_db \<Rightarrow> (nat \<times> auth_db) res" where
  "create_permission_object p db =
     (if find_by_owner db (owner p) (perm_name p) = None
      then Inr (next_permission db,
                db\<lparr>permissions := permissions db @ [(next_permission db, p)],
                   next_permission := next_permission db + 1\<rparr>)
      else Inl Std_logic_error)"

definition create_usage_object :: "time_point \<Rightarrow> auth_db \<Rightarrow> nat \<times> auth_db" where
  "create_usage_object t db =
     (next_usage db, db\<lparr>usages := usages db @ [(next_usage db, t)], next_usage := next_usage db + 1\<rparr>)"

text \<open>The fields of an object before its constructor function sets them.\<close>

definition default_permission :: permission_object where
  "default_permission = \<lparr>usage_id = 0, parent = 0, owner = 0, perm_name = 0, last_updated = 0,
     auth = \<lparr>threshold = 0, keys = [], accounts = [], waits = []\<rparr>\<rparr>"

definition empty_auth_db :: auth_db where
  "empty_auth_db = \<lparr>permissions = [], next_permission = 0, usages = [], next_usage = 0, links = []\<rparr>"

definition initialize_permissions :: "auth_db \<Rightarrow> auth_db res" where
  "initialize_permissions db = ebind (create_permission_object default_permission db) (\<lambda>(i, db'). Inr db')"

section \<open>The tree of permissions\<close>

text \<open>
  The walk up from a permission: \<open>None\<close> stands for reading an object that does not exist, and
  for a walk that never ends.
\<close>

partial_function (option) satisfies_walk :: "auth_db \<Rightarrow> nat \<Rightarrow> nat \<Rightarrow> bool option" where
  "satisfies_walk db i cur =
     (case map_of (permissions db) cur of
        None \<Rightarrow> None
      | Some p \<Rightarrow>
          if i = parent p then Some True
          else if parent p = 0 then Some False
          else satisfies_walk db i (parent p))"

definition satisfies :: "auth_db \<Rightarrow> nat \<times> permission_object \<Rightarrow> nat \<times> permission_object \<Rightarrow> bool option" where
  "satisfies db this other =
     (if owner (snd this) \<noteq> owner (snd other) then Some False
      else if fst this = fst other \<or> fst this = parent (snd other) then Some True
      else satisfies_walk db (fst this) (parent (snd other)))"

section \<open>Operations of the authorization manager\<close>

definition create_permission ::
  "time_point \<Rightarrow> account_name \<Rightarrow> permission_name \<Rightarrow> nat \<Rightarrow> authority \<Rightarrow> time_point \<Rightarrow> auth_db \<Rightarrow>
     (nat \<times> auth_db) res" where
  "create_permission pending_block_time account n parent_id a initial_creation_time db =
     (let creation_time = (if initial_creation_time = 0 then pending_block_time else initial_creation_time);
          (u, db') = create_usage_object creation_time db in
      create_permission_object
        \<lparr>usage_id = u, parent = parent_id, owner = account, perm_name = n, last_updated = creation_time,
         auth = a\<rparr> db')"

definition modify_permission :: "time_point \<Rightarrow> nat \<times> permission_object \<Rightarrow> authority \<Rightarrow> auth_db \<Rightarrow> auth_db" where
  "modify_permission pending_block_time permission a db =
     db\<lparr>permissions := tab_modify (fst permission)
          ((snd permission)\<lparr>auth := a, last_updated := pending_block_time\<rparr>) (permissions db)\<rparr>"

definition has_children :: "auth_db \<Rightarrow> nat \<Rightarrow> bool" where
  "has_children db i \<longleftrightarrow> (\<exists>(j, q) \<in> set (permissions db). parent q = i)"

definition remove_permission :: "nat \<times> permission_object \<Rightarrow> auth_db \<Rightarrow> auth_db res" where
  "remove_permission permission db =
     eos_assert (\<not> has_children db (fst permission)) Action_validate_exception
       (ebind (tab_get (usages db) (usage_id (snd permission)))
         (\<lambda>_. Inr (db\<lparr>usages := tab_remove (usage_id (snd permission)) (usages db),
                      permissions := tab_remove (fst permission) (permissions db)\<rparr>)))"

definition update_permission_usage :: "time_point \<Rightarrow> permission_object \<Rightarrow> auth_db \<Rightarrow> auth_db res" where
  "update_permission_usage pending_block_time p db =
     ebind (tab_get (usages db) (usage_id p))
       (\<lambda>_. Inr (db\<lparr>usages := tab_modify (usage_id p) pending_block_time (usages db)\<rparr>))"

definition get_permission_last_used :: "permission_object \<Rightarrow> auth_db \<Rightarrow> time_point res" where
  "get_permission_last_used p db = tab_get (usages db) (usage_id p)"

definition find_permission :: "auth_db \<Rightarrow> permission_level \<Rightarrow> (nat \<times> permission_object) option res" where
  "find_permission db level =
     rethrow_as Permission_query_exception
       (eos_assert (fst level \<noteq> 0 \<and> snd level \<noteq> 0) Invalid_permission
         (Inr (find_by_owner db (fst level) (snd level))))"

definition get_permission :: "auth_db \<Rightarrow> permission_level \<Rightarrow> (nat \<times> permission_object) res" where
  "get_permission db level =
     rethrow_as Permission_query_exception
       (eos_assert (fst level \<noteq> 0 \<and> snd level \<noteq> 0) Invalid_permission
         (from_some Std_out_of_range (find_by_owner db (fst level) (snd level))))"

definition lookup_linked_permission ::
  "auth_db \<Rightarrow> account_name \<Rightarrow> account_name \<Rightarrow> action_name \<Rightarrow> permission_name option" where
  "lookup_linked_permission db authorizer_account scope act_name =
     (case map_of (links db) (authorizer_account, scope, act_name) of
        Some required \<Rightarrow> Some required
      | None \<Rightarrow> map_of (links db) (authorizer_account, scope, 0))"

definition lookup_minimum_permission ::
  "auth_db \<Rightarrow> account_name \<Rightarrow> account_name \<Rightarrow> action_name \<Rightarrow> permission_name option res" where
  "lookup_minimum_permission db authorizer_account scope act_name =
     eos_assert (scope = system_account_name \<longrightarrow>
         act_name \<noteq> updateauth_name \<and> act_name \<noteq> deleteauth_name \<and> act_name \<noteq> linkauth_name \<and>
         act_name \<noteq> unlinkauth_name \<and> act_name \<noteq> canceldelay_name) Unlinkable_min_permission_action
       (case lookup_linked_permission db authorizer_account scope act_name of
          None \<Rightarrow> Inr (Some active_name)
        | Some linked_permission \<Rightarrow>
            if linked_permission = eosio_any_name then Inr None else Inr (Some linked_permission))"

section \<open>Well-formed trees\<close>

text \<open>
  The reserved permission 0 is the root of all trees; the parent of a permission is older and
  has the same owner; every permission but the reserved one has a usage object of its own.
\<close>

definition perm_tree_ok :: "auth_db \<Rightarrow> bool" where
  "perm_tree_ok db \<longleftrightarrow> tab_ok (permissions db) \<and>
     (\<forall>i \<in> set (tab_keys (permissions db)). i < next_permission db) \<and>
     distinct (map ((\<lambda>p. (owner p, perm_name p)) \<circ> snd) (permissions db)) \<and>
     (\<exists>r. map_of (permissions db) 0 = Some r \<and> \<not> named_level (owner r, perm_name r) \<and> parent r = 0) \<and>
     (\<forall>i p. map_of (permissions db) i = Some p \<longrightarrow> i \<noteq> 0 \<longrightarrow>
        named_level (owner p, perm_name p) \<and> parent p < i \<and>
        (\<exists>q. map_of (permissions db) (parent p) = Some q \<and> (parent p = 0 \<or> owner q = owner p)))"

definition perm_usage_ok :: "auth_db \<Rightarrow> bool" where
  "perm_usage_ok db \<longleftrightarrow> tab_ok (usages db) \<and> (\<forall>u \<in> set (tab_keys (usages db)). u < next_usage db) \<and>
     (\<forall>i p. map_of (permissions db) i = Some p \<longrightarrow> i \<noteq> 0 \<longrightarrow> map_of (usages db) (usage_id p) \<noteq> None) \<and>
     (\<forall>i p j q. map_of (permissions db) i = Some p \<longrightarrow> map_of (permissions db) j = Some q \<longrightarrow>
        i \<noteq> 0 \<longrightarrow> j \<noteq> 0 \<longrightarrow> usage_id p = usage_id q \<longrightarrow> i = j)"

text \<open>The relation between a permission and those below it.\<close>

definition parent_of :: "auth_db \<Rightarrow> (nat \<times> nat) set" where
  "parent_of db = {(i, j). \<exists>p. map_of (permissions db) j = Some p \<and> j \<noteq> 0 \<and> parent p = i}"

lemma perm_tree_okD:
  assumes "perm_tree_ok db" and "map_of (permissions db) i = Some p" and "i \<noteq> 0"
  shows "parent p < i" and "owner p \<noteq> 0" and "perm_name p \<noteq> 0"
    and "\<exists>q. map_of (permissions db) (parent p) = Some q \<and> (parent p = 0 \<or> owner q = owner p)"
  using assms unfolding perm_tree_ok_def named_level_def by auto

lemma perm_tree_okE:
  assumes "perm_tree_ok db"
  shows "distinct (tab_keys (permissions db))" and "\<forall>i \<in> set (tab_keys (permissions db)). i < next_permission db"
    and "distinct (map ((\<lambda>p. (owner p, perm_name p)) \<circ> snd) (permissions db))"
    and "\<exists>r. map_of (permissions db) 0 = Some r \<and> \<not> named_level (owner r, perm_name r) \<and> parent r = 0"
  using assms unfolding perm_tree_ok_def tab_ok_def by blast+

lemma perm_usage_okE:
  assumes "perm_usage_ok db"
  shows "distinct (tab_keys (usages db))" and "\<forall>u \<in> set (tab_keys (usages db)). u < next_usage db"
  using assms by (simp_all add: perm_usage_ok_def tab_ok_def)

lemma perm_root:
  assumes "perm_tree_ok db"
  shows "\<exists>r. map_of (permissions db) 0 = Some r \<and> parent r = 0 \<and> \<not> (owner r \<noteq> 0 \<and> perm_name r \<noteq> 0)"
  using assms by (auto simp: perm_tree_ok_def named_level_def)

lemma parent_of_root: "(i, 0) \<in> (parent_of db)\<^sup>* \<Longrightarrow> i = 0"
  by (erule rtranclE) (auto simp: parent_of_def)

lemma ancestors_of_row:
  assumes "map_of (permissions db) j = Some p" and "j \<noteq> 0"
  shows "(i, j) \<in> (parent_of db)\<^sup>+ \<longleftrightarrow> (i, parent p) \<in> (parent_of db)\<^sup>*"
proof
  assume "(i, j) \<in> (parent_of db)\<^sup>+"
  then obtain k where "(i, k) \<in> (parent_of db)\<^sup>*" "(k, j) \<in> parent_of db" by (meson tranclD2)
  with assms show "(i, parent p) \<in> (parent_of db)\<^sup>*" by (auto simp: parent_of_def)
next
  assume "(i, parent p) \<in> (parent_of db)\<^sup>*"
  moreover have "(parent p, j) \<in> parent_of db" using assms by (auto simp: parent_of_def)
  ultimately show "(i, j) \<in> (parent_of db)\<^sup>+" by (rule rtrancl_into_trancl1)
qed

lemma satisfies_walk_iff:
  assumes "perm_tree_ok db" and "i \<noteq> 0"
  shows "map_of (permissions db) cur \<noteq> None \<Longrightarrow>
    satisfies_walk db i cur = Some ((i, cur) \<in> (parent_of db)\<^sup>+)"
proof (induction cur rule: less_induct)
  case (less cur)
  then obtain p where p: "map_of (permissions db) cur = Some p" by auto
  show ?case
  proof (cases "cur = 0")
    case True
    with perm_root [OF assms(1)] p have "parent p = 0" by auto
    moreover have "(i, cur) \<notin> (parent_of db)\<^sup>+"
      using parent_of_root [of i db] assms(2) True by (auto dest: trancl_into_rtrancl)
    ultimately show ?thesis using p assms(2) by (subst satisfies_walk.simps) simp
  next
    case False
    note row = perm_tree_okD [OF assms(1) p False]
    from row(4) have "map_of (permissions db) (parent p) \<noteq> None" by auto
    from less.IH [OF row(1) this]
    have "satisfies_walk db i (parent p) = Some ((i, parent p) \<in> (parent_of db)\<^sup>+)" .
    moreover have "parent p = 0 \<Longrightarrow> (i, parent p) \<notin> (parent_of db)\<^sup>*"
      using parent_of_root [of i db] assms(2) by auto
    ultimately show ?thesis
      using p ancestors_of_row [OF p False, of i]
      by (subst satisfies_walk.simps) (auto simp: rtrancl_eq_or_trancl)
  qed
qed

lemma ancestors_share_owner:
  assumes "perm_tree_ok db"
  shows "(i, j) \<in> (parent_of db)\<^sup>* \<Longrightarrow> i \<noteq> 0 \<Longrightarrow> map_of (permissions db) j = Some q \<Longrightarrow>
    \<exists>p. map_of (permissions db) i = Some p \<and> owner p = owner q"
proof (induction arbitrary: q rule: rtrancl_induct)
  case (step j k)
  then obtain p where p: "map_of (permissions db) j = Some p" "owner p = owner q \<or> j = 0"
    using perm_tree_okD(4) [OF assms step.prems(2)] by (auto simp: parent_of_def)
  moreover have "j \<noteq> 0" using parent_of_root [of i db] step.hyps(1) step.prems(1) by (cases "j = 0") auto
  ultimately show ?case using step.IH [OF step.prems(1) p(1)] by simp
qed simp

lemma satisfies_iff_ancestor:
  assumes "perm_tree_ok db" and "map_of (permissions db) i = Some p"
    and "map_of (permissions db) j = Some q" and "i \<noteq> 0" and "j \<noteq> 0"
  shows "satisfies db (i, p) (j, q) = Some ((i, j) \<in> (parent_of db)\<^sup>*)"
proof (cases "owner p = owner q")
  case False
  then have "(i, j) \<notin> (parent_of db)\<^sup>*"
    using ancestors_share_owner [OF assms(1) _ assms(4,3)] assms(2) by fastforce
  with False show ?thesis by (simp add: satisfies_def)
next
  case True
  from perm_tree_okD(4) [OF assms(1,3,5)] have "map_of (permissions db) (parent q) \<noteq> None" by auto
  from satisfies_walk_iff [OF assms(1,4) this] ancestors_of_row [OF assms(3,5), of i] True
  show ?thesis by (auto simp: satisfies_def rtrancl_eq_or_trancl)
qed

section \<open>Operations keep the trees well formed\<close>

definition perms_ok :: "auth_db \<Rightarrow> bool" where
  "perms_ok db \<longleftrightarrow> perm_tree_ok db \<and> perm_usage_ok db"

lemma find_by_owner_Some:
  assumes "perm_tree_ok db"
  shows "find_by_owner db a n = Some (i, p) \<longleftrightarrow>
    map_of (permissions db) i = Some p \<and> owner p = a \<and> perm_name p = n"
proof
  assume "find_by_owner db a n = Some (i, p)"
  then have "(i, p) \<in> set (permissions db)" "owner p = a" "perm_name p = n"
    by (auto simp: find_by_owner_def find_Some_iff in_set_conv_nth)
  with assms show "map_of (permissions db) i = Some p \<and> owner p = a \<and> perm_name p = n"
    by (simp add: perm_tree_ok_def tab_ok_def)
next
  assume r: "map_of (permissions db) i = Some p \<and> owner p = a \<and> perm_name p = n"
  then have "find_by_owner db a n \<noteq> None"
    by (auto simp: find_by_owner_def find_None_iff dest: map_of_SomeD)
  then obtain j q where f: "find_by_owner db a n = Some (j, q)" by auto
  then have "(j, q) \<in> set (permissions db)" "owner q = a" "perm_name q = n"
    by (auto simp: find_by_owner_def find_Some_iff in_set_conv_nth)
  then have "j = i \<and> q = p"
    using distinct_column [of "\<lambda>p. (owner p, perm_name p)" "permissions db" j q i p] assms r
    by (auto simp: perm_tree_ok_def dest: map_of_SomeD)
  with f show "find_by_owner db a n = Some (i, p)" by simp
qed

lemma find_by_owner_None:
  "find_by_owner db a n = None \<longleftrightarrow> (a, n) \<notin> set (map ((\<lambda>p. (owner p, perm_name p)) \<circ> snd) (permissions db))"
  by (force simp: find_by_owner_def find_None_iff)

lemma get_permission_Inr:
  assumes "perm_tree_ok db"
  shows "get_permission db level = Inr (i, p) \<longleftrightarrow>
    i \<noteq> 0 \<and> map_of (permissions db) i = Some p \<and> (owner p, perm_name p) = level"
proof -
  have "get_permission db level = Inr (i, p) \<longleftrightarrow> fst level \<noteq> 0 \<and> snd level \<noteq> 0 \<and>
      map_of (permissions db) i = Some p \<and> owner p = fst level \<and> perm_name p = snd level"
    by (simp add: get_permission_def res_simps find_by_owner_Some [OF assms])
  also have "\<dots> \<longleftrightarrow> i \<noteq> 0 \<and> map_of (permissions db) i = Some p \<and> (owner p, perm_name p) = level"
    using perm_root [OF assms] perm_tree_okD(2,3) [OF assms, of i p] by (cases level; cases "i = 0") auto
  finally show ?thesis .
qed

text \<open>The errors of a lookup: an empty name, or no such permission.\<close>

lemma get_permission_Inl:
  "get_permission db level = Inl e \<longleftrightarrow>
     (if named_level level then find_by_owner db (fst level) (snd level) = None \<and> e = Permission_query_exception
      else e = Invalid_permission)"
  by (auto simp: get_permission_def rethrow_as_def eos_assert_def from_some_def named_level_def split: option.splits)

lemma perm_id_less:
  assumes "perm_tree_ok db" and "map_of (permissions db) i = Some p"
  shows "i < next_permission db"
proof -
  have "i \<in> set (tab_keys (permissions db))" using map_of_SomeD [OF assms(2)] by force
  with assms(1) show ?thesis unfolding perm_tree_ok_def by blast
qed

lemma perm_usage_okD:
  assumes "perm_usage_ok db" and "map_of (permissions db) i = Some p" and "i \<noteq> 0"
  shows "map_of (usages db) (usage_id p) \<noteq> None" and "usage_id p < next_usage db"
    and "map_of (permissions db) j = Some q \<Longrightarrow> j \<noteq> 0 \<Longrightarrow> usage_id p = usage_id q \<Longrightarrow> i = j"
proof -
  show u: "map_of (usages db) (usage_id p) \<noteq> None" using assms unfolding perm_usage_ok_def by blast
  then have "usage_id p \<in> set (tab_keys (usages db))" by (simp add: map_of_eq_None_iff)
  with assms(1) show "usage_id p < next_usage db" unfolding perm_usage_ok_def by blast
  show "map_of (permissions db) j = Some q \<Longrightarrow> j \<noteq> 0 \<Longrightarrow> usage_id p = usage_id q \<Longrightarrow> i = j"
    using assms unfolding perm_usage_ok_def by blast
qed

lemma initialize_permissions_ok: "\<exists>db. initialize_permissions empty_auth_db = Inr db \<and> perms_ok db"
  by (auto simp: initialize_permissions_def create_permission_object_def empty_auth_db_def find_by_owner_def
      default_permission_def perms_ok_def perm_tree_ok_def perm_usage_ok_def tab_ok_def named_level_def)

lemma fresh_row_find:
  "\<forall>i \<in> set (tab_keys t). i < n \<Longrightarrow> map_of (t @ [(n, r)]) j = (if j = n then Some r else map_of t j)"
  for n :: nat
  by (rule tab_create_find) (auto simp: tab_create_Inr)

lemma find_by_owner_usages [simp]:
  "find_by_owner (db\<lparr>usages := u, next_usage := n\<rparr>) = find_by_owner db"
  by (simp add: find_by_owner_def fun_eq_iff)

lemma create_permission_eq:
  "create_permission now account n parent_id a t db =
     (let ct = (if t = 0 then now else t) in
      if find_by_owner db account n = None then
        Inr (next_permission db, db\<lparr>usages := usages db @ [(next_usage db, ct)], next_usage := next_usage db + 1,
          permissions := permissions db @ [(next_permission db, \<lparr>usage_id = next_usage db, parent = parent_id,
            owner = account, perm_name = n, last_updated = ct, auth = a\<rparr>)],
          next_permission := next_permission db + 1\<rparr>)
      else Inl Std_logic_error)"
  by (simp add: create_permission_def create_usage_object_def create_permission_object_def Let_def)

lemma create_permission_Inr:
  assumes "perms_ok db" and "named_level (account, n)"
    and "create_permission now account n parent_id a t db = Inr (i, db')"
    and "map_of (permissions db) parent_id = Some q" and "parent_id = 0 \<or> owner q = account"
  defines "ct \<equiv> if t = 0 then now else t"
  shows "perms_ok db'" and "find_by_owner db account n = None" and "i = next_permission db"
    and "i \<noteq> 0" and "links db' = links db"
    and "map_of (permissions db') = (map_of (permissions db)) (i \<mapsto>
      \<lparr>usage_id = next_usage db, parent = parent_id, owner = account, perm_name = n, last_updated = ct, auth = a\<rparr>)"
proof -
  let ?p = "\<lparr>usage_id = next_usage db, parent = parent_id, owner = account, perm_name = n, last_updated = ct, auth = a\<rparr>"
  have tree: "perm_tree_ok db" and usage: "perm_usage_ok db" using assms(1) by (simp_all add: perms_ok_def)
  from assms(3) have none: "find_by_owner db account n = None" and i: "i = next_permission db"
    and db': "db' = db\<lparr>usages := usages db @ [(next_usage db, ct)], next_usage := next_usage db + 1,
      permissions := permissions db @ [(next_permission db, ?p)], next_permission := next_permission db + 1\<rparr>"
    unfolding create_permission_eq Let_def ct_def [symmetric] by (auto split: if_split_asm)
  have pid: "parent_id < next_permission db"
    by (rule perm_id_less [OF tree assms(4)])
  show "find_by_owner db account n = None" "i = next_permission db" "links db' = links db"
    using none i by (simp_all add: db')
  show "i \<noteq> 0" using pid i by simp
  have find': "map_of (permissions db') j = (if j = i then Some ?p else map_of (permissions db) j)" for j
    using fresh_row_find [of "permissions db" "next_permission db"] tree by (simp add: db' i perm_tree_ok_def)
  then show "map_of (permissions db') = (map_of (permissions db)) (i \<mapsto> ?p)" by auto
  have ufind: "map_of (usages db') u = (if u = next_usage db then Some ct else map_of (usages db) u)" for u
    using fresh_row_find [of "usages db" "next_usage db"] usage by (simp add: db' perm_usage_ok_def)
  have row: "named_level (owner p, perm_name p) \<and> parent p < j \<and>
      (\<exists>q. map_of (permissions db') (parent p) = Some q \<and> (parent p = 0 \<or> owner q = owner p))"
    if "map_of (permissions db') j = Some p" "j \<noteq> 0" for j p
  proof (cases "j = i")
    case True
    with that assms(2,4,5) pid i show ?thesis by (auto simp: find')
  next
    case False
    with that have "map_of (permissions db) j = Some p" by (simp add: find')
    note old = perm_tree_okD [OF tree this that(2)]
    from \<open>map_of (permissions db) j = Some p\<close> have "j < next_permission db" by (rule perm_id_less [OF tree])
    with old i show ?thesis by (simp add: find' named_level_def)
  qed
  have "perm_tree_ok db'"
    unfolding perm_tree_ok_def
  proof (intro conjI)
    have "next_permission db \<notin> set (tab_keys (permissions db))" using perm_tree_okE(2) [OF tree] by blast
    with perm_tree_okE(1) [OF tree] show "tab_ok (permissions db')" by (simp add: db' tab_ok_def)
    show "\<forall>j \<in> set (tab_keys (permissions db')). j < next_permission db'"
      using perm_tree_okE(2) [OF tree] by (simp add: db' less_SucI)
    show "distinct (map ((\<lambda>p. (owner p, perm_name p)) \<circ> snd) (permissions db'))"
      using perm_tree_okE(3) [OF tree] none unfolding find_by_owner_None by (simp add: db')
    show "\<exists>r. map_of (permissions db') 0 = Some r \<and> \<not> named_level (owner r, perm_name r) \<and> parent r = 0"
      using perm_tree_okE(4) [OF tree] \<open>i \<noteq> 0\<close> by (simp add: find')
    show "\<forall>j p. map_of (permissions db') j = Some p \<longrightarrow> j \<noteq> 0 \<longrightarrow>
        named_level (owner p, perm_name p) \<and> parent p < j \<and>
        (\<exists>q. map_of (permissions db') (parent p) = Some q \<and> (parent p = 0 \<or> owner q = owner p))"
      by (intro allI impI) (rule row)
  qed
  moreover have "perm_usage_ok db'"
    unfolding perm_usage_ok_def
  proof (intro conjI allI impI)
    have "next_usage db \<notin> set (tab_keys (usages db))" using perm_usage_okE(2) [OF usage] by blast
    with perm_usage_okE(1) [OF usage] show "tab_ok (usages db')" by (simp add: db' tab_ok_def)
    show "\<forall>u \<in> set (tab_keys (usages db')). u < next_usage db'"
      using perm_usage_okE(2) [OF usage] by (simp add: db' less_SucI)
    show "map_of (usages db') (usage_id p) \<noteq> None" if "map_of (permissions db') j = Some p" "j \<noteq> 0" for j p
      using that perm_usage_okD(1) [OF usage, of j p] by (cases "j = i") (auto simp: find' ufind)
    fix j p k r
    assume r: "map_of (permissions db') j = Some p" "map_of (permissions db') k = Some r" "j \<noteq> 0" "k \<noteq> 0"
      "usage_id p = usage_id r"
    show "j = k"
    proof (cases "j = i \<or> k = i")
      case True
      with r perm_usage_okD(2) [OF usage, of j p] perm_usage_okD(2) [OF usage, of k r] show ?thesis
        by (auto simp: find' split: if_splits)
    next
      case False
      with r perm_usage_okD(3) [OF usage, of j p k r] show ?thesis by (simp add: find')
    qed
  qed
  ultimately show "perms_ok db'" by (simp add: perms_ok_def)
qed

lemma modify_permission_find:
  "map_of (permissions db) i = Some p \<Longrightarrow>
     map_of (permissions (modify_permission now (i, p) a db)) =
       (map_of (permissions db)) (i \<mapsto> p\<lparr>auth := a, last_updated := now\<rparr>)"
  by (auto simp: modify_permission_def tab_modify_find fun_eq_iff)

lemma modify_permission_ok:
  assumes "perms_ok db" and "map_of (permissions db) i = Some p"
  shows "perms_ok (modify_permission now (i, p) a db)"
proof -
  let ?db = "modify_permission now (i, p) a db" and ?p = "p\<lparr>auth := a, last_updated := now\<rparr>"
  have tree: "perm_tree_ok db" and usage: "perm_usage_ok db" using assms(1) by (simp_all add: perms_ok_def)
  have find': "map_of (permissions ?db) j = (if j = i then Some ?p else map_of (permissions db) j)" for j
    using modify_permission_find [OF assms(2), of now a] by simp
  have same: "\<exists>q. map_of (permissions db) j = Some q \<and> usage_id q = usage_id r \<and> parent q = parent r \<and>
      owner q = owner r \<and> perm_name q = perm_name r" if "map_of (permissions ?db) j = Some r" for j r
    using that assms(2) by (auto simp: find' split: if_splits)
  have "perm_tree_ok ?db"
    unfolding perm_tree_ok_def
  proof (intro conjI allI impI)
    show "tab_ok (permissions ?db)" using perm_tree_okE(1) [OF tree] by (simp add: modify_permission_def tab_ok_def)
    show "\<forall>j \<in> set (tab_keys (permissions ?db)). j < next_permission ?db"
      using perm_tree_okE(2) [OF tree] by (simp add: modify_permission_def)
    show "distinct (map ((\<lambda>p. (owner p, perm_name p)) \<circ> snd) (permissions ?db))"
      using perm_tree_okE(3) [OF tree]
        tab_modify_column [OF assms(2), of "\<lambda>p. (owner p, perm_name p)" ?p] by (simp add: modify_permission_def)
    show "\<exists>r. map_of (permissions ?db) 0 = Some r \<and> \<not> named_level (owner r, perm_name r) \<and> parent r = 0"
      unfolding find' using perm_tree_okE(4) [OF tree] assms(2) by (cases "i = 0") auto
    fix j r
    assume r: "map_of (permissions ?db) j = Some r" "j \<noteq> 0"
    from same [OF r(1)] obtain q where q: "map_of (permissions db) j = Some q" "parent q = parent r"
      "owner q = owner r" "perm_name q = perm_name r" by blast
    note row = perm_tree_okD [OF tree q(1) r(2)]
    show "named_level (owner r, perm_name r)" "parent r < j"
      using row(1-3) q by (simp_all add: named_level_def)
    show "\<exists>q. map_of (permissions ?db) (parent r) = Some q \<and> (parent r = 0 \<or> owner q = owner r)"
      using row(4) assms(2) by (cases "parent r = i") (auto simp: find' q)
  qed
  moreover have "perm_usage_ok ?db"
    unfolding perm_usage_ok_def
  proof (intro conjI allI impI)
    show "tab_ok (usages ?db)" "\<forall>u \<in> set (tab_keys (usages ?db)). u < next_usage ?db"
      using perm_usage_okE [OF usage] by (simp_all add: modify_permission_def tab_ok_def)
    show "map_of (usages ?db) (usage_id r) \<noteq> None" if "map_of (permissions ?db) j = Some r" "j \<noteq> 0" for j r
    proof -
      from same [OF that(1)] obtain q where "map_of (permissions db) j = Some q" "usage_id q = usage_id r" by blast
      with perm_usage_okD(1) [OF usage this(1) that(2)] show ?thesis by (simp add: modify_permission_def)
    qed
    fix j r k v
    assume r: "map_of (permissions ?db) j = Some r" "map_of (permissions ?db) k = Some v" "j \<noteq> 0" "k \<noteq> 0"
      "usage_id r = usage_id v"
    from same [OF r(1)] obtain r' where r': "map_of (permissions db) j = Some r'" "usage_id r' = usage_id r" by blast
    from same [OF r(2)] obtain v' where v': "map_of (permissions db) k = Some v'" "usage_id v' = usage_id v" by blast
    show "j = k" by (rule perm_usage_okD(3) [OF usage r'(1) r(3) v'(1) r(4)]) (simp add: r'(2) v'(2) r(5))
  qed
  ultimately show ?thesis by (simp add: perms_ok_def)
qed

lemma remove_permission_Inr:
  assumes "perms_ok db" and "map_of (permissions db) i = Some p" and "i \<noteq> 0"
    and "remove_permission (i, p) db = Inr db'"
  shows "perms_ok db'" and "map_of (permissions db') = (map_of (permissions db)) (i := None)"
    and "links db' = links db" and "\<And>j q. map_of (permissions db) j = Some q \<Longrightarrow> parent q \<noteq> i"
proof -
  have tree: "perm_tree_ok db" and usage: "perm_usage_ok db" using assms(1) by (simp_all add: perms_ok_def)
  from assms(4) have leaf: "\<not> has_children db i" and db': "db' = db\<lparr>usages := tab_remove (usage_id p) (usages db),
      permissions := tab_remove i (permissions db)\<rparr>"
    by (simp_all add: remove_permission_def res_simps)
  show child: "parent q \<noteq> i" if "map_of (permissions db) j = Some q" for j q
    using leaf map_of_SomeD [OF that] by (auto simp: has_children_def)
  have find': "map_of (permissions db') j = (if j = i then None else map_of (permissions db) j)" for j
    using tab_remove_find [OF perm_tree_okE(1) [OF tree]] by (simp add: db')
  then show "map_of (permissions db') = (map_of (permissions db)) (i := None)" by auto
  show "links db' = links db" by (simp add: db')
  have ufind: "map_of (usages db') u = (if u = usage_id p then None else map_of (usages db) u)" for u
    using tab_remove_find [OF perm_usage_okE(1) [OF usage]] by (simp add: db')
  have old: "map_of (permissions db) j = Some r" "j \<noteq> i" if "map_of (permissions db') j = Some r" for j r
    using that by (auto simp: find' split: if_splits)
  have sub: "set (tab_remove k t) \<subseteq> set t" for k :: nat and t :: "(nat, 'b) rows"
    by (induction k t rule: tab_remove.induct) auto
  have col: "distinct (map f (permissions db)) \<Longrightarrow> distinct (map f (permissions db'))" for f :: "_ \<Rightarrow> 'c"
  proof -
    have "distinct (map f t) \<Longrightarrow> distinct (map f (tab_remove k t))" for k :: nat and t
      by (induction k t rule: tab_remove.induct) (use sub in \<open>auto split: if_splits\<close>)
    then show "distinct (map f (permissions db)) \<Longrightarrow> distinct (map f (permissions db'))" by (simp add: db')
  qed
  have "perm_tree_ok db'"
    unfolding perm_tree_ok_def
  proof (intro conjI allI impI)
    show "tab_ok (permissions db')" using col [of fst] perm_tree_okE(1) [OF tree] by (simp add: tab_ok_def)
    show "\<forall>j \<in> set (tab_keys (permissions db')). j < next_permission db'"
      using perm_tree_okE(2) [OF tree] sub [of i "permissions db"] by (auto simp: db')
    show "distinct (map ((\<lambda>p. (owner p, perm_name p)) \<circ> snd) (permissions db'))"
      using col perm_tree_okE(3) [OF tree] by blast
    show "\<exists>r. map_of (permissions db') 0 = Some r \<and> \<not> named_level (owner r, perm_name r) \<and> parent r = 0"
      using perm_tree_okE(4) [OF tree] assms(3) by (simp add: find')
    fix j r
    assume r: "map_of (permissions db') j = Some r" "j \<noteq> 0"
    note row = perm_tree_okD [OF tree old(1) [OF r(1)] r(2)]
    show "named_level (owner r, perm_name r)" "parent r < j" using row(1-3) by (simp_all add: named_level_def)
    show "\<exists>q. map_of (permissions db') (parent r) = Some q \<and> (parent r = 0 \<or> owner q = owner r)"
      using row(4) child [OF old(1) [OF r(1)]] by (simp add: find')
  qed
  moreover have "perm_usage_ok db'"
    unfolding perm_usage_ok_def
  proof (intro conjI allI impI)
    show "tab_ok (usages db')"
      using perm_usage_okE(1) [OF usage] rows.remove_ok [of "usages db"] by (simp add: db' tab_ok_def)
    show "\<forall>u \<in> set (tab_keys (usages db')). u < next_usage db'"
      using perm_usage_okE(2) [OF usage] sub [of "usage_id p" "usages db"] by (auto simp: db')
    show "map_of (usages db') (usage_id r) \<noteq> None" if "map_of (permissions db') j = Some r" "j \<noteq> 0" for j r
      using perm_usage_okD(1) [OF usage old(1) [OF that(1)] that(2)] old(2) [OF that(1)]
        perm_usage_okD(3) [OF usage old(1) [OF that(1)] that(2) assms(2,3)] by (auto simp: ufind)
    fix j r k v
    assume "map_of (permissions db') j = Some r" "map_of (permissions db') k = Some v" "j \<noteq> 0" "k \<noteq> 0"
      "usage_id r = usage_id v"
    then show "j = k" using perm_usage_okD(3) [OF usage old(1) _ old(1)] by blast
  qed
  ultimately show "perms_ok db'" by (simp add: perms_ok_def)
qed

lemma update_permission_usage_ok:
  assumes "perms_ok db" and "update_permission_usage now p db = Inr db'"
  shows "perms_ok db'" and "permissions db' = permissions db" and "get_permission_last_used p db' = Inr now"
proof -
  have tree: "perm_tree_ok db" and usage: "perm_usage_ok db" using assms(1) by (simp_all add: perms_ok_def)
  from assms(2) obtain t where t: "map_of (usages db) (usage_id p) = Some t"
    and db': "db' = db\<lparr>usages := tab_modify (usage_id p) now (usages db)\<rparr>"
    by (auto simp: update_permission_usage_def tab_get_def res_simps)
  show "permissions db' = permissions db" by (simp add: db')
  show "get_permission_last_used p db' = Inr now"
    using t by (simp add: db' get_permission_last_used_def tab_get_def tab_modify_find)
  have "perm_tree_ok db'" using tree by (simp add: db' perm_tree_ok_def)
  moreover have "perm_usage_ok db'"
  proof -
    have "map_of (usages db') u = None \<longleftrightarrow> map_of (usages db) u = None" for u
      by (simp add: db' rows.modify_keeps_keys)
    moreover have "tab_keys (usages db') = tab_keys (usages db)" "next_usage db' = next_usage db"
      "permissions db' = permissions db" by (simp_all add: db')
    ultimately have "perm_usage_ok db' = perm_usage_ok db" unfolding perm_usage_ok_def tab_ok_def by (simp only:)
    with usage show ?thesis by simp
  qed
  ultimately show "perms_ok db'" by (simp add: perms_ok_def)
qed

end
