(* ===== verification/Authority_Checker.thy ===== *)
theory Authority_Checker
  imports Authority
begin

text \<open>
  The authority checker (\<open>authority_checker.hpp\<close>): whether keys, permissions and a delay satisfy
  an authority. The recursion through permissions is bounded by a depth limit and remembers the
  permissions it has seen; keys marked as used are unmarked when the authority that used them
  turns out unsatisfied.
\<close>

section \<open>Factors in the order they are tried\<close>

datatype meta_permission =
    Permission permission_level_weight
  | Key key_weight
  | Wait wait_weight

fun meta_weight :: "meta_permission \<Rightarrow> u32" where
  "meta_weight (Permission p) = plw_weight p"
| "meta_weight (Key k) = kw_weight k"
| "meta_weight (Wait w) = ww_weight w"

fun meta_which :: "meta_permission \<Rightarrow> nat" where
  "meta_which (Permission p) = 0"
| "meta_which (Key k) = 1"
| "meta_which (Wait w) = 2"

definition meta_permission_comparator :: "meta_permission \<Rightarrow> meta_permission \<Rightarrow> bool" where
  "meta_permission_comparator lhs rhs \<longleftrightarrow>
     (meta_weight lhs, meta_which lhs) > (meta_weight rhs, meta_which rhs)"

text \<open>The flat multiset: equivalent factors stay in the order of their insertion.\<close>

definition meta_permissions :: "authority \<Rightarrow> meta_permission list" where
  "meta_permissions a =
     std_sort meta_permission_comparator (map Wait (waits a) @ map Key (keys a) @ map Permission (accounts a))"

section \<open>The checker\<close>

datatype permission_cache_status = Being_evaluated | Permission_unsatisfied | Permission_satisfied

type_synonym permission_cache = "(permission_level \<times> permission_cache_status) list"

record authority_checker =
  permission_to_authority :: "permission_level \<Rightarrow> authority res"
  provided_keys :: "public_key list"
  provided_permissions :: "permission_level list"
  provided_delay :: i64
  recursion_depth_limit :: u16

record checker_state =
  used_flags :: "bool list"
  cached_permissions :: permission_cache

definition permission_status_in_cache ::
  "permission_cache \<Rightarrow> permission_level \<Rightarrow> permission_cache_status option" where
  "permission_status_in_cache permissions level =
     (case map_of permissions level of
        Some st \<Rightarrow> Some st
      | None \<Rightarrow> map_of permissions (fst level, 0))"

text \<open>\<open>std::map::emplace\<close>: an existing entry stays.\<close>

definition fm_emplace :: "'k :: linorder \<Rightarrow> 'v \<Rightarrow> ('k \<times> 'v) list \<Rightarrow> ('k \<times> 'v) list" where
  "fm_emplace k v m = (if map_of m k = None then fm_set k v m else m)"

definition initialize_permission_cache :: "authority_checker \<Rightarrow> permission_cache" where
  "initialize_permission_cache C =
     foldl (\<lambda>m p. fm_emplace p Permission_satisfied m) [] (provided_permissions C)"

fun mark_key :: "public_key \<Rightarrow> public_key list \<Rightarrow> bool list \<Rightarrow> bool list" where
  "mark_key k (p # ps) (f # fs) = (if p = k then True # fs else f # mark_key k ps fs)"
| "mark_key k ps fs = fs"

text \<open>
  Visiting one factor, trying all factors of an authority, and an authority as a whole. The
  total weight is of type \<open>uint32_t\<close>. A permission that cannot be looked up counts nothing.
\<close>

function (sequential)
  visit :: "authority_checker \<Rightarrow> u16 \<Rightarrow> meta_permission \<Rightarrow> u32 \<Rightarrow> checker_state \<Rightarrow> (u32 \<times> checker_state) res" and
  tally :: "authority_checker \<Rightarrow> u16 \<Rightarrow> u32 \<Rightarrow> u32 \<Rightarrow> meta_permission list \<Rightarrow> checker_state \<Rightarrow> (bool \<times> checker_state) res" and
  satisfied_authority :: "authority_checker \<Rightarrow> u16 \<Rightarrow> authority \<Rightarrow> checker_state \<Rightarrow> (bool \<times> checker_state) res"
where
  "visit C depth (Wait w) total_weight s =
     Inr (if provided_delay C \<ge> int (wait_sec w) * 1000000 then wrap32 (total_weight + ww_weight w)
          else total_weight, s)"
| "visit C depth (Key k) total_weight s =
     (if kw_key k \<in> set (provided_keys C)
      then Inr (wrap32 (total_weight + kw_weight k),
                s\<lparr>used_flags := mark_key (kw_key k) (provided_keys C) (used_flags s)\<rparr>)
      else Inr (total_weight, s))"
| "visit C depth (Permission p) total_weight s =
     (case permission_status_in_cache (cached_permissions s) (plw_permission p) of
        None \<Rightarrow>
          if depth < recursion_depth_limit C then
            (case permission_to_authority C (plw_permission p) of
               Inl e \<Rightarrow> if e = Permission_query_exception then Inr (total_weight, s) else Inl e
             | Inr auth \<Rightarrow>
                 (case satisfied_authority C (depth + 1) auth (s\<lparr>cached_permissions :=
                         fm_emplace (plw_permission p) Being_evaluated (cached_permissions s)\<rparr>) of
                    Inl e \<Rightarrow> Inl e
                  | Inr (r, s') \<Rightarrow>
                      if r then Inr (wrap32 (total_weight + plw_weight p), s'\<lparr>cached_permissions :=
                        fm_set (plw_permission p) Permission_satisfied (cached_permissions s')\<rparr>)
                      else Inr (total_weight, s'\<lparr>cached_permissions :=
                        fm_set (plw_permission p) Permission_unsatisfied (cached_permissions s')\<rparr>)))
          else Inr (total_weight, s)
      | Some status \<Rightarrow>
          Inr (if status = Permission_satisfied then wrap32 (total_weight + plw_weight p) else total_weight, s))"
| "tally C depth needed total_weight [] s = Inr (False, s)"
| "tally C depth needed total_weight (m # ms) s =
     (case visit C depth m total_weight s of
        Inl e \<Rightarrow> Inl e
      | Inr (total_weight', s') \<Rightarrow>
          if total_weight' \<ge> needed then Inr (True, s') else tally C depth needed total_weight' ms s')"
| "satisfied_authority C depth auth s =
     (case tally C depth (threshold auth) 0 (meta_permissions auth) s of
        Inl e \<Rightarrow> Inl e
      | Inr (r, s') \<Rightarrow> Inr (r, if r then s' else s'\<lparr>used_flags := used_flags s\<rparr>))"
  by pat_completeness auto

termination
  by (relation "measures
    [\<lambda>x. case x of Inl (C, depth, _) \<Rightarrow> recursion_depth_limit C - depth
        | Inr (Inl (C, depth, _)) \<Rightarrow> recursion_depth_limit C - depth
        | Inr (Inr (C, depth, _)) \<Rightarrow> recursion_depth_limit C - depth,
     \<lambda>x. case x of Inl _ \<Rightarrow> 0 | Inr (Inl (_, _, _, _, ms, _)) \<Rightarrow> length ms
        | Inr (Inr (_, _, auth, _)) \<Rightarrow> Suc (length (meta_permissions auth))]") auto

definition new_checker_state :: "authority_checker \<Rightarrow> checker_state" where
  "new_checker_state C =
     \<lparr>used_flags = map (\<lambda>_. False) (provided_keys C), cached_permissions = []\<rparr>"

text \<open>\<open>satisfied\<close> on a permission level: the cache is built anew for each call.\<close>

definition satisfied_permission ::
  "authority_checker \<Rightarrow> permission_level \<Rightarrow> checker_state \<Rightarrow> (bool \<times> checker_state) res" where
  "satisfied_permission C p s =
     ebind (visit C 0 (Permission \<lparr>plw_permission = p, plw_weight = 1\<rparr>) 0
       (s\<lparr>cached_permissions := initialize_permission_cache C\<rparr>)) (\<lambda>(w, s'). Inr (w > 0, s'))"

definition satisfied_permission_delay ::
  "authority_checker \<Rightarrow> permission_level \<Rightarrow> i64 \<Rightarrow> checker_state \<Rightarrow> (bool \<times> checker_state) res" where
  "satisfied_permission_delay C p override_provided_delay s =
     satisfied_permission (C\<lparr>provided_delay := override_provided_delay\<rparr>) p s"

text \<open>\<open>satisfied\<close> on an authority that is not stored under a permission.\<close>

definition satisfied_given ::
  "authority_checker \<Rightarrow> authority \<Rightarrow> checker_state \<Rightarrow> (bool \<times> checker_state) res" where
  "satisfied_given C auth s =
     satisfied_authority C 0 auth (s\<lparr>cached_permissions := initialize_permission_cache C\<rparr>)"

definition satisfied_given_delay ::
  "authority_checker \<Rightarrow> authority \<Rightarrow> i64 \<Rightarrow> checker_state \<Rightarrow> (bool \<times> checker_state) res" where
  "satisfied_given_delay C auth override_provided_delay s =
     satisfied_given (C\<lparr>provided_delay := override_provided_delay\<rparr>) auth s"

definition all_keys_used :: "checker_state \<Rightarrow> bool" where
  "all_keys_used s \<longleftrightarrow> (\<forall>f \<in> set (used_flags s). f)"

definition filter_data_by_marker :: "'a list \<Rightarrow> bool list \<Rightarrow> bool \<Rightarrow> 'a list" where
  "filter_data_by_marker data markers v = map snd (filter (\<lambda>(m, d). m = v) (zip markers data))"

definition used_keys :: "authority_checker \<Rightarrow> checker_state \<Rightarrow> public_key list" where
  "used_keys C s = filter_data_by_marker (provided_keys C) (used_flags s) True"

definition unused_keys :: "authority_checker \<Rightarrow> checker_state \<Rightarrow> public_key list" where
  "unused_keys C s = filter_data_by_marker (provided_keys C) (used_flags s) False"

end
