(* ===== verification/Authority_Semantics.thy ===== *)
theory Authority_Semantics
  imports Authority_Checker
begin

text \<open>
  What the authority checker decides: a declarative meaning of a permission being held, the
  soundness of the checker for every authority graph, its exactness on graphs without cycles
  that fit the depth limit, and the case in which the keys it reports as used are too few.
\<close>

section \<open>The meaning of an authority\<close>

definition provided :: "authority_checker \<Rightarrow> permission_level \<Rightarrow> bool" where
  "provided C p \<longleftrightarrow> p \<in> set (provided_permissions C) \<or> (fst p, 0) \<in> set (provided_permissions C)"

text \<open>The weight of the factors that hold, where \<open>H\<close> says which permissions do.\<close>

fun factor_holds :: "authority_checker \<Rightarrow> (permission_level \<Rightarrow> bool) \<Rightarrow> meta_permission \<Rightarrow> bool" where
  "factor_holds C H (Wait w) \<longleftrightarrow> provided_delay C \<ge> int (wait_sec w) * 1000000"
| "factor_holds C H (Key k) \<longleftrightarrow> kw_key k \<in> set (provided_keys C)"
| "factor_holds C H (Permission p) \<longleftrightarrow> H (plw_permission p)"

definition factor_weight :: "authority_checker \<Rightarrow> (permission_level \<Rightarrow> bool) \<Rightarrow> meta_permission \<Rightarrow> nat" where
  "factor_weight C H m = (if factor_holds C H m then meta_weight m else 0)"

definition held_weight :: "authority_checker \<Rightarrow> (permission_level \<Rightarrow> bool) \<Rightarrow> authority \<Rightarrow> nat" where
  "held_weight C H a =
     (\<Sum>w\<leftarrow>waits a. factor_weight C H (Wait w)) + (\<Sum>k\<leftarrow>keys a. factor_weight C H (Key k)) +
     (\<Sum>p\<leftarrow>accounts a. factor_weight C H (Permission p))"

text \<open>
  A permission is held when it is provided, or when held factors of its authority reach the
  threshold: the least such predicate, so that cycles do not support themselves.
\<close>

inductive holds :: "authority_checker \<Rightarrow> permission_level \<Rightarrow> bool" for C where
  given: "provided C p \<Longrightarrow> holds C p"
| derived: "permission_to_authority C p = Inr auth \<Longrightarrow> (\<And>q. H q \<Longrightarrow> holds C q) \<Longrightarrow>
    threshold auth \<le> held_weight C H auth \<Longrightarrow> holds C p"

lemma sum_meta_permissions:
  "(\<Sum>m\<leftarrow>meta_permissions a. factor_weight C H m) = held_weight C H a"
proof -
  have "(\<Sum>m\<leftarrow>meta_permissions a. factor_weight C H m) =
      sum_mset (image_mset (factor_weight C H) (mset (meta_permissions a)))"
    by (simp flip: sum_mset_sum_list mset_map)
  also have "\<dots> = held_weight C H a"
    by (simp add: meta_permissions_def held_weight_def comp_def flip: sum_mset_sum_list mset_map)
  finally show ?thesis .
qed

lemma held_weight_mono:
  assumes "\<And>q. H q \<Longrightarrow> H' q"
  shows "held_weight C H a \<le> held_weight C H' a"
proof -
  have "factor_weight C H m \<le> factor_weight C H' m" for m
    using assms by (cases m) (auto simp: factor_weight_def)
  then show ?thesis
    unfolding held_weight_def by (intro add_mono sum_list_mono)
qed

lemma holds_iff:
  "holds C p \<longleftrightarrow> provided C p \<or>
    (\<exists>auth. permission_to_authority C p = Inr auth \<and> threshold auth \<le> held_weight C (holds C) auth)"
proof
  assume "holds C p"
  then show "provided C p \<or>
    (\<exists>auth. permission_to_authority C p = Inr auth \<and> threshold auth \<le> held_weight C (holds C) auth)"
  proof cases
    case (derived auth H)
    then show ?thesis
      using held_weight_mono [of H "holds C" C auth] order_trans by blast
  qed simp
qed (auto intro: holds.intros)

section \<open>The cache\<close>

text \<open>No permission without a name has an authority; such a level is a wildcard when provided.\<close>

definition names_required :: "authority_checker \<Rightarrow> bool" where
  "names_required C \<longleftrightarrow> (\<forall>a auth. permission_to_authority C (a, 0) \<noteq> Inr auth)"

definition cache_sound :: "authority_checker \<Rightarrow> permission_cache \<Rightarrow> bool" where
  "cache_sound C c \<longleftrightarrow> (\<forall>p. map_of c p = Some Permission_satisfied \<longrightarrow>
     holds C p \<and> (snd p = 0 \<longrightarrow> p \<in> set (provided_permissions C)))"

lemma cache_sound_status:
  assumes "cache_sound C c" and "permission_status_in_cache c p = Some Permission_satisfied"
  shows "holds C p"
proof (cases "map_of c p")
  case None
  with assms(2) have "map_of c (fst p, 0) = Some Permission_satisfied"
    by (simp add: permission_status_in_cache_def)
  with assms(1) have "(fst p, 0) \<in> set (provided_permissions C)" by (auto simp: cache_sound_def)
  then show ?thesis by (auto intro: holds.given simp: provided_def)
next
  case (Some st)
  with assms(2) have "map_of c p = Some Permission_satisfied"
    by (simp add: permission_status_in_cache_def)
  with assms(1) show ?thesis unfolding cache_sound_def by blast
qed

lemma map_of_fm_emplace:
  "map_of (fm_emplace k v m) k' = (if k' = k \<and> map_of m k = None then Some v else map_of m k')"
  by (simp add: fm_emplace_def fm.lookup_update)

lemma cache_sound_set:
  assumes "cache_sound C c" and "v = Permission_satisfied \<Longrightarrow> holds C p \<and> snd p \<noteq> 0"
  shows "cache_sound C (fm_set p v c)"
  using assms by (auto simp: cache_sound_def fm.lookup_update)

lemma cache_sound_emplace:
  "cache_sound C c \<Longrightarrow> cache_sound C (fm_emplace p Being_evaluated c)"
  by (auto simp: cache_sound_def map_of_fm_emplace)

lemma initial_cache:
  "map_of (initialize_permission_cache C) p =
     (if p \<in> set (provided_permissions C) then Some Permission_satisfied else None)"
proof -
  have "map_of (foldl (\<lambda>m p. fm_emplace p Permission_satisfied m) m ps) p =
      (case map_of m p of Some v \<Rightarrow> Some v | None \<Rightarrow> if p \<in> set ps then Some Permission_satisfied else None)"
    for m :: permission_cache and ps
    by (induction ps arbitrary: m) (auto simp: map_of_fm_emplace split: option.splits)
  then show ?thesis by (simp add: initialize_permission_cache_def)
qed

lemma initial_cache_sound: "cache_sound C (initialize_permission_cache C)"
  by (auto simp: cache_sound_def initial_cache provided_def intro: holds.given split: if_splits)

section \<open>Soundness\<close>

lemma wrap32_le: "wrap32 n \<le> n"
  by (simp add: wrap32_def)

lemma checker_sound:
  "visit C d m t s = Inr (t', s') \<Longrightarrow> names_required C \<Longrightarrow> cache_sound C (cached_permissions s) \<Longrightarrow>
     cache_sound C (cached_permissions s') \<and> t' \<le> t + factor_weight C (holds C) m"
  "tally C d n t ms s = Inr (r, s') \<Longrightarrow> names_required C \<Longrightarrow> cache_sound C (cached_permissions s) \<Longrightarrow>
     cache_sound C (cached_permissions s') \<and>
     (r \<longrightarrow> n \<le> t + (\<Sum>m\<leftarrow>ms. factor_weight C (holds C) m))"
  "satisfied_authority C d a s = Inr (r, s') \<Longrightarrow> names_required C \<Longrightarrow> cache_sound C (cached_permissions s) \<Longrightarrow>
     cache_sound C (cached_permissions s') \<and> (r \<longrightarrow> threshold a \<le> held_weight C (holds C) a)"
proof (induction C d m t s and C d n t ms s and C d a s arbitrary: t' s' and r s' and r s'
    rule: visit_tally_satisfied_authority.induct)
  case (1 C depth w t s)
  then show ?case using wrap32_le [of "t + ww_weight w"] by (auto simp: factor_weight_def)
next
  case (2 C depth k t s)
  then show ?case using wrap32_le [of "t + kw_weight k"] by (auto simp: factor_weight_def split: if_splits)
next
  case (3 C depth p t s)
  let ?p = "plw_permission p"
  show ?case
  proof (cases "permission_status_in_cache (cached_permissions s) ?p")
    case (Some st)
    then show ?thesis
      using 3 wrap32_le [of "t + plw_weight p"] cache_sound_status [of C "cached_permissions s" ?p]
      by (auto simp: factor_weight_def split: if_splits)
  next
    case None
    show ?thesis
    proof (cases "depth < recursion_depth_limit C")
      case True
      show ?thesis
      proof (cases "permission_to_authority C ?p")
        case (Inl e)
        with 3 None True show ?thesis by (auto split: if_splits)
      next
        case (Inr auth)
        let ?s = "s\<lparr>cached_permissions := fm_emplace ?p Being_evaluated (cached_permissions s)\<rparr>"
        from "3.prems"(1) None True Inr obtain r s1
          where r: "satisfied_authority C (depth + 1) auth ?s = Inr (r, s1)"
            and res: "t' = (if r then wrap32 (t + plw_weight p) else t)"
              "s' = s1\<lparr>cached_permissions := fm_set ?p
                (if r then Permission_satisfied else Permission_unsatisfied) (cached_permissions s1)\<rparr>"
          by (auto split: sum.splits prod.splits if_splits)
        have IH: "cache_sound C (cached_permissions s1) \<and> (r \<longrightarrow> threshold auth \<le> held_weight C (holds C) auth)"
          using "3.IH" [OF None True Inr r "3.prems"(2)] cache_sound_emplace [OF "3.prems"(3)] by simp
        have hold: "r \<Longrightarrow> holds C ?p" using IH Inr holds_iff by blast
        have named: "snd ?p \<noteq> 0"
        proof
          assume "snd ?p = 0"
          then have "?p = (fst ?p, 0)" by (simp add: prod_eq_iff)
          with Inr "3.prems"(2) show False unfolding names_required_def by metis
        qed
        have "cache_sound C (cached_permissions s')"
          using cache_sound_set [of C "cached_permissions s1" Permission_satisfied ?p]
            cache_sound_set [of C "cached_permissions s1" Permission_unsatisfied ?p] IH hold named
          by (cases r) (simp_all add: res(2))
        moreover have "t' \<le> t + factor_weight C (holds C) (Permission p)"
          using hold wrap32_le [of "t + plw_weight p"] by (simp add: res(1) factor_weight_def)
        ultimately show ?thesis ..
      qed
    qed (use 3 None in simp)
  qed
next
  case (5 C depth n t m ms s)
  then obtain t1 s1 where v: "visit C depth m t s = Inr (t1, s1)"
    and rest: "if t1 \<ge> n then r \<and> s' = s1 else tally C depth n t1 ms s1 = Inr (r, s')"
    by (auto split: sum.splits prod.splits if_splits)
  from "5.IH"(1) [OF v "5.prems"(2,3)]
  have s1: "cache_sound C (cached_permissions s1)" and t1: "t1 \<le> t + factor_weight C (holds C) m" by auto
  show ?case
  proof (cases "t1 \<ge> n")
    case True
    then show ?thesis using rest s1 t1 by auto
  next
    case False
    with rest have "tally C depth n t1 ms s1 = Inr (r, s')" by simp
    from "5.IH"(2) [OF v refl False this "5.prems"(2) s1] t1 show ?thesis by auto
  qed
next
  case (6 C depth auth s)
  then obtain s1 where t: "tally C depth (threshold auth) 0 (meta_permissions auth) s = Inr (r, s1)"
    and s': "s' = (if r then s1 else s1\<lparr>used_flags := used_flags s\<rparr>)"
    by (auto split: sum.splits prod.splits)
  from "6.IH" [OF t "6.prems"(2,3)] show ?case
    by (simp add: s' sum_meta_permissions)
qed auto

lemma satisfied_permission_holds:
  assumes "names_required C" and "satisfied_permission C p s = Inr (True, s')"
  shows "holds C p"
proof -
  let ?m = "Permission \<lparr>plw_permission = p, plw_weight = 1\<rparr>"
  let ?s = "s\<lparr>cached_permissions := initialize_permission_cache C\<rparr>"
  from assms(2) obtain w where w: "visit C 0 ?m 0 ?s = Inr (w, s')" "w > 0"
    by (auto simp: satisfied_permission_def res_simps simp del: visit.simps)
  from checker_sound(1) [OF w(1) assms(1)] initial_cache_sound have "w \<le> factor_weight C (holds C) ?m"
    by simp
  with w(2) show ?thesis by (simp add: factor_weight_def split: if_splits)
qed

text \<open>
  C9. Soundness of the authority checker: when it reports a permission as satisfied, the
  permission is held, that is, it follows from the provided keys, permissions and delay through
  authorities whose held factors reach their thresholds. This needs no assumption on the
  authorities: cycles, weights that overflow and the reuse of cached results cannot grant a
  permission.
\<close>

theorem satisfied_permission_sound:
  assumes "names_required C" and "satisfied_permission C p s = Inr (True, s')"
  shows "holds C p"
  using assms by (rule satisfied_permission_holds)

section \<open>Exactness\<close>

text \<open>
  An authority graph that fits the checker: permissions can be ranked so that authorities refer
  to lower ranks only, missing permissions are reported as such, and every authority has a
  positive threshold, weights whose sum fits 32 bits, and no empty names, as validation ensures.
\<close>

definition graph_ok :: "authority_checker \<Rightarrow> (permission_level \<Rightarrow> nat) \<Rightarrow> bool" where
  "graph_ok C rank \<longleftrightarrow>
     (\<forall>p. 0 < rank p) \<and>
     (\<forall>p e. permission_to_authority C p = Inl e \<longrightarrow> named_level p \<longrightarrow> e = Permission_query_exception) \<and>
     (\<forall>p auth. permission_to_authority C p = Inr auth \<longrightarrow>
        0 < threshold auth \<and> authority_weight auth < 2 ^ 32 \<and>
        (\<forall>q \<in> set (accounts auth). named_level (plw_permission q) \<and> rank (plw_permission q) < rank p))"

definition cache_exact :: "authority_checker \<Rightarrow> (permission_level \<Rightarrow> nat) \<Rightarrow> nat \<Rightarrow> permission_cache \<Rightarrow> bool" where
  "cache_exact C rank n c \<longleftrightarrow> cache_sound C c \<and>
     (\<forall>p st. map_of c p = Some st \<longrightarrow> st \<noteq> Permission_satisfied \<longrightarrow> snd p \<noteq> 0 \<and>
        (if st = Being_evaluated then n < rank p else \<not> holds C p)) \<and>
     (\<forall>p \<in> set (provided_permissions C). map_of c p = Some Permission_satisfied)"

lemma cache_exact_status:
  assumes ex: "cache_exact C rank n c" and "rank p \<le> n"
  shows "permission_status_in_cache c p = Some st \<Longrightarrow> st = Permission_satisfied \<longleftrightarrow> holds C p"
    and "permission_status_in_cache c p = None \<Longrightarrow> \<not> provided C p"
proof -
  have sound: "cache_sound C c" using ex by (simp add: cache_exact_def)
  show "st = Permission_satisfied \<longleftrightarrow> holds C p" if st: "permission_status_in_cache c p = Some st"
  proof (cases "st = Permission_satisfied")
    case True
    with cache_sound_status [OF sound, of p] st show ?thesis by simp
  next
    case False
    have "map_of c p = Some st"
    proof (rule ccontr)
      assume "map_of c p \<noteq> Some st"
      with st have "map_of c (fst p, 0) = Some st"
        by (auto simp: permission_status_in_cache_def split: option.splits)
      with ex False show False unfolding cache_exact_def by fastforce
    qed
    with ex False have "if st = Being_evaluated then n < rank p else \<not> holds C p"
      unfolding cache_exact_def by blast
    with assms(2) False show ?thesis by (auto split: if_splits)
  qed
  show "\<not> provided C p" if "permission_status_in_cache c p = None"
    using that ex by (auto simp: permission_status_in_cache_def cache_exact_def provided_def split: option.splits)
qed

lemma cache_exact_emplace:
  assumes "cache_exact C rank n c" and "permission_status_in_cache c p = None" and "snd p \<noteq> 0"
    and "rank p \<le> n" and "k < rank p"
  shows "cache_exact C rank k (fm_emplace p Being_evaluated c)"
proof -
  have none: "map_of c p = None"
    using assms(2) by (auto simp: permission_status_in_cache_def split: option.splits)
  show ?thesis
    unfolding cache_exact_def
  proof (intro conjI allI impI ballI)
    show "cache_sound C (fm_emplace p Being_evaluated c)"
      using assms(1) by (simp add: cache_exact_def cache_sound_emplace)
    fix q st
    assume q: "map_of (fm_emplace p Being_evaluated c) q = Some st" "st \<noteq> Permission_satisfied"
    show "snd q \<noteq> 0" "if st = Being_evaluated then k < rank q else \<not> holds C q"
    proof (atomize (full), cases "q = p")
      case True
      with q none assms(3,5) show "snd q \<noteq> 0 \<and> (if st = Being_evaluated then k < rank q else \<not> holds C q)"
        by (simp add: map_of_fm_emplace)
    next
      case False
      with q have "map_of c q = Some st" by (simp add: map_of_fm_emplace)
      with assms(1) q(2) have "snd q \<noteq> 0 \<and> (if st = Being_evaluated then n < rank q else \<not> holds C q)"
        unfolding cache_exact_def by blast
      with assms(4,5) show "snd q \<noteq> 0 \<and> (if st = Being_evaluated then k < rank q else \<not> holds C q)"
        by (auto split: if_splits)
    qed
  next
    fix q
    assume "q \<in> set (provided_permissions C)"
    with assms(1) none show "map_of (fm_emplace p Being_evaluated c) q = Some Permission_satisfied"
      by (auto simp: cache_exact_def map_of_fm_emplace)
  qed
qed

text \<open>The result of evaluating \<open>p\<close> replaces its entry; entries of other ranks are as before.\<close>

lemma cache_exact_result:
  assumes ex: "cache_exact C rank k c" and "cache_sound C (fm_set p v c)" and "p \<notin> set (provided_permissions C)"
    and "snd p \<noteq> 0" and "v \<noteq> Being_evaluated" and "v = Permission_unsatisfied \<Longrightarrow> \<not> holds C p"
    and others: "\<And>q. map_of c q = Some Being_evaluated \<Longrightarrow> q \<noteq> p \<Longrightarrow> n < rank q"
  shows "cache_exact C rank n (fm_set p v c)"
  unfolding cache_exact_def
proof (intro conjI allI impI ballI)
  fix q st
  assume q: "map_of (fm_set p v c) q = Some st" "st \<noteq> Permission_satisfied"
  show "snd q \<noteq> 0" "if st = Being_evaluated then n < rank q else \<not> holds C q"
  proof (atomize (full), cases "q = p")
    case True
    with q assms(4-6) show "snd q \<noteq> 0 \<and> (if st = Being_evaluated then n < rank q else \<not> holds C q)"
      by (cases st) (auto simp: fm.lookup_update)
  next
    case False
    with q have "map_of c q = Some st" by (simp add: fm.lookup_update)
    moreover from this ex q(2) have "snd q \<noteq> 0 \<and> (if st = Being_evaluated then k < rank q else \<not> holds C q)"
      unfolding cache_exact_def by blast
    ultimately show "snd q \<noteq> 0 \<and> (if st = Being_evaluated then n < rank q else \<not> holds C q)"
      using others False by (auto split: if_splits)
  qed
next
  fix q
  assume "q \<in> set (provided_permissions C)"
  with ex assms(3) show "map_of (fm_set p v c) q = Some Permission_satisfied"
    by (auto simp: cache_exact_def fm.lookup_update)
qed (rule assms(2))

definition in_reach :: "(permission_level \<Rightarrow> nat) \<Rightarrow> nat \<Rightarrow> meta_permission \<Rightarrow> bool" where
  "in_reach rank n m \<longleftrightarrow> (\<forall>p. m = Permission p \<longrightarrow> named_level (plw_permission p) \<and> rank (plw_permission p) \<le> n)"

definition evaluating :: "checker_state \<Rightarrow> permission_level set" where
  "evaluating s = {q. map_of (cached_permissions s) q = Some Being_evaluated}"

text \<open>What a call leaves behind: an exact cache in which nothing more is being evaluated.\<close>

definition checker_step :: "authority_checker \<Rightarrow> (permission_level \<Rightarrow> nat) \<Rightarrow> nat \<Rightarrow> checker_state \<Rightarrow> checker_state \<Rightarrow> bool" where
  "checker_step C rank n s s' \<longleftrightarrow> cache_exact C rank n (cached_permissions s') \<and> evaluating s' \<subseteq> evaluating s"

lemma not_holds_missing:
  "permission_to_authority C p = Inl e \<Longrightarrow> \<not> provided C p \<Longrightarrow> \<not> holds C p"
  using holds_iff [of C p] by simp

lemma holds_authority:
  "permission_to_authority C p = Inr auth \<Longrightarrow> \<not> provided C p \<Longrightarrow>
     holds C p \<longleftrightarrow> threshold auth \<le> held_weight C (holds C) auth"
  using holds_iff [of C p] by simp

lemma authority_named:
  assumes "names_required C" and "permission_to_authority C p = Inr auth"
  shows "snd p \<noteq> 0"
  using assms by (cases p) (auto simp: names_required_def)

lemma set_meta_permissions:
  "set (meta_permissions a) = Wait ` set (waits a) \<union> Key ` set (keys a) \<union> Permission ` set (accounts a)"
proof -
  have "set_mset (mset (meta_permissions a)) =
      Wait ` set (waits a) \<union> Key ` set (keys a) \<union> Permission ` set (accounts a)"
    unfolding meta_permissions_def by auto
  then show ?thesis by simp
qed

lemma sum_meta_weight: "(\<Sum>m\<leftarrow>meta_permissions a. meta_weight m) = authority_weight a"
proof -
  have "(\<Sum>m\<leftarrow>meta_permissions a. meta_weight m) = sum_mset (image_mset meta_weight (mset (meta_permissions a)))"
    by (simp flip: sum_mset_sum_list mset_map)
  also have "\<dots> = authority_weight a"
    by (simp add: meta_permissions_def authority_weight_def comp_def flip: sum_mset_sum_list mset_map)
  finally show ?thesis .
qed

text \<open>One permission factor, given what evaluating its authority does.\<close>

lemma visit_permission_exact:
  assumes ok: "graph_ok C rank" "names_required C" and ex: "cache_exact C rank n (cached_permissions s)"
    and reach: "rank (plw_permission p) \<le> n" and level: "named_level (plw_permission p)" and depth: "n \<le> recursion_depth_limit C - depth"
    and fits: "t + plw_weight p < 2 ^ 32"
    and u: "u = s\<lparr>cached_permissions := fm_emplace (plw_permission p) Being_evaluated (cached_permissions s)\<rparr>"
    and sub: "\<And>auth. permission_status_in_cache (cached_permissions s) (plw_permission p) = None \<Longrightarrow>
      depth < recursion_depth_limit C \<Longrightarrow> permission_to_authority C (plw_permission p) = Inr auth \<Longrightarrow>
      cache_exact C rank (rank (plw_permission p) - 1) (cached_permissions u) \<Longrightarrow>
      \<exists>r s'. satisfied_authority C (depth + 1) auth u = Inr (r, s') \<and>
        checker_step C rank (rank (plw_permission p) - 1) u s' \<and>
        (r \<longleftrightarrow> threshold auth \<le> held_weight C (holds C) auth)"
  shows "\<exists>t' s'. visit C depth (Permission p) t s = Inr (t', s') \<and> checker_step C rank n s s' \<and>
    t' = t + factor_weight C (holds C) (Permission p)"
proof (cases "permission_status_in_cache (cached_permissions s) (plw_permission p)")
  case (Some st)
  with cache_exact_status(1) [OF ex reach Some] ex fits show ?thesis
    by (simp add: factor_weight_def checker_step_def wrap32_id)
next
  case None
  let ?p = "plw_permission p"
  have np: "\<not> provided C ?p" by (rule cache_exact_status(2) [OF ex reach None])
  have pos: "0 < rank ?p" using ok(1) unfolding graph_ok_def by blast
  with reach depth have lim: "depth < recursion_depth_limit C" by simp
  show ?thesis
  proof (cases "permission_to_authority C ?p")
    case (Inl e)
    with ok(1) level have "e = Permission_query_exception" unfolding graph_ok_def by blast
    with Inl None lim not_holds_missing [OF Inl np] ex show ?thesis
      by (simp add: factor_weight_def checker_step_def)
  next
    case (Inr auth)
    have named: "snd ?p \<noteq> 0" by (rule authority_named [OF ok(2) Inr])
    have "cache_exact C rank (rank ?p - 1) (cached_permissions u)"
      using cache_exact_emplace [OF ex None named reach, of "rank ?p - 1"] pos by (simp add: u)
    from sub [OF None lim Inr this] obtain r s1
      where r: "satisfied_authority C (depth + 1) auth u = Inr (r, s1)"
        and step: "checker_step C rank (rank ?p - 1) u s1"
        and iff: "r \<longleftrightarrow> threshold auth \<le> held_weight C (holds C) auth" by blast
    let ?v = "if r then Permission_satisfied else Permission_unsatisfied"
    let ?s' = "s1\<lparr>cached_permissions := fm_set ?p ?v (cached_permissions s1)\<rparr>"
    have hold: "holds C ?p \<longleftrightarrow> r" using holds_authority [OF Inr np] iff by simp
    have eval: "n < rank q \<and> map_of (cached_permissions s) q = Some Being_evaluated"
      if "map_of (cached_permissions s1) q = Some Being_evaluated" "q \<noteq> ?p" for q
    proof -
      from that step have "map_of (cached_permissions s) q = Some Being_evaluated"
        by (auto simp: u checker_step_def evaluating_def map_of_fm_emplace)
      moreover from this ex have "if Being_evaluated = Being_evaluated then n < rank q else \<not> holds C q"
        unfolding cache_exact_def by blast
      ultimately show ?thesis by simp
    qed
    have "cache_exact C rank n (fm_set ?p ?v (cached_permissions s1))"
    proof (rule cache_exact_result [where k = "rank ?p - 1"])
      show ex1: "cache_exact C rank (rank ?p - 1) (cached_permissions s1)"
        using step by (simp add: checker_step_def)
      then show "cache_sound C (fm_set ?p ?v (cached_permissions s1))"
        using cache_sound_set [of C "cached_permissions s1" ?v ?p] hold named
        by (auto simp: cache_exact_def split: if_splits)
      show "?p \<notin> set (provided_permissions C)" using np by (simp add: provided_def)
    qed (use named hold eval in auto)
    moreover have "evaluating ?s' \<subseteq> evaluating s"
      using eval by (auto simp: evaluating_def fm.lookup_update split: if_splits)
    ultimately show ?thesis
      using None lim Inr r hold fits
      by (cases r) (simp_all add: u factor_weight_def checker_step_def wrap32_id)
  qed
qed

lemma checker_exact:
  "graph_ok C rank \<Longrightarrow> names_required C \<Longrightarrow> cache_exact C rank n (cached_permissions s) \<Longrightarrow>
     in_reach rank n m \<Longrightarrow> n \<le> recursion_depth_limit C - d \<Longrightarrow> t + meta_weight m < 2 ^ 32 \<Longrightarrow>
     \<exists>t' s'. visit C d m t s = Inr (t', s') \<and> checker_step C rank n s s' \<and>
       t' = t + factor_weight C (holds C) m"
  "graph_ok C rank \<Longrightarrow> names_required C \<Longrightarrow> cache_exact C rank n (cached_permissions s) \<Longrightarrow>
     \<forall>m \<in> set ms. in_reach rank n m \<Longrightarrow> n \<le> recursion_depth_limit C - d \<Longrightarrow>
     t + (\<Sum>m\<leftarrow>ms. meta_weight m) < 2 ^ 32 \<Longrightarrow> t < needed \<Longrightarrow>
     \<exists>r s'. tally C d needed t ms s = Inr (r, s') \<and> checker_step C rank n s s' \<and>
       (r \<longleftrightarrow> needed \<le> t + (\<Sum>m\<leftarrow>ms. factor_weight C (holds C) m))"
  "graph_ok C rank \<Longrightarrow> names_required C \<Longrightarrow> cache_exact C rank n (cached_permissions s) \<Longrightarrow>
     \<forall>q \<in> set (accounts a). named_level (plw_permission q) \<and> rank (plw_permission q) \<le> n \<Longrightarrow> n \<le> recursion_depth_limit C - d \<Longrightarrow>
     authority_weight a < 2 ^ 32 \<Longrightarrow> 0 < threshold a \<Longrightarrow>
     \<exists>r s'. satisfied_authority C d a s = Inr (r, s') \<and> checker_step C rank n s s' \<and>
       (r \<longleftrightarrow> threshold a \<le> held_weight C (holds C) a)"
proof (induction C d m t s and C d needed t ms s and C d a s arbitrary: n and n and n
    rule: visit_tally_satisfied_authority.induct)
  case (1 C depth w t s)
  then show ?case by (simp add: factor_weight_def checker_step_def wrap32_id)
next
  case (2 C depth k t s)
  then show ?case by (simp add: factor_weight_def checker_step_def evaluating_def wrap32_id)
next
  case (3 C depth p t s)
  show ?case
  proof (rule visit_permission_exact [OF "3.prems"(1,2,3) _ _ "3.prems"(5) _ refl])
    fix auth
    let ?u = "s\<lparr>cached_permissions := fm_emplace (plw_permission p) Being_evaluated (cached_permissions s)\<rparr>"
    assume auth: "permission_status_in_cache (cached_permissions s) (plw_permission p) = None"
      "depth < recursion_depth_limit C" "permission_to_authority C (plw_permission p) = Inr auth"
      and ex: "cache_exact C rank (rank (plw_permission p) - 1) (cached_permissions ?u)"
    from "3.prems"(1) auth(3) have g: "0 < threshold auth" "authority_weight auth < 2 ^ 32"
      "\<forall>q \<in> set (accounts auth). named_level (plw_permission q) \<and> rank (plw_permission q) < rank (plw_permission p)"
      unfolding graph_ok_def by blast+
    from g(3) have "\<forall>q \<in> set (accounts auth).
        named_level (plw_permission q) \<and> rank (plw_permission q) \<le> rank (plw_permission p) - 1" by auto
    moreover have "rank (plw_permission p) - 1 \<le> recursion_depth_limit C - (depth + 1)"
      using "3.prems"(4,5) by (auto simp: in_reach_def)
    ultimately show "\<exists>r s'. satisfied_authority C (depth + 1) auth ?u = Inr (r, s') \<and>
        checker_step C rank (rank (plw_permission p) - 1) ?u s' \<and>
        (r \<longleftrightarrow> threshold auth \<le> held_weight C (holds C) auth)"
      using "3.IH" [OF auth "3.prems"(1,2) ex] g by blast
  qed (use "3.prems"(4,6) in \<open>simp_all add: in_reach_def\<close>)
next
  case 4
  then show ?case by (auto simp: checker_step_def)
next
  case (5 C depth needed t m ms s)
  have fw: "factor_weight C (holds C) m \<le> meta_weight m" by (simp add: factor_weight_def)
  obtain t1 s1 where v: "visit C depth m t s = Inr (t1, s1)" and step: "checker_step C rank n s s1"
    and t1: "t1 = t + factor_weight C (holds C) m"
    using "5.IH"(1) [OF "5.prems"(1,2,3) _ "5.prems"(5)] "5.prems" by auto
  show ?case
  proof (cases "t1 \<ge> needed")
    case True
    then show ?thesis using v step t1 by auto
  next
    case False
    have "cache_exact C rank n (cached_permissions s1)" using step by (simp add: checker_step_def)
    from "5.IH"(2) [OF v refl False "5.prems"(1,2) this _ "5.prems"(5)] "5.prems"(4,6) fw False t1
    obtain r s2 where "tally C depth needed t1 ms s1 = Inr (r, s2)" "checker_step C rank n s1 s2"
      "r \<longleftrightarrow> needed \<le> t1 + (\<Sum>m\<leftarrow>ms. factor_weight C (holds C) m)"
      by auto
    with v False t1 step show ?thesis by (auto simp: checker_step_def)
  qed
next
  case (6 C depth auth s)
  have "\<forall>m \<in> set (meta_permissions auth). in_reach rank n m"
    using "6.prems"(4) by (auto simp: set_meta_permissions in_reach_def)
  from "6.IH" [OF "6.prems"(1-3) this "6.prems"(5)] "6.prems"(6,7)
  obtain r s1 where "tally C depth (threshold auth) 0 (meta_permissions auth) s = Inr (r, s1)"
    "checker_step C rank n s s1" "r \<longleftrightarrow> threshold auth \<le> held_weight C (holds C) auth"
    by (auto simp: sum_meta_weight sum_meta_permissions)
  then show ?case by (auto simp: checker_step_def evaluating_def)
qed

lemma initial_cache_exact: "cache_exact C rank n (initialize_permission_cache C)"
  using initial_cache_sound by (auto simp: cache_exact_def initial_cache split: if_splits)

text \<open>
  C5. Exactness of the authority checker: when authorities refer to named permissions of lower
  rank only, the rank of the permission is within the recursion limit, and the authorities are valid,
  the checker always returns an answer, and the answer is whether the permission is held.
\<close>

theorem satisfied_permission_exact:
  assumes "graph_ok C rank" and "names_required C" and "named_level p" and "rank p \<le> recursion_depth_limit C"
  shows "\<exists>s'. satisfied_permission C p s = Inr (holds C p, s')"
proof -
  let ?m = "Permission \<lparr>plw_permission = p, plw_weight = 1\<rparr>"
  let ?s = "s\<lparr>cached_permissions := initialize_permission_cache C\<rparr>"
  have "\<exists>t' s'. visit C 0 ?m 0 ?s = Inr (t', s') \<and> checker_step C rank (rank p) ?s s' \<and>
      t' = 0 + factor_weight C (holds C) ?m"
    using assms initial_cache_exact by (intro checker_exact(1)) (auto simp: in_reach_def)
  then show ?thesis
    by (auto simp: satisfied_permission_def factor_weight_def res_simps simp del: visit.simps)
qed

text \<open>The same for an authority given directly.\<close>

lemma satisfied_given_exact:
  assumes "graph_ok C rank" and "names_required C" and "authority_weight a < 2 ^ 32" and "0 < threshold a"
    and "\<And>q. q \<in> set (accounts a) \<Longrightarrow> named_level (plw_permission q) \<and> rank (plw_permission q) \<le> recursion_depth_limit C"
  shows "\<exists>s'. satisfied_given C a s = Inr (threshold a \<le> held_weight C (holds C) a, s')"
  using checker_exact(3) [OF assms(1,2), of "recursion_depth_limit C"
      "s\<lparr>cached_permissions := initialize_permission_cache C\<rparr>" a 0] initial_cache_exact assms(3-5)
  by (auto simp: satisfied_given_def simp del: satisfied_authority.simps)

section \<open>Witnesses\<close>

text \<open>Account 1 needs key 7 and account 2, whose authority is key 9; both keys are provided.\<close>

definition sample_authority :: "permission_level \<Rightarrow> authority res" where
  "sample_authority p =
     (if p = (1, 1) then Inr \<lparr>threshold = 2, keys = [\<lparr>kw_key = 7, kw_weight = 1\<rparr>],
        accounts = [\<lparr>plw_permission = (2, 1), plw_weight = 1\<rparr>], waits = []\<rparr>
      else if p = (2, 1) then Inr (authority_of_key 9 0)
      else Inl Permission_query_exception)"

definition sample_checker :: authority_checker where
  "sample_checker = \<lparr>permission_to_authority = sample_authority, provided_keys = [7, 9],
     provided_permissions = [], provided_delay = 0, recursion_depth_limit = 6\<rparr>"

lemma sample_names: "names_required sample_checker"
  by (simp add: names_required_def sample_checker_def sample_authority_def)

lemma sample_graph: "graph_ok sample_checker (\<lambda>p. if p = (1, 1) then 2 else 1)"
  by (auto simp: graph_ok_def sample_checker_def sample_authority_def authority_of_key_def
      named_level_def authority_weight_def Let_def split: if_splits)

lemmas checker_eval = satisfied_permission_def new_checker_state_def initialize_permission_cache_def
  permission_status_in_cache_def fm_emplace_def meta_permissions_def std_sort_def
  meta_permission_comparator_def authority_of_key_def res_simps

lemma sample_satisfied:
  "satisfied_permission sample_checker (1, 1) (new_checker_state sample_checker) =
     Inr (True, \<lparr>used_flags = [True, True],
       cached_permissions = [((1, 1), Permission_satisfied), ((2, 1), Permission_satisfied)]\<rparr>)"
  by (simp add: sample_checker_def sample_authority_def checker_eval)

theorem satisfied_permission_sound_witness:
  "names_required sample_checker \<and> holds sample_checker (1, 1)"
  using satisfied_permission_sound [OF sample_names sample_satisfied] sample_names by simp

theorem satisfied_permission_exact_witness:
  "graph_ok sample_checker (\<lambda>p. if p = (1, 1) then 2 else 1) \<and> names_required sample_checker \<and>
     (\<exists>s'. satisfied_permission sample_checker (1, 1) (new_checker_state sample_checker) =
        Inr (holds sample_checker (1, 1), s'))"
  using satisfied_permission_exact [OF sample_graph sample_names, of "(1, 1)" "new_checker_state sample_checker"]
    sample_graph sample_names
  by (simp add: sample_checker_def named_level_def del: visit.simps)

section \<open>Keys reported as used\<close>

text \<open>
  The top authority accepts account 2 with weight 2, or account 3 with weight 1. Account 2 needs
  account 3 and the missing account 4; account 3 is one key.
\<close>

definition reverted_authority :: "permission_level \<Rightarrow> authority res" where
  "reverted_authority p =
     (if p = (1, 1) then Inr \<lparr>threshold = 1, keys = [],
        accounts = [\<lparr>plw_permission = (2, 1), plw_weight = 2\<rparr>, \<lparr>plw_permission = (3, 1), plw_weight = 1\<rparr>], waits = []\<rparr>
      else if p = (2, 1) then Inr \<lparr>threshold = 2, keys = [],
        accounts = [\<lparr>plw_permission = (3, 1), plw_weight = 1\<rparr>, \<lparr>plw_permission = (4, 1), plw_weight = 1\<rparr>], waits = []\<rparr>
      else if p = (3, 1) then Inr (authority_of_key 5 0)
      else Inl Permission_query_exception)"

definition reverted_checker :: authority_checker where
  "reverted_checker = \<lparr>permission_to_authority = reverted_authority, provided_keys = [5],
     provided_permissions = [], provided_delay = 0, recursion_depth_limit = 6\<rparr>"

text \<open>
  The keys the checker reports as used can be too few: account 3 is first evaluated inside
  account 2, whose failure unmarks the key, and later its result is taken from the cache, which
  marks nothing. The permission is satisfied, no key is used, and with the used keys alone the
  permission is not satisfied.
\<close>

lemma used_keys_too_few:
  "\<exists>s'. satisfied_permission reverted_checker (1, 1) (new_checker_state reverted_checker) = Inr (True, s') \<and>
     used_keys reverted_checker s' = [] \<and> \<not> all_keys_used s' \<and>
     (\<exists>s''. satisfied_permission (reverted_checker\<lparr>provided_keys := used_keys reverted_checker s'\<rparr>) (1, 1)
        \<lparr>used_flags = [], cached_permissions = []\<rparr> = Inr (False, s''))"
proof -
  have "satisfied_permission reverted_checker (1, 1) (new_checker_state reverted_checker) =
      Inr (True, \<lparr>used_flags = [False], cached_permissions = [((1, 1), Permission_satisfied),
        ((2, 1), Permission_unsatisfied), ((3, 1), Permission_satisfied)]\<rparr>)"
    by (simp add: reverted_checker_def reverted_authority_def checker_eval)
  moreover have "satisfied_permission (reverted_checker\<lparr>provided_keys := []\<rparr>) (1, 1)
      \<lparr>used_flags = [], cached_permissions = []\<rparr> = Inr (False, \<lparr>used_flags = [],
        cached_permissions = [((1, 1), Permission_unsatisfied),
          ((2, 1), Permission_unsatisfied), ((3, 1), Permission_unsatisfied)]\<rparr>)"
    by (simp add: reverted_checker_def reverted_authority_def checker_eval)
  moreover have "used_keys reverted_checker \<lparr>used_flags = [False], cached_permissions = c\<rparr> = []" for c
    by (simp add: used_keys_def filter_data_by_marker_def reverted_checker_def)
  moreover have "\<not> all_keys_used \<lparr>used_flags = [False], cached_permissions = c\<rparr>" for c
    by (auto simp: all_keys_used_def)
  ultimately show ?thesis by simp
qed

end
