(* ===== verification/Authorization.thy ===== *)
theory Authorization
  imports Permissions Authority_Semantics
begin

text \<open>
  The checks of the authorization manager (\<open>authorization_manager.cpp\<close>): which declared
  authorizations are relevant for an action, with the special rules for the native actions on
  permissions, and whether the provided keys, permissions and delay satisfy them. The action
  data is decoded by the serialisation library, whose functions are parameters.
\<close>

section \<open>Actions\<close>

record action =
  act_account :: account_name
  act_name :: action_name
  authorization :: "permission_level list"
  act_data :: bytes

record updateauth =
  ua_account :: account_name
  ua_permission :: permission_name
  ua_parent :: permission_name
  ua_auth :: authority

record deleteauth =
  da_account :: account_name
  da_permission :: permission_name

record linkauth =
  la_account :: account_name
  la_code :: account_name
  la_type :: action_name
  la_requirement :: permission_name

record unlinkauth =
  ul_account :: account_name
  ul_code :: account_name
  ul_type :: action_name

record canceldelay =
  canceling_auth :: permission_level
  cancel_trx_id :: sha256

record generated_transaction_object =
  gto_trx_id :: sha256
  gto_sender :: account_name
  gto_sender_id :: u128
  gto_payer :: account_name
  delay_until :: time_point
  gto_expiration :: time_point
  published :: time_point
  packed_trx :: bytes

text \<open>The decoding functions; of a transaction only the actions are read here.\<close>

record codec =
  unpack_updateauth :: "bytes \<Rightarrow> updateauth res"
  unpack_deleteauth :: "bytes \<Rightarrow> deleteauth res"
  unpack_linkauth :: "bytes \<Rightarrow> linkauth res"
  unpack_unlinkauth :: "bytes \<Rightarrow> unlinkauth res"
  unpack_canceldelay :: "bytes \<Rightarrow> canceldelay res"
  unpack_transaction :: "bytes \<Rightarrow> action list res"

definition data_as :: "account_name \<Rightarrow> action_name \<Rightarrow> (bytes \<Rightarrow> 'a res) \<Rightarrow> action \<Rightarrow> 'a res" where
  "data_as a n unpack act =
     eos_assert (act_account act = a) Action_type_exception
       (eos_assert (act_name act = n) Action_type_exception (unpack (act_data act)))"

text \<open>What the manager asks of the controller.\<close>

record auth_control =
  pending_block_time :: time_point
  max_transaction_delay :: u32
  max_authority_depth :: u16
  linkauth_restriction_fixed :: bool
  generated_transactions :: "generated_transaction_object list"

section \<open>Native actions on permissions\<close>

definition assert_satisfies :: "auth_db \<Rightarrow> nat \<times> permission_object \<Rightarrow> nat \<times> permission_object \<Rightarrow> unit res" where
  "assert_satisfies db this other =
     ebind (from_some Undefined_behaviour (satisfies db this other))
       (\<lambda>b. eos_assert b Irrelevant_auth_exception (Inr ()))"

definition check_updateauth_authorization :: "auth_db \<Rightarrow> updateauth \<Rightarrow> permission_level list \<Rightarrow> unit res" where
  "check_updateauth_authorization db update auths =
     eos_assert (length auths = 1) Irrelevant_auth_exception
       (let a = auths ! 0 in
        eos_assert (fst a = ua_account update) Irrelevant_auth_exception
          (ebind (find_permission db (ua_account update, ua_permission update)) (\<lambda>found.
           ebind (case found of Some p \<Rightarrow> Inr p | None \<Rightarrow> get_permission db (ua_account update, ua_parent update))
             (\<lambda>min_permission.
           ebind (get_permission db a) (\<lambda>p. assert_satisfies db p min_permission)))))"

definition check_deleteauth_authorization :: "auth_db \<Rightarrow> deleteauth \<Rightarrow> permission_level list \<Rightarrow> unit res" where
  "check_deleteauth_authorization db del auths =
     eos_assert (length auths = 1) Irrelevant_auth_exception
       (let a = auths ! 0 in
        eos_assert (fst a = da_account del) Irrelevant_auth_exception
          (ebind (get_permission db (da_account del, da_permission del)) (\<lambda>min_permission.
           ebind (get_permission db a) (\<lambda>p. assert_satisfies db p min_permission))))"

definition check_linkauth_authorization ::
  "auth_control \<Rightarrow> auth_db \<Rightarrow> linkauth \<Rightarrow> permission_level list \<Rightarrow> unit res" where
  "check_linkauth_authorization ctl db link auths =
     eos_assert (length auths = 1) Irrelevant_auth_exception
       (let a = auths ! 0 in
        eos_assert (fst a = la_account link) Irrelevant_auth_exception
          (eos_assert ((la_code link = system_account_name \<or> \<not> linkauth_restriction_fixed ctl) \<longrightarrow>
               la_type link \<noteq> updateauth_name \<and> la_type link \<noteq> deleteauth_name \<and> la_type link \<noteq> linkauth_name \<and>
               la_type link \<noteq> unlinkauth_name \<and> la_type link \<noteq> canceldelay_name) Action_validate_exception
             (ebind (lookup_minimum_permission db (la_account link) (la_code link) (la_type link)) (\<lambda>linked.
              case linked of
                None \<Rightarrow> Inr ()
              | Some n \<Rightarrow>
                  ebind (get_permission db a) (\<lambda>p.
                  ebind (get_permission db (la_account link, n)) (\<lambda>q. assert_satisfies db p q))))))"

definition check_unlinkauth_authorization :: "auth_db \<Rightarrow> unlinkauth \<Rightarrow> permission_level list \<Rightarrow> unit res" where
  "check_unlinkauth_authorization db unlink auths =
     eos_assert (length auths = 1) Irrelevant_auth_exception
       (let a = auths ! 0 in
        eos_assert (fst a = ul_account unlink) Irrelevant_auth_exception
          (case lookup_linked_permission db (ul_account unlink) (ul_code unlink) (ul_type unlink) of
             None \<Rightarrow> Inl Transaction_exception
           | Some n \<Rightarrow>
               if n = eosio_any_name then Inr ()
               else ebind (get_permission db a) (\<lambda>p.
                    ebind (get_permission db (ul_account unlink, n)) (\<lambda>q. assert_satisfies db p q))))"

text \<open>The index \<open>by_trx_id\<close> is unique, so its lower bound with an equal id is the one transaction.\<close>

definition check_canceldelay_authorization ::
  "auth_control \<Rightarrow> codec \<Rightarrow> auth_db \<Rightarrow> canceldelay \<Rightarrow> permission_level list \<Rightarrow> i64 res" where
  "check_canceldelay_authorization ctl cd db cancel auths =
     eos_assert (length auths = 1) Irrelevant_auth_exception
       (let a = auths ! 0 in
        ebind (get_permission db a) (\<lambda>p.
        ebind (get_permission db (canceling_auth cancel)) (\<lambda>q.
        ebind (assert_satisfies db p q) (\<lambda>_.
        case find (\<lambda>g. gto_trx_id g = cancel_trx_id cancel) (generated_transactions ctl) of
          None \<Rightarrow> Inl Tx_not_found
        | Some g \<Rightarrow>
            eos_assert (gto_sender g = 0) Tx_not_found
              (ebind (unpack_transaction cd (packed_trx g)) (\<lambda>actions.
               eos_assert (\<exists>act \<in> set actions. canceling_auth cancel \<in> set (authorization act)) Action_validate_exception
                 (Inr (delay_until g - published g))))))))"

section \<open>Checking the authorizations of actions\<close>

definition microseconds_maximum :: i64 where
  "microseconds_maximum = 0x7fffffffffffffff"

definition effective_delay :: "auth_control \<Rightarrow> i64 \<Rightarrow> i64" where
  "effective_delay ctl given_delay =
     (if given_delay \<ge> int (max_transaction_delay ctl) * 1000000 then microseconds_maximum else given_delay)"

definition make_checker ::
  "auth_control \<Rightarrow> auth_db \<Rightarrow> public_key list \<Rightarrow> permission_level list \<Rightarrow> i64 \<Rightarrow> authority_checker" where
  "make_checker ctl db pkeys perms delay =
     \<lparr>permission_to_authority = (\<lambda>p. ebind (get_permission db p) (\<lambda>(i, q). Inr (auth q))),
      provided_keys = pkeys, provided_permissions = perms, provided_delay = delay,
      recursion_depth_limit = max_authority_depth ctl\<rparr>"

text \<open>The native actions on permissions: whether the action is one, and the delay it asks for.\<close>

definition check_special_case :: "auth_control \<Rightarrow> codec \<Rightarrow> auth_db \<Rightarrow> i64 \<Rightarrow> action \<Rightarrow> (bool \<times> i64) res" where
  "check_special_case ctl cd db delay act =
     (if act_account act = system_account_name then
        if act_name act = updateauth_name then
          ebind (data_as system_account_name updateauth_name (unpack_updateauth cd) act) (\<lambda>u.
          ebind (check_updateauth_authorization db u (authorization act)) (\<lambda>_. Inr (True, delay)))
        else if act_name act = deleteauth_name then
          ebind (data_as system_account_name deleteauth_name (unpack_deleteauth cd) act) (\<lambda>u.
          ebind (check_deleteauth_authorization db u (authorization act)) (\<lambda>_. Inr (True, delay)))
        else if act_name act = linkauth_name then
          ebind (data_as system_account_name linkauth_name (unpack_linkauth cd) act) (\<lambda>u.
          ebind (check_linkauth_authorization ctl db u (authorization act)) (\<lambda>_. Inr (True, delay)))
        else if act_name act = unlinkauth_name then
          ebind (data_as system_account_name unlinkauth_name (unpack_unlinkauth cd) act) (\<lambda>u.
          ebind (check_unlinkauth_authorization db u (authorization act)) (\<lambda>_. Inr (True, delay)))
        else if act_name act = canceldelay_name then
          ebind (data_as system_account_name canceldelay_name (unpack_canceldelay cd) act) (\<lambda>u.
          ebind (check_canceldelay_authorization ctl cd db u (authorization act)) (\<lambda>d. Inr (True, max delay d)))
        else Inr (False, delay)
      else Inr (False, delay))"

definition check_minimum_permission :: "auth_db \<Rightarrow> action \<Rightarrow> permission_level \<Rightarrow> unit res" where
  "check_minimum_permission db act declared =
     ebind (lookup_minimum_permission db (fst declared) (act_account act) (act_name act)) (\<lambda>m.
     case m of
       None \<Rightarrow> Inr ()
     | Some n \<Rightarrow>
         ebind (get_permission db (fst declared, n)) (\<lambda>min_permission.
         ebind (get_permission db declared) (\<lambda>p. assert_satisfies db p min_permission)))"

text \<open>
  One declared authorization. \<open>checktime\<close> is called before it and may throw; the argument is the
  number of the call.
\<close>

type_synonym permissions_to_satisfy = "(permission_level \<times> i64) list"

definition emplace_delay :: "permission_level \<Rightarrow> i64 \<Rightarrow> permissions_to_satisfy \<Rightarrow> permissions_to_satisfy" where
  "emplace_delay p delay m =
     (case map_of m p of
        None \<Rightarrow> fm_set p delay m
      | Some d \<Rightarrow> if d > delay then fm_set p delay m else m)"

definition check_declared ::
  "(nat \<Rightarrow> unit res) \<Rightarrow> auth_db \<Rightarrow> permission_level list \<Rightarrow> action \<Rightarrow> bool \<Rightarrow> i64 \<Rightarrow> permission_level \<Rightarrow>
     nat \<times> permissions_to_satisfy \<Rightarrow> (nat \<times> permissions_to_satisfy) res" where
  "check_declared checktime db satisfied act special delay declared = (\<lambda>(k, m).
     ebind (checktime k) (\<lambda>_.
     ebind (if special then Inr () else check_minimum_permission db act declared) (\<lambda>_.
     Inr (k + 1, if declared \<in> set satisfied then m else emplace_delay declared delay m))))"

definition check_declared_action ::
  "(nat \<Rightarrow> unit res) \<Rightarrow> auth_control \<Rightarrow> codec \<Rightarrow> auth_db \<Rightarrow> permission_level list \<Rightarrow> i64 \<Rightarrow> action \<Rightarrow>
     nat \<times> permissions_to_satisfy \<Rightarrow> (nat \<times> permissions_to_satisfy) res" where
  "check_declared_action checktime ctl cd db satisfied effective act s =
     ebind (check_special_case ctl cd db effective act) (\<lambda>(special, delay).
     efold (check_declared checktime db satisfied act special delay) (authorization act) s)"

definition check_satisfied ::
  "(nat \<Rightarrow> unit res) \<Rightarrow> authority_checker \<Rightarrow> permission_level \<times> i64 \<Rightarrow> nat \<times> checker_state \<Rightarrow>
     (nat \<times> checker_state) res" where
  "check_satisfied checktime C = (\<lambda>(p, delay) (k, s).
     ebind (checktime k) (\<lambda>_.
     ebind (satisfied_permission_delay C p delay s) (\<lambda>(r, s').
     eos_assert r Unsatisfied_authorization (Inr (k + 1, s')))))"

definition check_authorization ::
  "(nat \<Rightarrow> unit res) \<Rightarrow> auth_control \<Rightarrow> codec \<Rightarrow> auth_db \<Rightarrow> action list \<Rightarrow> public_key list \<Rightarrow>
     permission_level list \<Rightarrow> i64 \<Rightarrow> bool \<Rightarrow> permission_level list \<Rightarrow> unit res" where
  "check_authorization checktime ctl cd db actions pkeys perms given_delay allow_unused_keys satisfied =
     (let effective = effective_delay ctl given_delay;
          C = make_checker ctl db pkeys perms effective in
      ebind (efold (check_declared_action checktime ctl cd db satisfied effective) actions (0, [])) (\<lambda>(k, m).
      ebind (efold (check_satisfied checktime C) m (k, new_checker_state C)) (\<lambda>(k', s).
      if allow_unused_keys then Inr () else eos_assert (all_keys_used s) Tx_irrelevant_sig (Inr ()))))"

definition check_authorization_permission ::
  "auth_control \<Rightarrow> auth_db \<Rightarrow> account_name \<Rightarrow> permission_name \<Rightarrow> public_key list \<Rightarrow>
     permission_level list \<Rightarrow> i64 \<Rightarrow> bool \<Rightarrow> unit res" where
  "check_authorization_permission ctl db account permission pkeys perms given_delay allow_unused_keys =
     (let C = make_checker ctl db pkeys perms (effective_delay ctl given_delay) in
      ebind (satisfied_permission C (account, permission) (new_checker_state C)) (\<lambda>(r, s).
      eos_assert r Unsatisfied_authorization
        (if allow_unused_keys then Inr () else eos_assert (all_keys_used s) Tx_irrelevant_sig (Inr ()))))"

definition get_required_keys ::
  "auth_control \<Rightarrow> auth_db \<Rightarrow> action list \<Rightarrow> public_key list \<Rightarrow> i64 \<Rightarrow> public_key list res" where
  "get_required_keys ctl db actions candidate_keys given_delay =
     (let C = make_checker ctl db candidate_keys [] given_delay in
      ebind (efold (\<lambda>act. efold (\<lambda>declared s.
          ebind (satisfied_permission C declared s) (\<lambda>(r, s').
          eos_assert r Unsatisfied_authorization (Inr s'))) (authorization act)) actions (new_checker_state C)) (\<lambda>s.
      Inr (used_keys C s)))"

section \<open>What the checks establish\<close>

text \<open>Both permissions exist, and the first is the second or above it in the tree.\<close>

definition covers :: "auth_db \<Rightarrow> permission_level \<Rightarrow> permission_level \<Rightarrow> bool" where
  "covers db d m \<longleftrightarrow> (\<exists>i p j q. get_permission db d = Inr (i, p) \<and> get_permission db m = Inr (j, q) \<and>
     (i, j) \<in> (parent_of db)\<^sup>*)"

lemma assert_satisfies_iff:
  assumes "perm_tree_ok db" and "get_permission db d = Inr (i, p)" and "get_permission db m = Inr (j, q)"
  shows "assert_satisfies db (i, p) (j, q) = Inr () \<longleftrightarrow> (i, j) \<in> (parent_of db)\<^sup>*"
proof -
  have "satisfies db (i, p) (j, q) = Some ((i, j) \<in> (parent_of db)\<^sup>*)"
    using assms satisfies_iff_ancestor [of db i p j q] by (simp add: get_permission_Inr)
  then show ?thesis by (simp add: assert_satisfies_def res_simps)
qed

lemma covers_assert:
  assumes "perm_tree_ok db" and "get_permission db d = Inr x" and "get_permission db m = Inr y"
  shows "assert_satisfies db x y = Inr () \<longleftrightarrow> covers db d m"
  using assert_satisfies_iff [OF assms(1), of d "fst x" "snd x" m "fst y" "snd y"] assms(2,3)
  by (cases x; cases y) (simp add: covers_def)

lemma covers_iff:
  assumes "perm_tree_ok db"
  shows "ebind (get_permission db d) (\<lambda>p. ebind (get_permission db m) (\<lambda>q. assert_satisfies db p q)) = Inr () \<longleftrightarrow> covers db d m"
    and "ebind (get_permission db m) (\<lambda>q. ebind (get_permission db d) (\<lambda>p. assert_satisfies db p q)) = Inr () \<longleftrightarrow> covers db d m"
  by (cases "get_permission db d"; cases "get_permission db m";
      simp add: covers_assert [OF assms] covers_def [of db d m])+

lemma covers_same_actor:
  assumes "perm_tree_ok db" and "covers db d m"
  shows "fst d = fst m"
proof -
  from assms(2) obtain i p j q where g: "get_permission db d = Inr (i, p)" "get_permission db m = Inr (j, q)"
    and anc: "(i, j) \<in> (parent_of db)\<^sup>*" by (auto simp: covers_def)
  then have "map_of (permissions db) i = Some p" "map_of (permissions db) j = Some q" "i \<noteq> 0"
    "owner p = fst d" "owner q = fst m" using get_permission_Inr [OF assms(1)] by auto
  with ancestors_share_owner [OF assms(1) anc] show ?thesis by auto
qed

lemma single_auth: "length auths = 1 \<and> P (auths ! 0) \<longleftrightarrow> (\<exists>a. auths = [a] \<and> P a)"
  by (cases auths) auto

lemma check_updateauth_iff:
  assumes "perms_ok db" and "named_level (ua_account u, ua_permission u)"
  shows "check_updateauth_authorization db u auths = Inr () \<longleftrightarrow>
    (\<exists>n. auths = [(ua_account u, n)] \<and> covers db (ua_account u, n)
      (ua_account u, if find_by_owner db (ua_account u) (ua_permission u) = None then ua_parent u else ua_permission u))"
proof -
  have tree: "perm_tree_ok db" using assms(1) by (simp add: perms_ok_def)
  let ?f = "find_by_owner db (ua_account u) (ua_permission u)"
  have find: "find_permission db (ua_account u, ua_permission u) = Inr ?f"
    using assms(2) by (simp add: find_permission_def named_level_def res_simps)
  have "(case ?f of Some p \<Rightarrow> Inr p | None \<Rightarrow> get_permission db (ua_account u, ua_parent u)) =
      get_permission db (ua_account u, if ?f = None then ua_parent u else ua_permission u)"
    using assms(2) by (auto simp: get_permission_def named_level_def rethrow_as_def split: option.splits)
  then show ?thesis
    by (cases auths) (auto simp: check_updateauth_authorization_def find eos_assert_Inr covers_iff(2) [OF tree] Let_def prod_eq_iff)
qed

lemma check_deleteauth_iff:
  assumes "perms_ok db"
  shows "check_deleteauth_authorization db u auths = Inr () \<longleftrightarrow>
    (\<exists>n. auths = [(da_account u, n)] \<and> covers db (da_account u, n) (da_account u, da_permission u))"
proof -
  have tree: "perm_tree_ok db" using assms(1) by (simp add: perms_ok_def)
  show ?thesis
    by (cases auths) (auto simp: check_deleteauth_authorization_def eos_assert_Inr covers_iff(2) [OF tree] Let_def prod_eq_iff)
qed

lemma check_minimum_iff:
  assumes "perms_ok db"
  shows "check_minimum_permission db act d = Inr () \<longleftrightarrow>
    (\<exists>m. lookup_minimum_permission db (fst d) (act_account act) (act_name act) = Inr m \<and>
      (\<forall>n. m = Some n \<longrightarrow> covers db d (fst d, n)))"
proof -
  have tree: "perm_tree_ok db" using assms(1) by (simp add: perms_ok_def)
  show ?thesis
    by (auto simp: check_minimum_permission_def ebind_Inr [of "lookup_minimum_permission db _ _ _"]
        covers_iff(2) [OF tree] split: option.splits)
qed

text \<open>A longer delay holds no less.\<close>

lemma factor_weight_delay:
  assumes "d \<le> d'" and "\<And>q. H q \<Longrightarrow> H' q"
  shows "factor_weight (C\<lparr>provided_delay := d\<rparr>) H m \<le> factor_weight (C\<lparr>provided_delay := d'\<rparr>) H' m"
  using assms by (cases m) (auto simp: factor_weight_def)

lemma holds_delay_mono:
  assumes "holds (C\<lparr>provided_delay := d\<rparr>) p" and "d \<le> d'"
  shows "holds (C\<lparr>provided_delay := d'\<rparr>) p"
  using assms(1)
proof (induction rule: holds.induct)
  case (given p)
  then show ?case by (intro holds.given) (simp add: provided_def)
next
  case (derived p a H)
  have "held_weight (C\<lparr>provided_delay := d\<rparr>) H a \<le> held_weight (C\<lparr>provided_delay := d'\<rparr>) H a"
    unfolding held_weight_def
    by (intro add_mono sum_list_mono factor_weight_delay [OF assms(2)]) simp_all
  with derived.hyps(3) have "threshold a \<le> held_weight (C\<lparr>provided_delay := d'\<rparr>) H a" by simp
  with derived.hyps(1) derived.IH show ?case by (intro holds.derived [of _ p a H]) auto
qed

lemma checker_names: "names_required (make_checker ctl db ks ps d)"
  by (auto simp: names_required_def make_checker_def get_permission_def res_simps)

section \<open>Soundness of the check\<close>

definition recorded :: "permission_level list \<Rightarrow> permissions_to_satisfy \<Rightarrow> permission_level \<Rightarrow> i64 \<Rightarrow> bool" where
  "recorded satisfied m p delay \<longleftrightarrow> p \<in> set satisfied \<or> (\<exists>d. map_of m p = Some d \<and> d \<le> delay)"

definition action_checked ::
  "auth_control \<Rightarrow> codec \<Rightarrow> auth_db \<Rightarrow> i64 \<Rightarrow> (permission_level \<Rightarrow> i64 \<Rightarrow> bool) \<Rightarrow> action \<Rightarrow> bool" where
  "action_checked ctl cd db effective R act \<longleftrightarrow>
     (\<exists>special delay. check_special_case ctl cd db effective act = Inr (special, delay) \<and>
       (\<forall>d \<in> set (authorization act). R d delay \<and> (special \<or> check_minimum_permission db act d = Inr ())))"

lemma emplace_delay_find:
  "map_of (emplace_delay p delay m) q =
     (if q = p then Some (case map_of m p of None \<Rightarrow> delay | Some d \<Rightarrow> min d delay) else map_of m q)"
  by (auto simp: emplace_delay_def fm.lookup_update split: option.splits)

lemma recorded_mono:
  assumes "recorded satisfied m p d"
  shows "recorded satisfied (if q \<in> set satisfied then m else emplace_delay q e m) p d"
  using assms by (auto simp: recorded_def emplace_delay_find split: option.splits)

lemma recorded_new: "recorded satisfied (if q \<in> set satisfied then m else emplace_delay q e m) q e"
  by (auto simp: recorded_def emplace_delay_find split: option.splits)

lemma check_declared_loop:
  assumes "efold (check_declared ct db satisfied act special delay) ds (k, m) = Inr (k', m')"
  shows "(\<forall>p d. recorded satisfied m p d \<longrightarrow> recorded satisfied m' p d) \<and>
    (\<forall>d \<in> set ds. recorded satisfied m' d delay \<and> (special \<or> check_minimum_permission db act d = Inr ()))"
  using assms
proof (induction ds arbitrary: k m)
  case (Cons d ds)
  let ?m = "if d \<in> set satisfied then m else emplace_delay d delay m"
  from Cons.prems obtain st where st: "check_declared ct db satisfied act special delay d (k, m) = Inr st"
    and rest: "efold (check_declared ct db satisfied act special delay) ds st = Inr (k', m')"
    unfolding efold_Cons_Inr by blast
  from st have min: "special \<or> check_minimum_permission db act d = Inr ()" and st': "st = (k + 1, ?m)"
    by (auto simp: check_declared_def ebind_Inr split: if_split_asm)
  note IH = Cons.IH [OF rest [unfolded st']]
  have keep: "recorded satisfied m' p e" if "recorded satisfied ?m p e" for p e using IH that by blast
  have "recorded satisfied m' d delay" by (rule keep [OF recorded_new])
  moreover have "\<forall>p e. recorded satisfied m p e \<longrightarrow> recorded satisfied m' p e" using keep [OF recorded_mono] by blast
  ultimately show ?case using IH min by simp
qed simp

lemma check_declared_action_loop:
  assumes "efold (check_declared_action ct ctl cd db satisfied effective) acts (k, m) = Inr (k', m')"
  shows "(\<forall>p d. recorded satisfied m p d \<longrightarrow> recorded satisfied m' p d) \<and>
    (\<forall>act \<in> set acts. action_checked ctl cd db effective (recorded satisfied m') act)"
  using assms
proof (induction acts arbitrary: k m)
  case (Cons act acts)
  from Cons.prems obtain special delay k1 m1 where sp: "check_special_case ctl cd db effective act = Inr (special, delay)"
    and ds: "efold (check_declared ct db satisfied act special delay) (authorization act) (k, m) = Inr (k1, m1)"
    and rest: "efold (check_declared_action ct ctl cd db satisfied effective) acts (k1, m1) = Inr (k', m')"
    unfolding efold_Cons_Inr check_declared_action_def ebind_Inr by auto
  from check_declared_loop [OF ds] Cons.IH [OF rest] sp show ?case
    by (auto simp: action_checked_def)
qed simp

lemma check_satisfied_loop:
  assumes "efold (check_satisfied ct C) m (k, s) = Inr (k', s')" and "names_required C"
  shows "\<forall>(p, d) \<in> set m. holds (C\<lparr>provided_delay := d\<rparr>) p"
  using assms(1)
proof (induction m arbitrary: k s)
  case (Cons x m)
  obtain p d where x: "x = (p, d)" by (cases x)
  from Cons.prems obtain s1 where sat: "satisfied_permission (C\<lparr>provided_delay := d\<rparr>) p s = Inr (True, s1)"
    and rest: "efold (check_satisfied ct C) m (k + 1, s1) = Inr (k', s')"
    unfolding efold_Cons_Inr by (auto simp: check_satisfied_def satisfied_permission_delay_def ebind_Inr eos_assert_Inr x)
  have "names_required (C\<lparr>provided_delay := d\<rparr>)" using assms(2) by (simp add: names_required_def)
  from satisfied_permission_holds [OF this sat] Cons.IH [OF rest] show ?case by (simp add: x)
qed simp

lemma recorded_holds:
  assumes "recorded satisfied m p delay" and "\<forall>(p, d) \<in> set m. holds (C\<lparr>provided_delay := d\<rparr>) p"
  shows "p \<in> set satisfied \<or> holds (C\<lparr>provided_delay := delay\<rparr>) p"
proof (cases "p \<in> set satisfied")
  case False
  with assms(1) obtain d where d: "map_of m p = Some d" "d \<le> delay" by (auto simp: recorded_def)
  from map_of_SomeD [OF d(1)] assms(2) have "holds (C\<lparr>provided_delay := d\<rparr>) p" by blast
  from holds_delay_mono [OF this d(2)] show ?thesis ..
qed simp

text \<open>
  C4. Soundness of the authorization check: when it accepts a list of actions, every
  authorization that an action declares is held under the provided keys and permissions with the
  delay of that action, unless the caller lists it as satisfied already. And for every action
  that is not a native action on permissions it is relevant: it equals the permission that the
  links of its actor require for the action, or stands above it in the actor's tree, unless the
  link requires none.
\<close>

theorem check_authorization_sound:
  assumes "perms_ok db"
    and "check_authorization ct ctl cd db actions ks ps given_delay allow_unused satisfied = Inr ()"
  shows "\<forall>act \<in> set actions. \<exists>special delay.
    check_special_case ctl cd db (effective_delay ctl given_delay) act = Inr (special, delay) \<and>
    (\<forall>d \<in> set (authorization act).
      (d \<in> set satisfied \<or> holds (make_checker ctl db ks ps delay) d) \<and>
      (special \<or> (\<exists>m. lookup_minimum_permission db (fst d) (act_account act) (act_name act) = Inr m \<and>
        (\<forall>n. m = Some n \<longrightarrow> covers db d (fst d, n)))))"
proof
  fix act
  assume act: "act \<in> set actions"
  let ?e = "effective_delay ctl given_delay"
  let ?C = "make_checker ctl db ks ps ?e"
  from assms(2) obtain k m k' s where
    acts: "efold (check_declared_action ct ctl cd db satisfied ?e) actions (0, []) = Inr (k, m)"
    and sat: "efold (check_satisfied ct ?C) m (k, new_checker_state ?C) = Inr (k', s)"
    by (auto simp: check_authorization_def Let_def ebind_Inr)
  from check_declared_action_loop [OF acts] act have "action_checked ctl cd db ?e (recorded satisfied m) act" by blast
  then obtain special delay where
    sp: "check_special_case ctl cd db ?e act = Inr (special, delay)"
    and ds: "\<forall>d \<in> set (authorization act). recorded satisfied m d delay \<and>
      (special \<or> check_minimum_permission db act d = Inr ())"
    by (auto simp: action_checked_def)
  have C: "?C\<lparr>provided_delay := delay\<rparr> = make_checker ctl db ks ps delay" by (simp add: make_checker_def)
  from ds recorded_holds [OF _ check_satisfied_loop [OF sat checker_names], of satisfied _ delay]
  have "\<forall>d \<in> set (authorization act). (d \<in> set satisfied \<or> holds (make_checker ctl db ks ps delay) d) \<and>
      (special \<or> (\<exists>m. lookup_minimum_permission db (fst d) (act_account act) (act_name act) = Inr m \<and>
        (\<forall>n. m = Some n \<longrightarrow> covers db d (fst d, n))))"
    unfolding C check_minimum_iff [OF assms(1)] by blast
  with sp show "\<exists>special delay. check_special_case ctl cd db ?e act = Inr (special, delay) \<and>
    (\<forall>d \<in> set (authorization act).
      (d \<in> set satisfied \<or> holds (make_checker ctl db ks ps delay) d) \<and>
      (special \<or> (\<exists>m. lookup_minimum_permission db (fst d) (act_account act) (act_name act) = Inr m \<and>
        (\<forall>n. m = Some n \<longrightarrow> covers db d (fst d, n)))))" by blast
qed

text \<open>
  C16. Only those above a permission may change it: the check of \<open>updateauth\<close> accepts exactly one
  declared authorization of the account itself, which covers the permission to change, or, for a
  permission that does not exist yet, its parent.
\<close>

theorem check_updateauth_exact:
  assumes "perms_ok db" and "named_level (ua_account u, ua_permission u)"
  shows "check_updateauth_authorization db u auths = Inr () \<longleftrightarrow>
    (\<exists>n. auths = [(ua_account u, n)] \<and> covers db (ua_account u, n)
      (ua_account u, if find_by_owner db (ua_account u) (ua_permission u) = None then ua_parent u else ua_permission u))"
  using assms by (rule check_updateauth_iff)

text \<open>
  C11. Satisfaction in a well-formed tree is the order of the tree: the walk up from the other
  permission always ends, reads no missing object, and finds this permission exactly when it is
  the other one or one of its ancestors.
\<close>

theorem satisfies_is_ancestor:
  assumes "perms_ok db" and "map_of (permissions db) i = Some p"
    and "map_of (permissions db) j = Some q" and "i \<noteq> 0" and "j \<noteq> 0"
  shows "satisfies db (i, p) (j, q) = Some ((i, j) \<in> (parent_of db)\<^sup>*)"
  using assms by (intro satisfies_iff_ancestor) (simp_all add: perms_ok_def)

section \<open>Witnesses\<close>

text \<open>Account 1 with its owner and active permissions, each with one key.\<close>

definition sample_db :: auth_db where
  "sample_db =
     \<lparr>permissions = [(0, default_permission),
        (1, \<lparr>usage_id = 0, parent = 0, owner = 1, perm_name = owner_name, last_updated = 5, auth = authority_of_key 7 0\<rparr>),
        (2, \<lparr>usage_id = 1, parent = 1, owner = 1, perm_name = active_name, last_updated = 5, auth = authority_of_key 9 0\<rparr>)],
      next_permission = 3, usages = [(0, 5), (1, 5)], next_usage = 2, links = []\<rparr>"

lemma sample_db_built:
  "ebind (initialize_permissions empty_auth_db) (\<lambda>db.
   ebind (create_permission 5 1 owner_name 0 (authority_of_key 7 0) 0 db) (\<lambda>(i, db).
   ebind (create_permission 5 1 active_name i (authority_of_key 9 0) 0 db) (\<lambda>(j, db). Inr db))) = Inr sample_db"
  by (simp add: initialize_permissions_def create_permission_object_def empty_auth_db_def find_by_owner_def
      default_permission_def create_permission_eq sample_db_def permission_constant_values)

lemma sample_db_ok: "perms_ok sample_db"
proof -
  obtain db0 where db0: "initialize_permissions empty_auth_db = Inr db0" "perms_ok db0"
    using initialize_permissions_ok by blast
  have r0: "map_of (permissions db0) 0 = Some default_permission"
    using db0(1) by (auto simp: initialize_permissions_def create_permission_object_def empty_auth_db_def find_by_owner_def)
  from sample_db_built db0(1) obtain i db1 j where
    c1: "create_permission 5 1 owner_name 0 (authority_of_key 7 0) 0 db0 = Inr (i, db1)"
    and c2: "create_permission 5 1 active_name i (authority_of_key 9 0) 0 db1 = Inr (j, sample_db)"
    by (auto simp: ebind_Inr)
  have n: "named_level (1, owner_name)" "named_level (1, active_name)"
    by (simp_all add: named_level_def permission_constant_values)
  note p1 = create_permission_Inr [OF db0(2) n(1) c1 r0 disjI1 [OF refl]]
  from p1(6) have "map_of (permissions db1) i = Some \<lparr>usage_id = next_usage db0, parent = 0, owner = 1,
      perm_name = owner_name, last_updated = 5, auth = authority_of_key 7 0\<rparr>" by simp
  from create_permission_Inr(1) [OF p1(1) n(2) c2 this] show ?thesis by simp
qed

definition sample_control :: auth_control where
  "sample_control = \<lparr>pending_block_time = 5, max_transaction_delay = 3888000, max_authority_depth = 6,
     linkauth_restriction_fixed = False, generated_transactions = []\<rparr>"

definition sample_codec :: codec where
  "sample_codec = \<lparr>unpack_updateauth = (\<lambda>_. Inl Overflow_exception), unpack_deleteauth = (\<lambda>_. Inl Overflow_exception),
     unpack_linkauth = (\<lambda>_. Inl Overflow_exception), unpack_unlinkauth = (\<lambda>_. Inl Overflow_exception),
     unpack_canceldelay = (\<lambda>_. Inl Overflow_exception), unpack_transaction = (\<lambda>_. Inl Overflow_exception)\<rparr>"

definition sample_action :: action where
  "sample_action = \<lparr>act_account = 5, act_name = 3, authorization = [(1, active_name)], act_data = []\<rparr>"

lemma sample_get:
  "get_permission sample_db (1, active_name) =
     Inr (2, \<lparr>usage_id = 1, parent = 1, owner = 1, perm_name = active_name, last_updated = 5, auth = authority_of_key 9 0\<rparr>)"
  "get_permission sample_db (1, owner_name) =
     Inr (1, \<lparr>usage_id = 0, parent = 0, owner = 1, perm_name = owner_name, last_updated = 5, auth = authority_of_key 7 0\<rparr>)"
  by (simp_all add: get_permission_def find_by_owner_def sample_db_def default_permission_def
      permission_constant_values rethrow_as_def)

lemma sample_minimum: "check_minimum_permission sample_db sample_action (1, active_name) = Inr ()"
proof -
  have "lookup_minimum_permission sample_db 1 5 3 = Inr (Some active_name)"
    by (simp add: lookup_minimum_permission_def lookup_linked_permission_def sample_db_def constant_values)
  then show ?thesis
    by (simp add: check_minimum_permission_def sample_action_def sample_get assert_satisfies_def satisfies_def)
qed

lemma sample_check:
  "check_authorization (\<lambda>_. Inr ()) sample_control sample_codec sample_db [sample_action] [9] [] 0 False [] = Inr ()"
proof -
  let ?C = "make_checker sample_control sample_db [9] [] 0"
  have e: "effective_delay sample_control 0 = 0" by (simp add: effective_delay_def sample_control_def)
  have "check_special_case sample_control sample_codec sample_db 0 sample_action = Inr (False, 0)"
    by (simp add: check_special_case_def sample_action_def constant_values)
  then have a: "check_declared_action (\<lambda>_. Inr ()) sample_control sample_codec sample_db [] 0 sample_action (0, []) =
      Inr (1, [((1, active_name), 0)])"
    using sample_minimum by (simp add: check_declared_action_def check_declared_def emplace_delay_def sample_action_def)
  have "satisfied_permission ?C (1, active_name) (new_checker_state ?C) =
      Inr (True, \<lparr>used_flags = [True], cached_permissions = [((1, active_name), Permission_satisfied)]\<rparr>)"
    by (simp add: make_checker_def sample_control_def sample_get checker_eval)
  moreover have "?C\<lparr>provided_delay := 0\<rparr> = ?C" by (simp add: make_checker_def)
  ultimately have "check_satisfied (\<lambda>_. Inr ()) ?C ((1, active_name), 0) (1, new_checker_state ?C) =
      Inr (2, \<lparr>used_flags = [True], cached_permissions = [((1, active_name), Permission_satisfied)]\<rparr>)"
    by (simp add: check_satisfied_def satisfied_permission_delay_def del: One_nat_def)
  with a show ?thesis
    by (simp add: check_authorization_def e all_keys_used_def)
qed

theorem check_authorization_sound_witness:
  "perms_ok sample_db \<and> holds (make_checker sample_control sample_db [9] [] 0) (1, active_name) \<and>
     covers sample_db (1, active_name) (1, active_name)"
  using check_authorization_sound [OF sample_db_ok sample_check] sample_db_ok
  by (auto simp: sample_action_def check_special_case_def constant_values effective_delay_def sample_control_def
      lookup_minimum_permission_def lookup_linked_permission_def sample_db_def)

theorem check_updateauth_exact_witness:
  "check_updateauth_authorization sample_db \<lparr>ua_account = 1, ua_permission = active_name, ua_parent = owner_name,
     ua_auth = authority_of_key 3 0\<rparr> [(1, active_name)] = Inr () \<longleftrightarrow> covers sample_db (1, active_name) (1, active_name)"
proof -
  let ?u = "\<lparr>ua_account = 1, ua_permission = active_name, ua_parent = owner_name, ua_auth = authority_of_key 3 0\<rparr>"
  have "named_level (ua_account ?u, ua_permission ?u)" by (simp add: named_level_def permission_constant_values)
  from check_updateauth_exact [OF sample_db_ok this, of "[(1, active_name)]"] show ?thesis
    by (simp add: find_by_owner_def sample_db_def default_permission_def permission_constant_values)
qed

theorem satisfies_is_ancestor_witness:
  "satisfies sample_db (1, snd (permissions sample_db ! 1)) (2, snd (permissions sample_db ! 2)) =
     Some ((1, 2) \<in> (parent_of sample_db)\<^sup>*)"
proof -
  have "map_of (permissions sample_db) 1 = Some (snd (permissions sample_db ! 1))"
    "map_of (permissions sample_db) 2 = Some (snd (permissions sample_db ! 2))" by (simp_all add: sample_db_def)
  from satisfies_is_ancestor [OF sample_db_ok this] show ?thesis by simp
qed

end
