(* ===== verification/System_Config.thy ===== *)
theory System_Config
  imports Resource_Totals
begin

text \<open>
  The system action \<open>setconfig\<close> (\<open>eosio_contract.cpp\<close>), which changes the values kept on
  chain, the name lists and the guaranteed resources together, across the configuration and
  the resource limits.
\<close>

section \<open>Guaranteed resources\<close>

datatype gmr_type = Cpu_us_type | Ram_byte_type | Net_byte_type | Gmr_type_count

record system_state =
  sys_resources :: resource_db
  sys_lists :: list_state
  sys_gmr :: gmr_parameters

text \<open>Conversion from \<open>int64_t\<close> to \<open>uint64_t\<close>; the index of the counter type is out of range.\<close>

definition u64_of_i64 :: "i64 \<Rightarrow> u64" where
  "u64_of_i64 v = nat (v mod 2 ^ 64)"

fun sync_fpo_and_resource :: "gmr_type \<Rightarrow> u64 \<Rightarrow> gmr_parameters \<Rightarrow> gmr_parameters res" where
  "sync_fpo_and_resource Cpu_us_type v g = Inr (g\<lparr>cpu_us := v\<rparr>)"
| "sync_fpo_and_resource Ram_byte_type v g = Inr (g\<lparr>ram_byte := v\<rparr>)"
| "sync_fpo_and_resource Net_byte_type v g = Inr (g\<lparr>net_byte := v\<rparr>)"
| "sync_fpo_and_resource Gmr_type_count v g = Inl Undefined_behaviour"

definition set_gmr_config :: "gmr_type \<Rightarrow> u64 \<Rightarrow> system_state \<Rightarrow> system_state res" where
  "set_gmr_config gt v s =
     ebind (sync_fpo_and_resource gt v (sys_gmr s)) (\<lambda>g.
     ebind (set_gmr_parameters \<lparr>ram_byte = ram_byte g, cpu_us = cpu_us g, net_byte = net_byte g\<rparr>
       (sys_resources s)) (\<lambda>r.
     Inr (s\<lparr>sys_gmr := g, sys_resources := r\<rparr>)))"

definition set_guaranteed_minimum_config :: "setconfig \<Rightarrow> system_state \<Rightarrow> system_state res" where
  "set_guaranteed_minimum_config cfg s =
     (if set_typ cfg = gmr_cpu then set_gmr_config Cpu_us_type (u64_of_i64 (set_num cfg)) s
      else if set_typ cfg = gmr_ram then set_gmr_config Ram_byte_type (u64_of_i64 (set_num cfg)) s
      else if set_typ cfg = gmr_net then set_gmr_config Net_byte_type (u64_of_i64 (set_num cfg)) s
      else Inr s)"

section \<open>The action\<close>

text \<open>
  The handler, for an action authorised by the given actors: one of the configuration account
  and the producers account is needed.
\<close>

definition apply_setconfig :: "account_name list \<Rightarrow> setconfig \<Rightarrow> system_state \<Rightarrow> system_state res" where
  "apply_setconfig actors cfg s =
     (if \<not> (chain_config_name \<in> set actors \<or> producers_account_name \<in> set actors)
      then Inl Missing_auth_exception
      else
      ebind (set_config_on_chain cfg (chain_configs (sys_resources s))) (\<lambda>cs.
      let s = s\<lparr>sys_resources := (sys_resources s)\<lparr>chain_configs := cs\<rparr>\<rparr> in
      ebind (set_list_config_on_chain cfg (sys_lists s)) (\<lambda>ls.
      set_guaranteed_minimum_config cfg (s\<lparr>sys_lists := ls\<rparr>))))"

section \<open>What the action keeps\<close>

definition system_ok :: "system_state \<Rightarrow> bool" where
  "system_ok s \<longleftrightarrow> tab_ok (chain_configs (sys_resources s)) \<and> lists_ok (sys_lists s) \<and>
     gmr_config (sys_resources s) = sys_gmr s \<and> gmr_parameters_validate (sys_gmr s) = Inr ()"

lemma set_config_on_chain_ok:
  assumes "set_config_on_chain cfg db = Inr db'" and "tab_ok db"
  shows "tab_ok db'" "get_num_config_on_chain db' (set_typ cfg) d = set_num cfg"
    "t \<noteq> set_typ cfg \<Longrightarrow> get_num_config_on_chain db' t d = get_num_config_on_chain db t d"
proof -
  obtain r where "tab_ok db'" "cfg_num r = set_num cfg"
    "\<And>t. map_of db' t = (if t = set_typ cfg then Some r else map_of db t)"
  proof (cases "map_of db (set_typ cfg)")
    case None
    with assms(1) have "tab_create (set_typ cfg)
        \<lparr>cfg_num = set_num cfg, cfg_key = set_key cfg, cfg_fee = set_fee cfg\<rparr> db = Inr db'"
      by (simp add: set_config_on_chain_def)
    from rows.create_ok [OF this assms(2)] rows.create_find [OF this] show thesis
      by (intro that) simp_all
  next
    case (Some c)
    with assms show thesis
      by (intro that) (auto simp: set_config_on_chain_def rows.modify_ok rows.modify_find)
  qed
  then show "tab_ok db'" "get_num_config_on_chain db' (set_typ cfg) d = set_num cfg"
    "t \<noteq> set_typ cfg \<Longrightarrow> get_num_config_on_chain db' t d = get_num_config_on_chain db t d"
    by (simp_all add: get_num_config_on_chain_def)
qed

lemma set_list_config_ok:
  assumes "set_list_config_on_chain cfg s = Inr s'" and "lists_ok s"
  shows "lists_ok s'"
proof -
  have keep: "lists_ok s'" if "set_name_list lst act ns s = Inr s'" for lst act ns
  proof (cases "get_list lst (conf_lists s)")
    case (Inl e)
    with that show ?thesis by (simp add: set_name_list_def)
  next
    case (Inr old)
    from set_name_list_ok [OF assms(2) this, of act ns] that show ?thesis by auto
  qed
  then show ?thesis
    using assms by (auto simp: set_list_config_on_chain_def Let_def split: if_splits)
qed

lemma set_gmr_config_ok:
  assumes "set_gmr_config gt v s = Inr s'"
  shows "gmr_config (sys_resources s') = sys_gmr s'" "gmr_parameters_validate (sys_gmr s') = Inr ()"
    "chain_configs (sys_resources s') = chain_configs (sys_resources s)" "sys_lists s' = sys_lists s"
  using assms by (auto simp: set_gmr_config_def set_gmr_parameters_def gmr_parameters_validate_def res_simps)

lemma set_guaranteed_minimum_config_ok:
  assumes "set_guaranteed_minimum_config cfg s = Inr s'"
    and "gmr_config (sys_resources s) = sys_gmr s" "gmr_parameters_validate (sys_gmr s) = Inr ()"
  shows "gmr_config (sys_resources s') = sys_gmr s'" "gmr_parameters_validate (sys_gmr s') = Inr ()"
    "chain_configs (sys_resources s') = chain_configs (sys_resources s)" "sys_lists s' = sys_lists s"
  using assms set_gmr_config_ok
  by (auto simp: set_guaranteed_minimum_config_def split: if_splits)

lemma apply_setconfig_result:
  assumes "system_ok s" and "apply_setconfig actors cfg s = Inr s'"
  shows "(chain_config_name \<in> set actors \<or> producers_account_name \<in> set actors) \<and> system_ok s' \<and>
    (\<forall>t d. get_num_config_on_chain (chain_configs (sys_resources s')) t d =
      (if t = set_typ cfg then set_num cfg
       else get_num_config_on_chain (chain_configs (sys_resources s)) t d))"
proof -
  from assms(2) obtain cs ls where auth: "chain_config_name \<in> set actors \<or> producers_account_name \<in> set actors"
    and cs: "set_config_on_chain cfg (chain_configs (sys_resources s)) = Inr cs"
    and ls: "set_list_config_on_chain cfg (sys_lists s) = Inr ls"
    and gmr: "set_guaranteed_minimum_config cfg
      (s\<lparr>sys_resources := (sys_resources s)\<lparr>chain_configs := cs\<rparr>, sys_lists := ls\<rparr>) = Inr s'"
    by (auto simp: apply_setconfig_def Let_def res_simps split: if_splits)
  from assms(1) have ok: "tab_ok (chain_configs (sys_resources s))" "lists_ok (sys_lists s)"
    "gmr_config (sys_resources s) = sys_gmr s" "gmr_parameters_validate (sys_gmr s) = Inr ()"
    by (simp_all add: system_ok_def)
  note g = set_guaranteed_minimum_config_ok [OF gmr, simplified, OF ok(3,4)]
  show ?thesis
    using auth g set_config_on_chain_ok [OF cs ok(1)] set_list_config_ok [OF ls ok(2)]
    by (simp add: system_ok_def)
qed

text \<open>The accounts' resources are not touched.\<close>

lemma apply_setconfig_frame:
  assumes "apply_setconfig actors cfg s = Inr s'"
  shows "\<exists>cs g. sys_resources s' = (sys_resources s)\<lparr>chain_configs := cs, gmr_config := g\<rparr>"
proof -
  have gmr: "\<exists>g. sys_resources t' = (sys_resources t)\<lparr>gmr_config := g\<rparr>"
    if "set_guaranteed_minimum_config cfg t = Inr t'" for t t'
  proof -
    have keep: "\<exists>g. sys_resources t = (sys_resources t)\<lparr>gmr_config := g\<rparr>" by (rule exI [of _ "gmr_config (sys_resources t)"]) simp
    show ?thesis
      using that keep by (auto simp: set_guaranteed_minimum_config_def set_gmr_config_def set_gmr_parameters_def
          ebind_Inr split: if_splits)
  qed
  from assms obtain cs ls where "set_guaranteed_minimum_config cfg
      (s\<lparr>sys_resources := (sys_resources s)\<lparr>chain_configs := cs\<rparr>, sys_lists := ls\<rparr>) = Inr s'"
    by (auto simp: apply_setconfig_def Let_def ebind_Inr split: if_splits)
  from gmr [OF this] show ?thesis by auto
qed

text \<open>
  C25. A \<open>setconfig\<close> action needs the authority of the configuration or the producers account.
  When it succeeds, the value can be read back under its type and no other value has changed,
  the name lists stay ordered and equal to their copies in the database, and the guaranteed
  resources in force are valid and are those of the database.
\<close>

theorem apply_setconfig_exact:
  assumes "system_ok s" and "apply_setconfig actors cfg s = Inr s'"
  shows "(chain_config_name \<in> set actors \<or> producers_account_name \<in> set actors) \<and> system_ok s' \<and>
    (\<forall>t d. get_num_config_on_chain (chain_configs (sys_resources s')) t d =
      (if t = set_typ cfg then set_num cfg
       else get_num_config_on_chain (chain_configs (sys_resources s)) t d))"
  using assms by (rule apply_setconfig_result)

definition sample_system :: system_state where
  "sample_system =
     \<lparr>sys_resources = initialize_database empty_contract_db [],
      sys_lists = \<lparr>conf_lists = \<lparr>actor_blacklist = [], contract_blacklist = [], resource_greylist = []\<rparr>,
        force_lists = \<lparr>actor_blacklist = [], contract_blacklist = [], resource_greylist = []\<rparr>\<rparr>,
      sys_gmr = default_gmr\<rparr>"

definition sample_setconfig :: setconfig where
  "sample_setconfig = \<lparr>set_typ = gmr_net, set_num = 4096, set_key = 0, set_fee = core_asset 0\<rparr>"

theorem apply_setconfig_exact_witness:
  "\<exists>s'. apply_setconfig [producers_account_name] sample_setconfig sample_system = Inr s' \<and> system_ok s' \<and>
     get_num_config_on_chain (chain_configs (sys_resources s')) gmr_net (-1) = 4096"
proof -
  have "system_ok sample_system"
    by (simp add: system_ok_def sample_system_def lists_ok_def tab_ok_def gmr_parameters_validate_def
        initialize_database_def default_gmr_def)
  moreover obtain s' where "apply_setconfig [producers_account_name] sample_setconfig sample_system = Inr s'"
    by (simp add: apply_setconfig_def sample_setconfig_def sample_system_def set_config_on_chain_def
        tab_create_def set_list_config_on_chain_def set_guaranteed_minimum_config_def set_gmr_config_def
        set_gmr_parameters_def gmr_parameters_validate_def u64_of_i64_def constant_values Let_def
        initialize_database_def default_gmr_def)
  ultimately show ?thesis
    using apply_setconfig_exact [of sample_system "[producers_account_name]" sample_setconfig s']
    by (auto simp: sample_setconfig_def)
qed

end
