(* ===== verification/Native_Actions.thy ===== *)
theory Native_Actions
  imports Authorization System_Config
begin

text \<open>
  The native actions of the system account (\<open>eosio_contract.cpp\<close>) on accounts, permissions,
  links, contract code and fees, with the memory they bill (\<open>apply_context::add_ram_usage\<close>,
  \<open>transaction_context::add_ram_usage\<close>). Sizes in bytes are integers; they are far below the
  range of \<open>int64_t\<close>.
\<close>

section \<open>State\<close>

record account_object =
  creation_date :: slot
  abi :: bytes

record account_metadata_object =
  recv_sequence :: u64
  auth_sequence :: u64
  code_sequence :: u64
  abi_sequence :: u64
  code_hash :: sha256
  last_code_update :: time_point
  flags :: u32
  vm_type :: nat
  vm_version :: nat

record code_object =
  code :: bytes
  code_ref_count :: u64
  first_block_used :: u32

text \<open>
  The tables under their unique keys, the accounts whose memory is to be checked at the end of
  the transaction, the memory deltas of the action, and the notices to the cache of compiled
  contracts.
\<close>

record native_state =
  auth_tables :: auth_db
  account_table :: "(account_name, account_object) rows"
  metadata_table :: "(account_name, account_metadata_object) rows"
  code_table :: "(sha256 \<times> nat \<times> nat, code_object) rows"
  fee_rows :: fee_table
  generated_table :: "generated_transaction_object list"
  system :: system_state
  validate_ram_usage :: "account_name list"
  account_ram_deltas :: "(account_name \<times> i64) list"
  code_last_used :: "(sha256 \<times> nat \<times> nat \<times> u32) list"

record newaccount =
  na_creator :: account_name
  na_name :: account_name
  na_owner :: authority
  na_active :: authority

record setcode =
  sc_account :: account_name
  sc_vmtype :: nat
  sc_vmversion :: nat
  sc_code :: bytes

record setfee =
  sf_account :: account_name
  sf_action :: action_name
  sf_fee :: asset
  sf_cpu_limit :: u32
  sf_net_limit :: u32
  sf_ram_limit :: u32

record setabi =
  sa_account :: account_name
  sa_abi :: bytes

text \<open>Functions of other libraries: decoding, keys, the digest and the validation of code.\<close>

record externals = codec +
  unpack_newaccount :: "bytes \<Rightarrow> newaccount res"
  unpack_setcode :: "bytes \<Rightarrow> setcode res"
  unpack_setfee :: "bytes \<Rightarrow> setfee res"
  unpack_setabi :: "bytes \<Rightarrow> setabi res"
  unpack_setconfig :: "bytes \<Rightarrow> setconfig res"
  key_order :: "public_key \<Rightarrow> public_key \<Rightarrow> bool"
  key_pack_size :: "public_key \<Rightarrow> nat"
  code_digest :: "bytes \<Rightarrow> sha256"
  wasm_validate :: "bytes \<Rightarrow> unit res"

record native_control =
  block_interval :: u16
  block_time :: time_point
  head_block_num :: u32
  max_delay :: u32
  only_link_to_existing :: bool
  enforce_key_blacklist :: bool
  key_blacklist :: "public_key list"

abbreviation resources :: "native_state \<Rightarrow> resource_db" where
  "resources st \<equiv> sys_resources (system st)"

section \<open>Sizes for billing\<close>

definition overhead_per_row_per_index_ram_bytes :: nat where
  "overhead_per_row_per_index_ram_bytes = 32"

definition overhead_per_account_ram_bytes :: nat where
  "overhead_per_account_ram_bytes = 2 * 1024"

definition setcode_ram_bytes_multiplier :: nat where
  "setcode_ram_bytes_multiplier = 10"

definition fixed_overhead_shared_vector_ram_bytes :: nat where
  "fixed_overhead_shared_vector_ram_bytes = 16"

text \<open>The fixed fields of an authority: three vector headers and the threshold.\<close>

definition billable_shared_authority :: nat where
  "billable_shared_authority = 3 * fixed_overhead_shared_vector_ram_bytes + 4"

definition billable_permission_object :: nat where
  "billable_permission_object =
     billable_size_v (billable_size_v billable_shared_authority + 64 + 5 * overhead_per_row_per_index_ram_bytes)"

definition billable_permission_link_object :: nat where
  "billable_permission_link_object = billable_size_v (40 + overhead_per_row_per_index_ram_bytes * 3)"

definition billable_generated_transaction_object :: nat where
  "billable_generated_transaction_object = billable_size_v (96 + 4 + overhead_per_row_per_index_ram_bytes * 5)"

definition permission_size :: "externals \<Rightarrow> authority \<Rightarrow> int" where
  "permission_size ext a = int (billable_permission_object + get_billable_size (key_pack_size ext) a)"

section \<open>Memory\<close>

definition emplace_delta :: "account_name \<Rightarrow> i64 \<Rightarrow> (account_name \<times> i64) list \<Rightarrow> (account_name \<times> i64) list" where
  "emplace_delta account ram_delta m =
     (case map_of m account of
        None \<Rightarrow> fm_set account ram_delta m
      | Some d \<Rightarrow> fm_set account (d + ram_delta) m)"

definition note_for_check :: "account_name \<Rightarrow> i64 \<Rightarrow> account_name list \<Rightarrow> account_name list" where
  "note_for_check account ram_delta v = (if ram_delta > 0 then flat_insert (<) account v else v)"

definition add_ram_usage :: "account_name \<Rightarrow> i64 \<Rightarrow> native_state \<Rightarrow> native_state res" where
  "add_ram_usage account ram_delta st =
     ebind (add_pending_ram_usage account ram_delta (resources st)) (\<lambda>r.
     Inr (st\<lparr>system := (system st)\<lparr>sys_resources := r\<rparr>,
             validate_ram_usage := note_for_check account ram_delta (validate_ram_usage st),
             account_ram_deltas := emplace_delta account ram_delta (account_ram_deltas st)\<rparr>))"

section \<open>Authorization of the action\<close>

definition has_authorization :: "action \<Rightarrow> account_name \<Rightarrow> bool" where
  "has_authorization act account \<longleftrightarrow> (\<exists>a \<in> set (authorization act). fst a = account)"

definition require_authorization :: "action \<Rightarrow> account_name \<Rightarrow> 'a res \<Rightarrow> 'a res" where
  "require_authorization act account k = eos_assert (has_authorization act account) Missing_auth_exception k"

definition has_prefix :: "string \<Rightarrow> string \<Rightarrow> bool" where
  "has_prefix p s \<longleftrightarrow> take (length p) s = p"

text \<open>
  Each account an authority names must exist, and so must its permission, except for the
  virtual permission of contract code. While producing, blacklisted keys are refused.
\<close>

definition check_key_list :: "native_control \<Rightarrow> public_key \<Rightarrow> unit res" where
  "check_key_list ctl k =
     (if key_blacklist ctl \<noteq> [] then eos_assert (k \<notin> set (key_blacklist ctl)) Key_blacklist_exception (Inr ())
      else Inr ())"

definition validate_authority_account :: "native_state \<Rightarrow> permission_level_weight \<Rightarrow> unit res" where
  "validate_authority_account st a =
     (let (actor, permission) = plw_permission a in
      eos_assert (map_of (account_table st) actor \<noteq> None) Action_validate_exception
        (if permission = owner_name \<or> permission = active_name \<or> permission = eosio_code_name then Inr ()
         else case get_permission (auth_tables st) (actor, permission) of
             Inl e \<Rightarrow> Inl (if e = Permission_query_exception then Action_validate_exception else e)
           | Inr _ \<Rightarrow> Inr ()))"

definition validate_authority_precondition :: "native_control \<Rightarrow> native_state \<Rightarrow> authority \<Rightarrow> unit res" where
  "validate_authority_precondition ctl st a =
     ebind (efold (\<lambda>x _. validate_authority_account st x) (accounts a) ()) (\<lambda>_.
     if enforce_key_blacklist ctl then efold (\<lambda>k _. check_key_list ctl (kw_key k)) (keys a) () else Inr ())"

section \<open>Accounts\<close>

definition new_metadata :: account_metadata_object where
  "new_metadata = \<lparr>recv_sequence = 0, auth_sequence = 0, code_sequence = 0, abi_sequence = 0,
     code_hash = null_digest, last_code_update = 0, flags = 0, vm_type = 0, vm_version = 0\<rparr>"

definition apply_newaccount :: "native_control \<Rightarrow> externals \<Rightarrow> action \<Rightarrow> native_state \<Rightarrow> native_state res" where
  "apply_newaccount ctl ext act st =
     ebind (data_as system_account_name newaccount_name (unpack_newaccount ext) act) (\<lambda>c.
     require_authorization act (na_creator c)
    (eos_assert (validate (key_order ext) (na_owner c)) Action_validate_exception
    (eos_assert (validate (key_order ext) (na_active c)) Action_validate_exception
    (let name_str = name_to_string (na_name c) in
     eos_assert (na_name c \<noteq> 0) Action_validate_exception
    (eos_assert (length name_str \<le> 12) Action_validate_exception
    (ebind (tab_get (metadata_table st) (na_creator c)) (\<lambda>creator.
     eos_assert (na_creator c = system_account_name \<or> na_creator c = producers_account_name \<or>
         na_creator c = chain_config_name \<or> \<not> has_prefix ''codex.'' name_str) Action_validate_exception
    (eos_assert (map_of (account_table st) (na_name c) = None) Account_name_exists_exception
    (ebind (tab_create (na_name c)
         \<lparr>creation_date = set_time_point (block_interval ctl) block_timestamp_epoch (block_time ctl), abi = []\<rparr>
         (account_table st)) (\<lambda>accs.
     ebind (tab_create (na_name c) new_metadata (metadata_table st)) (\<lambda>metas.
     let st = st\<lparr>account_table := accs, metadata_table := metas\<rparr> in
     ebind (validate_authority_precondition ctl st (na_owner c)) (\<lambda>_.
     ebind (validate_authority_precondition ctl st (na_active c)) (\<lambda>_.
     ebind (create_permission (block_time ctl) (na_name c) owner_name 0 (na_owner c) 0 (auth_tables st)) (\<lambda>(i, db).
     ebind (create_permission (block_time ctl) (na_name c) active_name i (na_active c) 0 db) (\<lambda>(j, db).
     ebind (initialize_account (na_name c) (resources st)) (\<lambda>r.
     add_ram_usage (na_name c)
       (int overhead_per_account_ram_bytes + 2 * int billable_permission_object +
        int (get_billable_size (key_pack_size ext) (na_owner c)) +
        int (get_billable_size (key_pack_size ext) (na_active c)))
       (st\<lparr>auth_tables := db, system := (system st)\<lparr>sys_resources := r\<rparr>\<rparr>)))))))))))))))))"

section \<open>Code and interface of a contract\<close>

definition code_key :: "account_metadata_object \<Rightarrow> sha256 \<times> nat \<times> nat" where
  "code_key m = (code_hash m, vm_type m, vm_version m)"

text \<open>The old code loses one reference, the new one gains one.\<close>

definition release_code ::
  "native_control \<Rightarrow> account_metadata_object \<Rightarrow> sha256 \<Rightarrow> native_state \<Rightarrow> (int \<times> native_state) res" where
  "release_code ctl m new_hash st =
     ebind (tab_get (code_table st) (code_key m)) (\<lambda>old.
     eos_assert (code_hash m \<noteq> new_hash) Set_exact_code
       (Inr (int (length (code old)) * int setcode_ram_bytes_multiplier,
         if code_ref_count old = 1 then
           st\<lparr>code_table := tab_remove (code_key m) (code_table st),
              code_last_used := code_last_used st @
                [(code_hash m, vm_type m, vm_version m, wrap32 (head_block_num ctl + 1))]\<rparr>
         else st\<lparr>code_table := tab_modify (code_key m)
                   (old\<lparr>code_ref_count := sub64 (code_ref_count old) 1\<rparr>) (code_table st)\<rparr>)))"

definition reference_code :: "native_control \<Rightarrow> setcode \<Rightarrow> sha256 \<Rightarrow> native_state \<Rightarrow> native_state res" where
  "reference_code ctl c hash st =
     (case map_of (code_table st) (hash, sc_vmtype c, sc_vmversion c) of
        Some e \<Rightarrow> Inr (st\<lparr>code_table := tab_modify (hash, sc_vmtype c, sc_vmversion c)
            (e\<lparr>code_ref_count := wrap64 (code_ref_count e + 1)\<rparr>) (code_table st)\<rparr>)
      | None \<Rightarrow>
          ebind (tab_create (hash, sc_vmtype c, sc_vmversion c)
            \<lparr>code = sc_code c, code_ref_count = 1, first_block_used = wrap32 (head_block_num ctl + 1)\<rparr>
            (code_table st)) (\<lambda>t. Inr (st\<lparr>code_table := t\<rparr>)))"

definition apply_setcode :: "native_control \<Rightarrow> externals \<Rightarrow> action \<Rightarrow> native_state \<Rightarrow> native_state res" where
  "apply_setcode ctl ext act st =
     ebind (data_as system_account_name setcode_name (unpack_setcode ext) act) (\<lambda>c.
     require_authorization act (sc_account c)
    (eos_assert (sc_vmtype c = 0) Invalid_contract_vm_type
    (eos_assert (sc_vmversion c = 0) Invalid_contract_vm_version
    (let code_size = int (length (sc_code c));
         hash = (if code_size > 0 then code_digest ext (sc_code c) else null_digest) in
     ebind (if code_size > 0 then wasm_validate ext (sc_code c) else Inr ()) (\<lambda>_.
     ebind (tab_get (metadata_table st) (sc_account c)) (\<lambda>m.
     let existing_code = (code_hash m \<noteq> null_digest);
         new_size = code_size * int setcode_ram_bytes_multiplier in
     eos_assert (code_size > 0 \<or> existing_code) Set_exact_code
    (ebind (if existing_code then release_code ctl m hash st else Inr (0, st)) (\<lambda>(old_size, st).
     ebind (if code_size > 0 then reference_code ctl c hash st else Inr st) (\<lambda>st.
     let st = st\<lparr>metadata_table := tab_modify (sc_account c)
           (m\<lparr>code_sequence := wrap64 (code_sequence m + 1), code_hash := hash, vm_type := sc_vmtype c,
              vm_version := sc_vmversion c, last_code_update := block_time ctl\<rparr>) (metadata_table st)\<rparr> in
     if new_size \<noteq> old_size then add_ram_usage (sc_account c) (new_size - old_size) st else Inr st)))))))))"

definition apply_setabi :: "externals \<Rightarrow> action \<Rightarrow> native_state \<Rightarrow> native_state res" where
  "apply_setabi ext act st =
     ebind (data_as system_account_name setabi_name (unpack_setabi ext) act) (\<lambda>c.
     require_authorization act (sa_account c)
    (ebind (tab_get (account_table st) (sa_account c)) (\<lambda>account.
     let abi_size = int (length (sa_abi c));
         old_size = int (length (abi account));
         new_size = abi_size;
         st = st\<lparr>account_table := tab_modify (sa_account c)
           (account\<lparr>abi := (if abi_size > 0 then sa_abi c else [])\<rparr>) (account_table st)\<rparr> in
     ebind (tab_get (metadata_table st) (sa_account c)) (\<lambda>m.
     let st = st\<lparr>metadata_table := tab_modify (sa_account c)
           (m\<lparr>abi_sequence := wrap64 (abi_sequence m + 1)\<rparr>) (metadata_table st)\<rparr> in
     if new_size \<noteq> old_size then add_ram_usage (sa_account c) (new_size - old_size) st else Inr st))))"

section \<open>Permissions\<close>

definition update_permission ::
  "native_control \<Rightarrow> externals \<Rightarrow> updateauth \<Rightarrow> nat \<Rightarrow> (nat \<times> permission_object) option \<Rightarrow> native_state \<Rightarrow>
     native_state res" where
  "update_permission ctl ext u parent_id found st =
     (case found of
        Some p \<Rightarrow>
          eos_assert (parent_id = parent (snd p)) Action_validate_exception
            (add_ram_usage (owner (snd p)) (permission_size ext (ua_auth u) - permission_size ext (auth (snd p)))
              (st\<lparr>auth_tables := modify_permission (block_time ctl) p (ua_auth u) (auth_tables st)\<rparr>))
      | None \<Rightarrow>
          ebind (create_permission (block_time ctl) (ua_account u) (ua_permission u) parent_id (ua_auth u) 0
            (auth_tables st)) (\<lambda>(i, db).
          add_ram_usage (ua_account u) (permission_size ext (ua_auth u)) (st\<lparr>auth_tables := db\<rparr>)))"

definition apply_updateauth :: "native_control \<Rightarrow> externals \<Rightarrow> action \<Rightarrow> native_state \<Rightarrow> native_state res" where
  "apply_updateauth ctl ext act st =
     ebind (data_as system_account_name updateauth_name (unpack_updateauth ext) act) (\<lambda>u.
     require_authorization act (ua_account u)
    (eos_assert (ua_permission u \<noteq> 0) Action_validate_exception
    (eos_assert (\<not> has_prefix ''eosio.'' (name_to_string (ua_permission u))) Action_validate_exception
    (eos_assert (\<not> has_prefix ''force.'' (name_to_string (ua_permission u))) Action_validate_exception
    (eos_assert (ua_permission u \<noteq> ua_parent u) Action_validate_exception
    (ebind (tab_get (account_table st) (ua_account u)) (\<lambda>_.
     eos_assert (validate (key_order ext) (ua_auth u)) Action_validate_exception
    (eos_assert (ua_permission u = active_name \<longrightarrow> ua_parent u = owner_name) Action_validate_exception
    (eos_assert (if ua_permission u = owner_name then ua_parent u = 0 else ua_parent u \<noteq> 0) Action_validate_exception
    (eos_assert (waits (ua_auth u) \<noteq> [] \<longrightarrow> wait_sec (last (waits (ua_auth u))) \<le> max_delay ctl) Action_validate_exception
    (ebind (validate_authority_precondition ctl st (ua_auth u)) (\<lambda>_.
     ebind (find_permission (auth_tables st) (ua_account u, ua_permission u)) (\<lambda>found.
     ebind (if ua_permission u \<noteq> owner_name
            then ebind (get_permission (auth_tables st) (ua_account u, ua_parent u)) (\<lambda>p. Inr (fst p))
            else Inr 0) (\<lambda>parent_id.
     update_permission ctl ext u parent_id found st))))))))))))))"

definition apply_deleteauth :: "externals \<Rightarrow> action \<Rightarrow> native_state \<Rightarrow> native_state res" where
  "apply_deleteauth ext act st =
     ebind (data_as system_account_name deleteauth_name (unpack_deleteauth ext) act) (\<lambda>r.
     require_authorization act (da_account r)
    (eos_assert (da_permission r \<noteq> active_name) Action_validate_exception
    (eos_assert (da_permission r \<noteq> owner_name) Action_validate_exception
    (eos_assert (\<not> (\<exists>((a, c, t), n) \<in> set (links (auth_tables st)). a = da_account r \<and> n = da_permission r))
       Action_validate_exception
    (ebind (get_permission (auth_tables st) (da_account r, da_permission r)) (\<lambda>p.
     ebind (remove_permission p (auth_tables st)) (\<lambda>db.
     add_ram_usage (da_account r) (- permission_size ext (auth (snd p))) (st\<lparr>auth_tables := db\<rparr>))))))))"

section \<open>Links\<close>

definition permission_for_link :: "native_control \<Rightarrow> auth_db \<Rightarrow> linkauth \<Rightarrow> bool" where
  "permission_for_link ctl db r \<longleftrightarrow>
     (if only_link_to_existing ctl then find_by_owner db (la_account r) (la_requirement r) \<noteq> None
      else \<exists>(i, p) \<in> set (permissions db). perm_name p = la_requirement r)"

definition apply_linkauth :: "native_control \<Rightarrow> externals \<Rightarrow> action \<Rightarrow> native_state \<Rightarrow> native_state res" where
  "apply_linkauth ctl ext act st =
     ebind (data_as system_account_name linkauth_name (unpack_linkauth ext) act) (\<lambda>r.
     eos_assert (la_requirement r \<noteq> 0) Action_validate_exception
    (require_authorization act (la_account r)
    (eos_assert (map_of (account_table st) (la_account r) \<noteq> None) Account_query_exception
    (eos_assert (map_of (account_table st) (la_code r) \<noteq> None) Account_query_exception
    (eos_assert (la_requirement r \<noteq> eosio_any_name \<longrightarrow> permission_for_link ctl (auth_tables st) r) Permission_query_exception
    (let db = auth_tables st; key = (la_account r, la_code r, la_type r) in
     case map_of (links db) key of
       Some old \<Rightarrow>
         eos_assert (old \<noteq> la_requirement r) Action_validate_exception
           (Inr (st\<lparr>auth_tables := db\<lparr>links := tab_modify key (la_requirement r) (links db)\<rparr>\<rparr>))
     | None \<Rightarrow>
         ebind (tab_create key (la_requirement r) (links db)) (\<lambda>ls.
         add_ram_usage (la_account r) (int billable_permission_link_object)
           (st\<lparr>auth_tables := db\<lparr>links := ls\<rparr>\<rparr>))))))))"

definition apply_unlinkauth :: "externals \<Rightarrow> action \<Rightarrow> native_state \<Rightarrow> native_state res" where
  "apply_unlinkauth ext act st =
     ebind (data_as system_account_name unlinkauth_name (unpack_unlinkauth ext) act) (\<lambda>u.
     require_authorization act (ul_account u)
    (let db = auth_tables st; key = (ul_account u, ul_code u, ul_type u) in
     eos_assert (map_of (links db) key \<noteq> None) Action_validate_exception
    (ebind (add_ram_usage (ul_account u) (- int billable_permission_link_object) st) (\<lambda>st.
     Inr (st\<lparr>auth_tables := db\<lparr>links := tab_remove key (links db)\<rparr>\<rparr>)))))"

section \<open>Deferred transactions, fees and configuration\<close>

definition transaction_id_to_sender_id :: "sha256 \<Rightarrow> u128" where
  "transaction_id_to_sender_id tid = unat (hash3 tid) * 2 ^ 64 + unat (hash2 tid)"

definition cancel_deferred_transaction :: "u128 \<Rightarrow> account_name \<Rightarrow> native_state \<Rightarrow> (bool \<times> native_state) res" where
  "cancel_deferred_transaction sid sender st =
     (case find (\<lambda>g. gto_sender g = sender \<and> gto_sender_id g = sid) (generated_table st) of
        None \<Rightarrow> Inr (False, st)
      | Some g \<Rightarrow>
          ebind (add_ram_usage (gto_payer g)
            (- int (billable_generated_transaction_object + length (packed_trx g))) st) (\<lambda>st.
          Inr (True, st\<lparr>generated_table := remove1 g (generated_table st)\<rparr>)))"

definition apply_canceldelay :: "externals \<Rightarrow> action \<Rightarrow> native_state \<Rightarrow> native_state res" where
  "apply_canceldelay ext act st =
     ebind (data_as system_account_name canceldelay_name (unpack_canceldelay ext) act) (\<lambda>c.
     require_authorization act (fst (canceling_auth c))
    (ebind (cancel_deferred_transaction (transaction_id_to_sender_id (cancel_trx_id c)) 0 st) (\<lambda>(b, st). Inr st)))"

definition apply_setfee :: "externals \<Rightarrow> action \<Rightarrow> native_state \<Rightarrow> native_state res" where
  "apply_setfee ext act st =
     ebind (data_as system_account_name setfee_name (unpack_setfee ext) act) (\<lambda>c.
     eos_assert (if sf_cpu_limit c = 0 \<and> sf_net_limit c = 0 \<and> sf_ram_limit c = 0
         then has_authorization act chain_config_name \<or> has_authorization act (sf_account c)
         else has_authorization act chain_config_name) Missing_auth_exception
    (eos_assert (amount (sf_fee c) > 0) Invalid_action_args_exception
    (eos_assert (amount (sf_fee c) \<le> 200 * 10000) Invalid_action_args_exception
    (let key = (sf_account c, sf_action c);
         row = \<lparr>fee = sf_fee c, cpu_limit = sf_cpu_limit c, net_limit = sf_net_limit c, ram_limit = sf_ram_limit c\<rparr> in
     case map_of (fee_rows st) key of
       None \<Rightarrow> ebind (tab_create key row (fee_rows st)) (\<lambda>t. Inr (st\<lparr>fee_rows := t\<rparr>))
     | Some old \<Rightarrow> Inr (st\<lparr>fee_rows := tab_modify key row (fee_rows st)\<rparr>)))))"

definition apply_setconfig_action :: "externals \<Rightarrow> action \<Rightarrow> native_state \<Rightarrow> native_state res" where
  "apply_setconfig_action ext act st =
     ebind (data_as system_account_name setconfig_name (unpack_setconfig ext) act) (\<lambda>cfg.
     ebind (apply_setconfig (map fst (authorization act)) cfg (system st)) (\<lambda>s. Inr (st\<lparr>system := s\<rparr>)))"

section \<open>Dispatch\<close>

text \<open>The handlers that the controller registers for the system account.\<close>

type_synonym apply_handler = "native_control \<Rightarrow> externals \<Rightarrow> action \<Rightarrow> native_state \<Rightarrow> native_state res"

definition native_handlers :: "(action_name \<times> apply_handler) list" where
  "native_handlers =
     [(newaccount_name, apply_newaccount),
      (setcode_name, apply_setcode),
      (setabi_name, \<lambda>ctl. apply_setabi),
      (updateauth_name, apply_updateauth),
      (deleteauth_name, \<lambda>ctl. apply_deleteauth),
      (linkauth_name, apply_linkauth),
      (unlinkauth_name, \<lambda>ctl. apply_unlinkauth),
      (canceldelay_name, \<lambda>ctl. apply_canceldelay),
      (setconfig_name, \<lambda>ctl. apply_setconfig_action),
      (setfee_name, \<lambda>ctl. apply_setfee)]"

definition find_apply_handler :: "account_name \<Rightarrow> account_name \<Rightarrow> action_name \<Rightarrow> apply_handler option" where
  "find_apply_handler receiver scope act =
     (if receiver = system_account_name \<and> scope = system_account_name then map_of native_handlers act else None)"

end
