(* ===== verification/Native_Invariants.thy ===== *)
theory Native_Invariants
  imports Native_Actions
begin

text \<open>
  What the native actions keep: the permission trees of all accounts, the reference counts of
  contract code, and the memory billed to every account.
\<close>

section \<open>Billed memory\<close>

text \<open>
  The memory that the tables of the native actions take up, by the account that pays for it:
  permissions, links, deferred transactions, the account itself with its interface, its code.
\<close>

definition code_bytes :: "native_state \<Rightarrow> account_metadata_object \<Rightarrow> nat" where
  "code_bytes st m =
     (if code_hash m = null_digest then 0
      else case map_of (code_table st) (code_key m) of Some e \<Rightarrow> length (code e) | None \<Rightarrow> 0)"

definition account_bytes :: "native_state \<Rightarrow> account_name \<Rightarrow> nat" where
  "account_bytes st a =
     (case map_of (account_table st) a of
        Some x \<Rightarrow> overhead_per_account_ram_bytes + length (abi x) | None \<Rightarrow> 0) +
     (case map_of (metadata_table st) a of
        Some m \<Rightarrow> code_bytes st m * setcode_ram_bytes_multiplier | None \<Rightarrow> 0)"

definition permission_bytes :: "externals \<Rightarrow> native_state \<Rightarrow> account_name \<Rightarrow> nat" where
  "permission_bytes ext st a =
     tab_sum (\<lambda>i p. if owner p = a then billable_permission_object + get_billable_size (key_pack_size ext) (auth p) else 0)
       (permissions (auth_tables st))"

definition link_bytes :: "native_state \<Rightarrow> account_name \<Rightarrow> nat" where
  "link_bytes st a =
     tab_sum (\<lambda>k n. if fst k = a then billable_permission_link_object else 0) (links (auth_tables st))"

definition deferred_bytes :: "native_state \<Rightarrow> account_name \<Rightarrow> nat" where
  "deferred_bytes st a =
     sum_list (map (\<lambda>g. if gto_payer g = a then billable_generated_transaction_object + length (packed_trx g) else 0)
       (generated_table st))"

definition billed :: "externals \<Rightarrow> native_state \<Rightarrow> account_name \<Rightarrow> int" where
  "billed ext st a =
     int (permission_bytes ext st a) + int (link_bytes st a) + int (deferred_bytes st a) + int (account_bytes st a)"

definition ram_of :: "native_state \<Rightarrow> account_name \<Rightarrow> int" where
  "ram_of st a = (case map_of (account_usage (resources st)) a of Some u \<Rightarrow> int (ram_usage u) | None \<Rightarrow> 0)"

section \<open>Adding memory usage\<close>

lemma add_pending_Inr:
  assumes "add_pending_ram_usage a d db = Inr db'" and "resource_inv db"
  shows "resource_inv db'"
    and "account_limits db' = account_limits db" "chain_configs db' = chain_configs db" "gmr_config db' = gmr_config db"
    and "(case map_of (account_usage db') b of Some u \<Rightarrow> int (ram_usage u) | None \<Rightarrow> 0) =
      (case map_of (account_usage db) b of Some u \<Rightarrow> int (ram_usage u) | None \<Rightarrow> 0) + (if b = a then d else 0)"
    and "tab_keys (account_usage db') = tab_keys (account_usage db)"
proof -
  have "db' = db \<and> d = 0 \<or> (\<exists>u. map_of (account_usage db) a = Some u \<and> - (2 ^ 63) \<noteq> d \<and>
      (d \<le> 0 \<or> u64_max - ram_usage u \<ge> nat d) \<and> (d \<ge> 0 \<or> ram_usage u \<ge> nat (- d)) \<and>
      db' = db\<lparr>account_usage := tab_modify a
        (u\<lparr>ram_usage := nat ((int (ram_usage u) + d) mod 2 ^ 64)\<rparr>) (account_usage db)\<rparr>)"
    using assms(1) by (auto simp: add_pending_ram_usage_def tab_get_def res_simps split: if_splits)
  then consider (none) "db' = db" "d = 0"
    | (some) u where "map_of (account_usage db) a = Some u" "d \<le> 0 \<or> u64_max - ram_usage u \<ge> nat d"
      "d \<ge> 0 \<or> ram_usage u \<ge> nat (- d)" "db' = db\<lparr>account_usage := tab_modify a
        (u\<lparr>ram_usage := nat ((int (ram_usage u) + d) mod 2 ^ 64)\<rparr>) (account_usage db)\<rparr>"
    by blast
  then have goal: "account_limits db' = account_limits db \<and> chain_configs db' = chain_configs db \<and>
      gmr_config db' = gmr_config db \<and> tab_keys (account_usage db') = tab_keys (account_usage db) \<and>
      (case map_of (account_usage db') b of Some u \<Rightarrow> int (ram_usage u) | None \<Rightarrow> 0) =
      (case map_of (account_usage db) b of Some u \<Rightarrow> int (ram_usage u) | None \<Rightarrow> 0) + (if b = a then d else 0)"
  proof cases
    case some
    from assms(2) some(1) have "usage_row_ok u" unfolding resource_inv_def usage_ok_def by blast
    then have "ram_usage u \<le> u64_max" by (simp add: usage_row_ok_def)
    with some(2,3) have "0 \<le> int (ram_usage u) + d" "int (ram_usage u) + d \<le> int u64_max" by (auto simp: le_diff_conv)
    then have "(int (ram_usage u) + d) mod 2 ^ 64 = int (ram_usage u) + d" by (intro mod_pos_pos_trivial) auto
    with some \<open>0 \<le> int (ram_usage u) + d\<close> show ?thesis by (simp add: tab_modify_find)
  qed simp
  then show "account_limits db' = account_limits db" "chain_configs db' = chain_configs db" "gmr_config db' = gmr_config db"
    "(case map_of (account_usage db') b of Some u \<Rightarrow> int (ram_usage u) | None \<Rightarrow> 0) =
      (case map_of (account_usage db) b of Some u \<Rightarrow> int (ram_usage u) | None \<Rightarrow> 0) + (if b = a then d else 0)"
    "tab_keys (account_usage db') = tab_keys (account_usage db)" by blast+
  show "resource_inv db'" by (rule add_pending_ram_usage_inv [OF assms(2,1)])
qed

lemma add_ram_usage_Inr:
  assumes "add_ram_usage b d st = Inr st'" and "resource_inv (resources st)"
  obtains s v ds where "st' = st\<lparr>system := s, validate_ram_usage := v, account_ram_deltas := ds\<rparr>"
    and "resource_inv (resources st')" and "\<And>a. ram_of st' a = ram_of st a + (if a = b then d else 0)"
    and "system_ok (system st) \<Longrightarrow> system_ok (system st')"
    and "tab_keys (account_usage (resources st')) = tab_keys (account_usage (resources st))"
proof -
  from assms(1) obtain r v ds where r: "add_pending_ram_usage b d (resources st) = Inr r"
    and st': "st' = st\<lparr>system := (system st)\<lparr>sys_resources := r\<rparr>, validate_ram_usage := v, account_ram_deltas := ds\<rparr>"
    by (auto simp: add_ram_usage_def ebind_Inr)
  note p = add_pending_Inr [OF r assms(2)]
  show thesis
    by (rule that [OF st']) (use p in \<open>simp_all add: st' ram_of_def system_ok_def\<close>)
qed

text \<open>The billed memory does not depend on what \<open>add_ram_usage\<close> changes.\<close>

lemma billed_frame [simp]:
  "billed ext (st\<lparr>system := s, validate_ram_usage := v, account_ram_deltas := ds\<rparr>) = billed ext st"
  by (simp add: fun_eq_iff billed_def permission_bytes_def link_bytes_def deferred_bytes_def account_bytes_def
      code_bytes_def cong: option.case_cong if_cong)

section \<open>The invariant\<close>

text \<open>
  Every account has an owner permission at the root of its tree and an active permission;
  permissions belong to accounts, and only owner permissions are roots.
\<close>

definition auth_inv :: "account_name set \<Rightarrow> auth_db \<Rightarrow> bool" where
  "auth_inv accs db \<longleftrightarrow> perms_ok db \<and> tab_ok (links db) \<and> 0 \<notin> accs \<and>
     (\<forall>a \<in> accs. find_by_owner db a owner_name \<noteq> None \<and> find_by_owner db a active_name \<noteq> None) \<and>
     (\<forall>i p. map_of (permissions db) i = Some p \<longrightarrow> i \<noteq> 0 \<longrightarrow>
        owner p \<in> accs \<and> (perm_name p = owner_name \<longleftrightarrow> parent p = 0))"

text \<open>A code entry counts the accounts that run it, and every account's code is there.\<close>

definition runs_code :: "sha256 \<times> nat \<times> nat \<Rightarrow> account_metadata_object \<Rightarrow> bool" where
  "runs_code k m \<longleftrightarrow> code_hash m \<noteq> null_digest \<and> code_key m = k"

definition code_refs :: "(account_name, account_metadata_object) rows \<Rightarrow> sha256 \<times> nat \<times> nat \<Rightarrow> nat" where
  "code_refs metas k = tab_sum (\<lambda>a m. if runs_code k m then 1 else 0) metas"

definition code_inv :: "(account_name, account_metadata_object) rows \<Rightarrow> (sha256 \<times> nat \<times> nat, code_object) rows \<Rightarrow> bool" where
  "code_inv metas codes \<longleftrightarrow> tab_ok codes \<and>
     (\<forall>k. case map_of codes k of
        None \<Rightarrow> code_refs metas k = 0
      | Some e \<Rightarrow> code_ref_count e = code_refs metas k \<and> 0 < code_refs metas k)"

definition native_ok :: "native_state \<Rightarrow> bool" where
  "native_ok st \<longleftrightarrow> tab_ok (account_table st) \<and> tab_ok (metadata_table st) \<and>
     set (tab_keys (metadata_table st)) = set (tab_keys (account_table st)) \<and>
     auth_inv (set (tab_keys (account_table st))) (auth_tables st) \<and>
     code_inv (metadata_table st) (code_table st) \<and>
     resource_inv (resources st) \<and> system_ok (system st) \<and>
     set (tab_keys (account_usage (resources st))) = set (tab_keys (account_table st))"

lemma native_okD:
  assumes "native_ok st"
  shows "tab_ok (account_table st)" "tab_ok (metadata_table st)"
    "set (tab_keys (metadata_table st)) = set (tab_keys (account_table st))"
    "auth_inv (set (tab_keys (account_table st))) (auth_tables st)"
    "code_inv (metadata_table st) (code_table st)" "resource_inv (resources st)" "system_ok (system st)"
    "set (tab_keys (account_usage (resources st))) = set (tab_keys (account_table st))"
  using assms unfolding native_ok_def by blast+

text \<open>
  What a handler does: it keeps the invariant, and it changes the memory usage of every account
  by what the account's rows have grown.
\<close>

definition accounted :: "externals \<Rightarrow> native_state \<Rightarrow> native_state \<Rightarrow> bool" where
  "accounted ext st st' \<longleftrightarrow> native_ok st' \<and>
     (\<forall>a. ram_of st' a - ram_of st a = billed ext st' a - billed ext st a)"

lemma add_ram_usage_accounted:
  assumes "add_ram_usage b d st = Inr st'" and "native_ok st"
    and "\<And>a. billed ext st a = billed ext st0 a + (if a = b then d else 0)" and "ram_of st = ram_of st0"
  shows "accounted ext st0 st'"
proof (rule add_ram_usage_Inr [OF assms(1) native_okD(6) [OF assms(2)]])
  fix s v ds
  assume st': "st' = st\<lparr>system := s, validate_ram_usage := v, account_ram_deltas := ds\<rparr>"
    and inv: "resource_inv (resources st')" and ram: "\<And>a. ram_of st' a = ram_of st a + (if a = b then d else 0)"
    and sys: "system_ok (system st) \<Longrightarrow> system_ok (system st')"
    and keys: "tab_keys (account_usage (resources st')) = tab_keys (account_usage (resources st))"
  from native_okD [OF assms(2)] inv sys keys have "native_ok st'"
    unfolding native_ok_def by (simp add: st')
  moreover have "billed ext st' a = billed ext st a" for a by (simp add: st')
  ultimately show ?thesis using ram assms(3,4) by (simp add: accounted_def)
qed

section \<open>Permission tables\<close>

lemma find_by_owner_ex:
  "perm_tree_ok db \<Longrightarrow> find_by_owner db a n \<noteq> None \<longleftrightarrow>
     (\<exists>i p. map_of (permissions db) i = Some p \<and> owner p = a \<and> perm_name p = n)"
  using find_by_owner_Some [of db a n] by fastforce

lemma auth_invD:
  assumes "auth_inv accs db"
  shows "perms_ok db" "perm_tree_ok db" "tab_ok (links db)" "0 \<notin> accs"
    and "a \<in> accs \<Longrightarrow> find_by_owner db a owner_name \<noteq> None" and "a \<in> accs \<Longrightarrow> find_by_owner db a active_name \<noteq> None"
    and "map_of (permissions db) i = Some p \<Longrightarrow> i \<noteq> 0 \<Longrightarrow> owner p \<in> accs"
    and "map_of (permissions db) i = Some p \<Longrightarrow> i \<noteq> 0 \<Longrightarrow> perm_name p = owner_name \<longleftrightarrow> parent p = 0"
proof -
  note inv = assms [unfolded auth_inv_def]
  note parts = inv [THEN conjunct1] inv [THEN conjunct2, THEN conjunct1] inv [THEN conjunct2, THEN conjunct2, THEN conjunct1]
    inv [THEN conjunct2, THEN conjunct2, THEN conjunct2, THEN conjunct1]
    inv [THEN conjunct2, THEN conjunct2, THEN conjunct2, THEN conjunct2]
  show "perms_ok db" "perm_tree_ok db" "tab_ok (links db)" "0 \<notin> accs"
    using parts(1-3) by (simp_all add: perms_ok_def)
  show "a \<in> accs \<Longrightarrow> find_by_owner db a owner_name \<noteq> None" "a \<in> accs \<Longrightarrow> find_by_owner db a active_name \<noteq> None"
    using parts(4) by blast+
  show "map_of (permissions db) i = Some p \<Longrightarrow> i \<noteq> 0 \<Longrightarrow> owner p \<in> accs"
    "map_of (permissions db) i = Some p \<Longrightarrow> i \<noteq> 0 \<Longrightarrow> perm_name p = owner_name \<longleftrightarrow> parent p = 0"
    using parts(5) by blast+
qed

lemma auth_invI:
  assumes "perms_ok db" and "tab_ok (links db)" and "0 \<notin> accs"
    and "\<And>a. a \<in> accs \<Longrightarrow> find_by_owner db a owner_name \<noteq> None"
    and "\<And>a. a \<in> accs \<Longrightarrow> find_by_owner db a active_name \<noteq> None"
    and "\<And>i p. map_of (permissions db) i = Some p \<Longrightarrow> i \<noteq> 0 \<Longrightarrow> owner p \<in> accs"
    and "\<And>i p. map_of (permissions db) i = Some p \<Longrightarrow> i \<noteq> 0 \<Longrightarrow> perm_name p = owner_name \<longleftrightarrow> parent p = 0"
  shows "auth_inv accs db"
  unfolding auth_inv_def by (intro conjI ballI allI impI assms)

lemma auth_inv_links:
  assumes "auth_inv accs db" and "tab_ok ls"
  shows "auth_inv accs (db\<lparr>links := ls\<rparr>)"
proof -
  have same: "permissions (db\<lparr>links := ls\<rparr>) = permissions db" "next_permission (db\<lparr>links := ls\<rparr>) = next_permission db"
    "usages (db\<lparr>links := ls\<rparr>) = usages db" "next_usage (db\<lparr>links := ls\<rparr>) = next_usage db"
    "links (db\<lparr>links := ls\<rparr>) = ls" by simp_all
  have "perms_ok (db\<lparr>links := ls\<rparr>) = perms_ok db"
    by (simp only: perms_ok_def perm_tree_ok_def perm_usage_ok_def same)
  moreover have "find_by_owner (db\<lparr>links := ls\<rparr>) = find_by_owner db" by (simp add: find_by_owner_def fun_eq_iff)
  ultimately show ?thesis
    by (intro auth_invI) (use assms auth_invD [OF assms(1)] in \<open>simp_all only: same simp_thms\<close>)
qed

lemma auth_inv_modify:
  assumes "auth_inv accs db" and "map_of (permissions db) i = Some p"
  shows "auth_inv accs (modify_permission now (i, p) a db)"
proof -
  let ?db = "modify_permission now (i, p) a db"
  have ok: "perms_ok ?db" by (rule modify_permission_ok [OF auth_invD(1) [OF assms(1)] assms(2)])
  then have tree: "perm_tree_ok ?db" by (simp add: perms_ok_def)
  note find' = modify_permission_find [OF assms(2), of now a]
  have "find_by_owner ?db b n \<noteq> None" if "find_by_owner db b n \<noteq> None" for b n
  proof -
    from that obtain j q where "map_of (permissions db) j = Some q" "owner q = b" "perm_name q = n"
      unfolding find_by_owner_ex [OF auth_invD(2) [OF assms(1)]] by blast
    then show ?thesis
      unfolding find_by_owner_ex [OF tree] find' using assms(2) by (cases "j = i") auto
  qed
  moreover have "links ?db = links db" by (simp add: modify_permission_def)
  moreover have "owner q \<in> accs \<and> (perm_name q = owner_name \<longleftrightarrow> parent q = 0)"
    if "map_of (permissions ?db) j = Some q" "j \<noteq> 0" for j q
    using that auth_invD(7,8) [OF assms(1), of j] assms(2) by (auto simp: find' split: if_splits)
  ultimately show ?thesis
    using ok auth_invD(3-6) [OF assms(1)] by (intro auth_invI) simp_all
qed

lemma auth_inv_create:
  assumes inv: "auth_inv accs db" and named: "named_level (account, n)"
    and new: "create_permission now account n parent_id a t db = Inr (i, db')"
    and par: "map_of (permissions db) parent_id = Some q" "parent_id = 0 \<or> owner q = account"
    and root: "n = owner_name \<longleftrightarrow> parent_id = 0"
    and roots: "\<And>b. b \<in> insert account accs - accs \<Longrightarrow>
      find_by_owner db' b owner_name \<noteq> None \<and> find_by_owner db' b active_name \<noteq> None"
  shows "auth_inv (insert account accs) db'"
proof -
  note c = create_permission_Inr [OF auth_invD(1) [OF inv] named new par]
  have tree: "perm_tree_ok db'" using c(1) by (simp add: perms_ok_def)
  have keep: "find_by_owner db' b m \<noteq> None" if "find_by_owner db b m \<noteq> None" for b m
  proof -
    from that obtain j r where r: "map_of (permissions db) j = Some r" "owner r = b" "perm_name r = m"
      unfolding find_by_owner_ex [OF auth_invD(2) [OF inv]] by blast
    with perm_id_less [OF auth_invD(2) [OF inv] r(1)] c(3) have "map_of (permissions db') j = Some r"
      by (simp add: c(6))
    with r show ?thesis unfolding find_by_owner_ex [OF tree] by blast
  qed
  have "owner r \<in> insert account accs \<and> (perm_name r = owner_name \<longleftrightarrow> parent r = 0)"
    if "map_of (permissions db') j = Some r" "j \<noteq> 0" for j r
    using that auth_invD(7,8) [OF inv, of j r] root by (cases "j = i") (auto simp: c(6))
  moreover have "find_by_owner db' b owner_name \<noteq> None \<and> find_by_owner db' b active_name \<noteq> None"
    if "b \<in> insert account accs" for b
    using that roots [of b] keep auth_invD(5,6) [OF inv, of b] by (cases "b \<in> accs") auto
  ultimately show ?thesis
    using c(1,5) auth_invD(3,4) [OF inv] named unfolding auth_inv_def by (simp add: named_level_def)
qed

lemma auth_inv_remove:
  assumes inv: "auth_inv accs db" and row: "map_of (permissions db) i = Some p" "i \<noteq> 0"
    and rm: "remove_permission (i, p) db = Inr db'"
    and names: "perm_name p \<noteq> owner_name" "perm_name p \<noteq> active_name"
  shows "auth_inv accs db'"
proof -
  note c = remove_permission_Inr [OF auth_invD(1) [OF inv] row rm]
  have tree: "perm_tree_ok db'" using c(1) by (simp add: perms_ok_def)
  have keep: "find_by_owner db' b m \<noteq> None" if "find_by_owner db b m \<noteq> None" "m \<noteq> perm_name p" for b m
  proof -
    from that(1) obtain j r where r: "map_of (permissions db) j = Some r" "owner r = b" "perm_name r = m"
      unfolding find_by_owner_ex [OF auth_invD(2) [OF inv]] by blast
    with that(2) row(1) have "map_of (permissions db') j = Some r" by (auto simp: c(2))
    with r show ?thesis unfolding find_by_owner_ex [OF tree] by blast
  qed
  have "owner r \<in> accs \<and> (perm_name r = owner_name \<longleftrightarrow> parent r = 0)"
    if "map_of (permissions db') j = Some r" "j \<noteq> 0" for j r
    using that auth_invD(7,8) [OF inv, of j r] by (cases "j = i") (auto simp: c(2))
  then show ?thesis
    using c(1,3) auth_invD(3,4) [OF inv] keep [OF auth_invD(5) [OF inv]] keep [OF auth_invD(6) [OF inv]] names
    unfolding auth_inv_def by simp
qed

section \<open>Actions on permissions and links\<close>

lemma native_ok_auth:
  assumes "native_ok st" and "auth_inv (set (tab_keys (account_table st))) db"
  shows "native_ok (st\<lparr>auth_tables := db\<rparr>)"
  using native_okD [OF assms(1)] assms(2) unfolding native_ok_def by simp

lemma ram_of_auth [simp]: "ram_of (st\<lparr>auth_tables := db\<rparr>) = ram_of st"
  by (simp add: ram_of_def fun_eq_iff)

lemma account_bytes_auth [simp]: "account_bytes (st\<lparr>auth_tables := db\<rparr>) = account_bytes st"
  by (simp add: account_bytes_def code_bytes_def fun_eq_iff cong: option.case_cong if_cong)

lemma billed_auth:
  "billed ext (st\<lparr>auth_tables := db\<rparr>) a - billed ext st a =
     int (tab_sum (\<lambda>i p. if owner p = a then billable_permission_object + get_billable_size (key_pack_size ext) (auth p) else 0)
       (permissions db)) - int (permission_bytes ext st a) +
     int (tab_sum (\<lambda>k n. if fst k = a then billable_permission_link_object else 0) (links db)) - int (link_bytes st a)"
  by (simp add: billed_def permission_bytes_def link_bytes_def deferred_bytes_def)

lemma add_ram_usage_auth:
  assumes "add_ram_usage b d st = Inr st1"
  shows "add_ram_usage b d (st\<lparr>auth_tables := db\<rparr>) = Inr (st1\<lparr>auth_tables := db\<rparr>)"
  using assms by (cases "add_pending_ram_usage b d (resources st)") (auto simp: add_ram_usage_def)

lemma unlinkauth_accounted:
  assumes "native_ok st" and "apply_unlinkauth ext act st = Inr st'"
  shows "accounted ext st st'"
proof -
  from assms(2) obtain u :: unlinkauth and st1 where "map_of (links (auth_tables st)) (ul_account u, ul_code u, ul_type u) \<noteq> None"
    and ram: "add_ram_usage (ul_account u) (- int billable_permission_link_object) st = Inr st1"
    and st': "st1\<lparr>auth_tables := (auth_tables st)\<lparr>links :=
      tab_remove (ul_account u, ul_code u, ul_type u) (links (auth_tables st))\<rparr>\<rparr> = st'"
    unfolding apply_unlinkauth_def require_authorization_def ebind_Inr eos_assert_Inr Let_def sum.inject by blast
  then obtain n where link: "map_of (links (auth_tables st)) (ul_account u, ul_code u, ul_type u) = Some n" by auto
  let ?db = "(auth_tables st)\<lparr>links := tab_remove (ul_account u, ul_code u, ul_type u) (links (auth_tables st))\<rparr>"
  have inv: "auth_inv (set (tab_keys (account_table st))) ?db"
    by (rule auth_inv_links [OF native_okD(4) [OF assms(1)] rows.remove_ok [OF auth_invD(3) [OF native_okD(4) [OF assms(1)]]]])
  have bytes: "billed ext (st\<lparr>auth_tables := ?db\<rparr>) a = billed ext st a + (if a = ul_account u then - int billable_permission_link_object else 0)" for a
    using billed_auth [of ext ?db st a]
      tab_sum_remove [OF link, of "\<lambda>k n. if fst k = a then billable_permission_link_object else 0"]
    by (simp add: permission_bytes_def link_bytes_def split: if_splits)
  have "add_ram_usage (ul_account u) (- int billable_permission_link_object) (st\<lparr>auth_tables := ?db\<rparr>) = Inr st'"
    unfolding st' [symmetric] by (rule add_ram_usage_auth [OF ram])
  from add_ram_usage_accounted [OF this native_ok_auth [OF assms(1) inv] bytes] show ?thesis by simp
qed

lemma linkauth_accounted:
  assumes "native_ok st" and "apply_linkauth ctl ext act st = Inr st'"
  shows "accounted ext st st'"
proof -
  from assms(2) obtain r :: linkauth where r: "(case map_of (links (auth_tables st)) (la_account r, la_code r, la_type r) of
       Some old \<Rightarrow> eos_assert (old \<noteq> la_requirement r) Action_validate_exception (Inr (st\<lparr>auth_tables :=
         (auth_tables st)\<lparr>links := tab_modify (la_account r, la_code r, la_type r) (la_requirement r) (links (auth_tables st))\<rparr>\<rparr>))
     | None \<Rightarrow> ebind (tab_create (la_account r, la_code r, la_type r) (la_requirement r) (links (auth_tables st))) (\<lambda>ls.
         add_ram_usage (la_account r) (int billable_permission_link_object)
           (st\<lparr>auth_tables := (auth_tables st)\<lparr>links := ls\<rparr>\<rparr>))) = Inr st'"
    by (auto simp: apply_linkauth_def require_authorization_def ebind_Inr eos_assert_Inr Let_def)
  note inv = native_okD(4) [OF assms(1)]
  show ?thesis
  proof (cases "map_of (links (auth_tables st)) (la_account r, la_code r, la_type r)")
    case (Some old)
    let ?ls = "tab_modify (la_account r, la_code r, la_type r) (la_requirement r) (links (auth_tables st))"
    from r Some have st': "st' = st\<lparr>auth_tables := (auth_tables st)\<lparr>links := ?ls\<rparr>\<rparr>" by (simp add: eos_assert_Inr)
    have "native_ok st'"
      unfolding st' by (intro native_ok_auth assms(1) auth_inv_links inv rows.modify_ok auth_invD(3) [OF inv])
    moreover have "billed ext st' a = billed ext st a" for a
      using billed_auth [of ext "(auth_tables st)\<lparr>links := ?ls\<rparr>" st a]
        tab_sum_modify [OF Some, of "\<lambda>k n. if fst k = a then billable_permission_link_object else 0" "la_requirement r"]
      by (simp add: st' permission_bytes_def link_bytes_def)
    ultimately show ?thesis by (simp add: accounted_def st')
  next
    case None
    with r obtain ls where ls: "tab_create (la_account r, la_code r, la_type r) (la_requirement r) (links (auth_tables st)) = Inr ls"
      and ram: "add_ram_usage (la_account r) (int billable_permission_link_object)
        (st\<lparr>auth_tables := (auth_tables st)\<lparr>links := ls\<rparr>\<rparr>) = Inr st'" by (auto simp: ebind_Inr)
    have "auth_inv (set (tab_keys (account_table st))) ((auth_tables st)\<lparr>links := ls\<rparr>)"
      by (rule auth_inv_links [OF inv rows.create_ok [OF ls auth_invD(3) [OF inv]]])
    moreover have "billed ext (st\<lparr>auth_tables := (auth_tables st)\<lparr>links := ls\<rparr>\<rparr>) a =
        billed ext st a + (if a = la_account r then int billable_permission_link_object else 0)" for a
      using billed_auth [of ext "(auth_tables st)\<lparr>links := ls\<rparr>" st a] ls
      by (auto simp: permission_bytes_def link_bytes_def tab_create_Inr)
    ultimately show ?thesis
      using add_ram_usage_accounted [OF ram native_ok_auth [OF assms(1)]] by simp
  qed
qed

lemma deleteauth_accounted:
  assumes "native_ok st" and "apply_deleteauth ext act st = Inr st'"
  shows "accounted ext st st'"
proof -
  note inv = native_okD(4) [OF assms(1)]
  from assms(2) obtain r :: deleteauth and ip db where names: "da_permission r \<noteq> active_name" "da_permission r \<noteq> owner_name"
    and "get_permission (auth_tables st) (da_account r, da_permission r) = Inr ip"
    and "remove_permission ip (auth_tables st) = Inr db"
    and "add_ram_usage (da_account r) (- permission_size ext (auth (snd ip))) (st\<lparr>auth_tables := db\<rparr>) = Inr st'"
    unfolding apply_deleteauth_def require_authorization_def ebind_Inr eos_assert_Inr by blast
  then obtain i p where get: "get_permission (auth_tables st) (da_account r, da_permission r) = Inr (i, p)"
    and rm: "remove_permission (i, p) (auth_tables st) = Inr db"
    and ram: "add_ram_usage (da_account r) (- permission_size ext (auth p)) (st\<lparr>auth_tables := db\<rparr>) = Inr st'"
    by (cases ip) auto
  from get have row: "map_of (permissions (auth_tables st)) i = Some p" "i \<noteq> 0"
    and p: "owner p = da_account r" "perm_name p = da_permission r"
    using get_permission_Inr [OF auth_invD(2) [OF inv]] by auto
  have db: "auth_inv (set (tab_keys (account_table st))) db"
    by (rule auth_inv_remove [OF inv row rm]) (use names p in auto)
  have perms: "permissions db = tab_remove i (permissions (auth_tables st))" "links db = links (auth_tables st)"
    using rm by (auto simp: remove_permission_def eos_assert_Inr ebind_Inr)
  have "billed ext (st\<lparr>auth_tables := db\<rparr>) a = billed ext st a + (if a = da_account r then - permission_size ext (auth p) else 0)" for a
    using billed_auth [of ext db st a] tab_sum_remove [OF row(1), of "\<lambda>i p. if owner p = a then
      billable_permission_object + get_billable_size (key_pack_size ext) (auth p) else 0"]
    by (auto simp: perms permission_bytes_def link_bytes_def p permission_size_def split: if_splits)
  from add_ram_usage_accounted [OF ram native_ok_auth [OF assms(1) db] this] show ?thesis by simp
qed

end
