(* ===== verification/Native_Accounting.thy ===== *)
theory Native_Accounting
  imports Native_Invariants
begin

text \<open>
  The native actions one by one: each keeps the invariant of the tables, and changes the memory
  usage of every account by what its rows have grown.
\<close>

section \<open>Changing and adding permissions\<close>

lemma permission_for_update:
  assumes "native_ok st" and "apply_updateauth ctl ext act st = Inr st'"
  obtains u :: updateauth and found parent_id q where
    "ua_account u \<in> set (tab_keys (account_table st))" "named_level (ua_account u, ua_permission u)"
    "found = find_by_owner (auth_tables st) (ua_account u) (ua_permission u)"
    "map_of (permissions (auth_tables st)) parent_id = Some q" "parent_id = 0 \<or> owner q = ua_account u"
    "ua_permission u = owner_name \<longleftrightarrow> parent_id = 0"
    "update_permission ctl ext u parent_id found st = Inr st'"
proof -
  note inv = native_okD(4) [OF assms(1)]
  from assms(2) obtain u :: updateauth and x found parent_id where
    perm: "ua_permission u \<noteq> 0" and acc: "tab_get (account_table st) (ua_account u) = Inr x"
    and found: "find_permission (auth_tables st) (ua_account u, ua_permission u) = Inr found"
    and par: "(if ua_permission u \<noteq> owner_name
            then ebind (get_permission (auth_tables st) (ua_account u, ua_parent u)) (\<lambda>p. Inr (fst p))
            else Inr 0) = Inr parent_id"
    and upd: "update_permission ctl ext u parent_id found st = Inr st'"
    unfolding apply_updateauth_def require_authorization_def ebind_Inr [of "data_as _ _ _ _"]
      ebind_Inr [of "tab_get _ _"] ebind_Inr [of "validate_authority_precondition _ _ _"]
      ebind_Inr [of "find_permission _ _"] ebind_Inr [of "If _ _ _"] eos_assert_Inr by blast
  from acc have a: "ua_account u \<in> set (tab_keys (account_table st))"
    by (auto simp: tab_get_def from_some_Inr dest!: map_of_SomeD intro: rev_image_eqI)
  have "ua_account u \<noteq> 0" using a auth_invD(4) [OF inv] by metis
  with perm have named: "named_level (ua_account u, ua_permission u)" by (simp add: named_level_def)
  have f: "found = find_by_owner (auth_tables st) (ua_account u) (ua_permission u)"
    using found by (simp add: find_permission_def rethrow_as_Inr eos_assert_Inr)
  show thesis
  proof (cases "ua_permission u = owner_name")
    case True
    with par have "parent_id = 0" by simp
    with True perm_root [OF auth_invD(2) [OF inv]] show thesis
      using that [OF a named f _ _ _ upd] by blast
  next
    case False
    with par obtain q where "get_permission (auth_tables st) (ua_account u, ua_parent u) = Inr (parent_id, q)"
      by (auto simp: ebind_Inr)
    then have "parent_id \<noteq> 0" "map_of (permissions (auth_tables st)) parent_id = Some q" "owner q = ua_account u"
      using get_permission_Inr [OF auth_invD(2) [OF inv]] by auto
    with False show thesis using that [OF a named f _ _ _ upd] by blast
  qed
qed

lemma updateauth_accounted:
  assumes "native_ok st" and "apply_updateauth ctl ext act st = Inr st'"
  shows "accounted ext st st'"
proof (rule permission_for_update [OF assms])
  fix u :: updateauth and found parent_id q
  assume a: "ua_account u \<in> set (tab_keys (account_table st))" and named: "named_level (ua_account u, ua_permission u)"
    and found: "found = find_by_owner (auth_tables st) (ua_account u) (ua_permission u)"
    and par: "map_of (permissions (auth_tables st)) parent_id = Some q" "parent_id = 0 \<or> owner q = ua_account u"
      "ua_permission u = owner_name \<longleftrightarrow> parent_id = 0"
    and upd: "update_permission ctl ext u parent_id found st = Inr st'"
  note inv = native_okD(4) [OF assms(1)]
  let ?f = "\<lambda>a i p. if owner p = a then billable_permission_object + get_billable_size (key_pack_size ext) (auth p) else 0"
  show "accounted ext st st'"
  proof (cases found)
    case None
    with upd obtain i db where new: "create_permission (block_time ctl) (ua_account u) (ua_permission u) parent_id
        (ua_auth u) 0 (auth_tables st) = Inr (i, db)"
      and ram: "add_ram_usage (ua_account u) (permission_size ext (ua_auth u)) (st\<lparr>auth_tables := db\<rparr>) = Inr st'"
      by (auto simp: update_permission_def ebind_Inr)
    have db: "auth_inv (set (tab_keys (account_table st))) db"
      using auth_inv_create [OF inv named new par(1,2,3)] unfolding insert_absorb [OF a] by blast
    have rows: "permissions db = permissions (auth_tables st) @ [(i, \<lparr>usage_id = next_usage (auth_tables st),
        parent = parent_id, owner = ua_account u, perm_name = ua_permission u, last_updated = block_time ctl,
        auth = ua_auth u\<rparr>)]" "links db = links (auth_tables st)"
      using new by (auto simp: create_permission_eq Let_def split: if_splits)
    have "billed ext (st\<lparr>auth_tables := db\<rparr>) a = billed ext st a + (if a = ua_account u then permission_size ext (ua_auth u) else 0)" for a
      using billed_auth [of ext db st a]
      by (auto simp: rows permission_bytes_def link_bytes_def permission_size_def split: if_splits)
    from add_ram_usage_accounted [OF ram native_ok_auth [OF assms(1) db] this] show ?thesis by simp
  next
    case (Some ip)
    then obtain i p where ip: "found = Some (i, p)" by (cases ip) simp
    with found have "find_by_owner (auth_tables st) (ua_account u) (ua_permission u) = Some (i, p)" by simp
    then have row: "map_of (permissions (auth_tables st)) i = Some p" "owner p = ua_account u"
      unfolding find_by_owner_Some [OF auth_invD(2) [OF inv]] by simp_all
    let ?db = "modify_permission (block_time ctl) (i, p) (ua_auth u) (auth_tables st)"
    from upd ip have ram: "add_ram_usage (ua_account u) (permission_size ext (ua_auth u) - permission_size ext (auth p))
        (st\<lparr>auth_tables := ?db\<rparr>) = Inr st'"
      by (simp add: update_permission_def eos_assert_Inr row)
    have "billed ext (st\<lparr>auth_tables := ?db\<rparr>) a = billed ext st a +
        (if a = ua_account u then permission_size ext (ua_auth u) - permission_size ext (auth p) else 0)" for a
      using billed_auth [of ext ?db st a] tab_sum_modify [OF row(1), of "?f a" "p\<lparr>auth := ua_auth u, last_updated := block_time ctl\<rparr>"]
      by (auto simp: modify_permission_def permission_bytes_def link_bytes_def permission_size_def row split: if_splits)
    from add_ram_usage_accounted [OF ram native_ok_auth [OF assms(1) auth_inv_modify [OF inv row(1)]] this]
    show ?thesis by simp
  qed
qed

section \<open>New accounts\<close>

lemma auth_inv_new_account:
  assumes inv: "auth_inv accs db" and acc: "account \<noteq> 0"
    and c1: "create_permission now account owner_name 0 o1 0 db = Inr (i, db1)"
    and c2: "create_permission now account active_name i o2 0 db1 = Inr (j, db2)"
  shows "auth_inv (insert account accs) db2"
proof -
  obtain r where r: "map_of (permissions db) 0 = Some r" using perm_root [OF auth_invD(2) [OF inv]] by blast
  have n: "named_level (account, owner_name)" "named_level (account, active_name)"
    using acc by (simp_all add: named_level_def permission_constant_values)
  note p1 = create_permission_Inr [OF auth_invD(1) [OF inv] n(1) c1 r disjI1 [OF refl]]
  let ?p1 = "\<lparr>usage_id = next_usage db, parent = 0, owner = account, perm_name = owner_name,
    last_updated = (if 0 = (0 :: time_point) then now else 0), auth = o1\<rparr>"
  have row1: "map_of (permissions db1) i = Some ?p1" by (simp add: p1(6))
  note p2 = create_permission_Inr [OF p1(1) n(2) c2 row1, simplified]
  have ij: "i < j" using perm_id_less [OF _ row1] p1(1) p2(3) by (simp add: perms_ok_def)
  have tree: "perm_tree_ok db2" using p2(1) by (simp add: perms_ok_def)
  have row2: "map_of (permissions db2) j = Some \<lparr>usage_id = next_usage db1, parent = i, owner = account,
      perm_name = active_name, last_updated = now, auth = o2\<rparr>" by (simp add: p2(6))
  have old: "map_of (permissions db2) k = map_of (permissions db) k" if "k \<noteq> i" "k \<noteq> j" for k
    using that by (simp add: p1(6) p2(6))
  have keep: "find_by_owner db2 b m \<noteq> None" if "find_by_owner db b m \<noteq> None" for b m
  proof -
    from that obtain k q where q: "map_of (permissions db) k = Some q" "owner q = b" "perm_name q = m"
      unfolding find_by_owner_ex [OF auth_invD(2) [OF inv]] by blast
    with perm_id_less [OF auth_invD(2) [OF inv] q(1)] p1(3) ij old [of k] show ?thesis
      unfolding find_by_owner_ex [OF tree] by auto
  qed
  have own: "find_by_owner db2 account owner_name \<noteq> None" "find_by_owner db2 account active_name \<noteq> None"
    unfolding find_by_owner_ex [OF tree] using row1 row2 ij by (auto simp: p2(6))
  have row: "owner q \<in> insert account accs \<and> (perm_name q = owner_name \<longleftrightarrow> parent q = 0)"
    if "map_of (permissions db2) k = Some q" "k \<noteq> 0" for k q
    using that auth_invD(7,8) [OF inv, of k q] old [of k] row1 row2 p1(4) ij
    by (cases "k = j"; cases "k = i") (auto simp: p2(6) permission_constant_values)
  show ?thesis
  proof (rule auth_invI)
    show "perms_ok db2" by (rule p2(1))
    show "tab_ok (links db2)" using p2(5) p1(5) auth_invD(3) [OF inv] by simp
    show "0 \<notin> insert account accs" using acc auth_invD(4) [OF inv] by simp
  qed (use row own keep auth_invD(5,6) [OF inv] in \<open>blast+\<close>)
qed

lemma code_inv_cong: "code_refs metas' = code_refs metas \<Longrightarrow> code_inv metas' codes = code_inv metas codes"
  by (simp only: code_inv_def)

lemma new_account_tables:
  assumes ok: "native_ok st" and new: "tab_create n x (account_table st) = Inr accs"
    and met: "tab_create n new_metadata (metadata_table st) = Inr metas"
    and db: "auth_inv (insert n (set (tab_keys (account_table st)))) db"
    and res: "initialize_account n (resources st) = Inr r"
  shows "native_ok (st\<lparr>account_table := accs, metadata_table := metas, auth_tables := db,
    system := (system st)\<lparr>sys_resources := r\<rparr>\<rparr>)"
proof -
  note o = native_okD [OF ok]
  from new met have tabs: "accs = account_table st @ [(n, x)]" "metas = metadata_table st @ [(n, new_metadata)]"
    by (simp_all add: tab_create_Inr)
  have "code_refs metas = code_refs (metadata_table st)"
    by (rule ext) (simp add: tabs code_refs_def runs_code_def new_metadata_def)
  from o(5) code_inv_cong [OF this] have code: "code_inv metas (code_table st)" by blast
  from res obtain ls us where us: "tab_create n new_usage (account_usage (resources st)) = Inr us"
    and r: "r = (resources st)\<lparr>account_limits := ls, account_usage := us\<rparr>"
    by (auto simp: initialize_account_def ebind_Inr)
  then have keys: "set (tab_keys (account_usage r)) = insert n (set (tab_keys (account_usage (resources st))))"
    by (auto simp: tab_create_Inr)
  have sys: "system_ok ((system st)\<lparr>sys_resources := r\<rparr>)" using o(7) by (simp add: system_ok_def r)
  have k: "set (tab_keys accs) = insert n (set (tab_keys (account_table st)))"
    "set (tab_keys metas) = insert n (set (tab_keys (metadata_table st)))" by (auto simp: tabs)
  show ?thesis
    unfolding native_ok_def
    using rows.create_ok [OF new o(1)] rows.create_ok [OF met o(2)] code keys k sys o(3,8) db
      initialize_account_inv [OF o(6) res] by (intro conjI) simp_all
qed

lemma new_account_bytes:
  assumes new: "tab_create n x (account_table st) = Inr accs"
    and met: "tab_create n new_metadata (metadata_table st) = Inr metas"
    and x: "abi x = []" and met0: "map_of (metadata_table st) n = None"
    and c1: "create_permission now n owner_name 0 o1 0 (auth_tables st) = Inr (i, db1)"
    and c2: "create_permission now n active_name i o2 0 db1 = Inr (j, db2)"
  shows "billed ext (st\<lparr>account_table := accs, metadata_table := metas, auth_tables := db2, system := s\<rparr>) a = billed ext st a +
    (if a = n then int overhead_per_account_ram_bytes + 2 * int billable_permission_object +
      int (get_billable_size (key_pack_size ext) o1) + int (get_billable_size (key_pack_size ext) o2) else 0)"
proof -
  let ?st = "st\<lparr>account_table := accs, metadata_table := metas, auth_tables := db2, system := s\<rparr>"
  have acc0: "map_of (account_table st) n = None" using new by (auto simp: tab_create_def split: if_splits)
  have rows: "permissions db2 = permissions (auth_tables st) @
      [(i, \<lparr>usage_id = next_usage (auth_tables st), parent = 0, owner = n, perm_name = owner_name, last_updated = now, auth = o1\<rparr>),
       (j, \<lparr>usage_id = next_usage db1, parent = i, owner = n, perm_name = active_name, last_updated = now, auth = o2\<rparr>)]"
    "links db2 = links (auth_tables st)"
    using c1 c2 by (auto simp: create_permission_eq Let_def split: if_splits)
  have "permission_bytes ext ?st a = permission_bytes ext st a + (if a = n then 2 * billable_permission_object +
      get_billable_size (key_pack_size ext) o1 + get_billable_size (key_pack_size ext) o2 else 0)"
    by (auto simp: permission_bytes_def rows)
  moreover have "link_bytes ?st a = link_bytes st a" "deferred_bytes ?st a = deferred_bytes st a"
    by (simp_all add: link_bytes_def rows deferred_bytes_def)
  moreover have "code_bytes ?st m = code_bytes st m" for m by (simp add: code_bytes_def cong: if_cong option.case_cong)
  then have "account_bytes ?st a = account_bytes st a + (if a = n then overhead_per_account_ram_bytes else 0)"
    using rows.create_find [OF new, of a] rows.create_find [OF met, of a] acc0 met0 x
    by (auto simp: account_bytes_def code_bytes_def new_metadata_def cong: if_cong option.case_cong)
  ultimately show ?thesis by (simp add: billed_def)
qed

lemma ram_of_new_account:
  assumes "initialize_account n (resources st) = Inr r"
  shows "ram_of (st\<lparr>account_table := accs, metadata_table := metas, auth_tables := db, system := (system st)\<lparr>sys_resources := r\<rparr>\<rparr>) = ram_of st"
proof -
  from assms obtain ls us where us: "tab_create n new_usage (account_usage (resources st)) = Inr us"
    and r: "r = (resources st)\<lparr>account_limits := ls, account_usage := us\<rparr>"
    by (auto simp: initialize_account_def ebind_Inr)
  have "map_of (account_usage (resources st)) n = None" using us by (auto simp: tab_create_def split: if_splits)
  then show ?thesis
    using rows.create_find [OF us] by (auto simp: fun_eq_iff ram_of_def r new_usage_def split: option.splits)
qed

lemma newaccount_accounted:
  assumes "native_ok st" and "apply_newaccount ctl ext act st = Inr st'"
  shows "accounted ext st st'"
proof -
  let ?x = "\<lparr>creation_date = set_time_point (block_interval ctl) block_timestamp_epoch (block_time ctl), abi = []\<rparr>"
  from assms(2) obtain c :: newaccount and accs metas i db1 j db2 r where n: "na_name c \<noteq> 0"
    and new: "tab_create (na_name c) ?x (account_table st) = Inr accs"
    and met: "tab_create (na_name c) new_metadata (metadata_table st) = Inr metas"
    and c1: "create_permission (block_time ctl) (na_name c) owner_name 0 (na_owner c) 0 (auth_tables st) = Inr (i, db1)"
    and c2: "create_permission (block_time ctl) (na_name c) active_name i (na_active c) 0 db1 = Inr (j, db2)"
    and res: "initialize_account (na_name c) (resources st) = Inr r"
    and ram: "add_ram_usage (na_name c)
       (int overhead_per_account_ram_bytes + 2 * int billable_permission_object +
        int (get_billable_size (key_pack_size ext) (na_owner c)) +
        int (get_billable_size (key_pack_size ext) (na_active c)))
       (st\<lparr>account_table := accs, metadata_table := metas, auth_tables := db2, system := (system st)\<lparr>sys_resources := r\<rparr>\<rparr>) = Inr st'"
    by (auto simp: apply_newaccount_def require_authorization_def ebind_Inr eos_assert_Inr Let_def)
  note ok1 = new_account_tables [OF assms(1) new met auth_inv_new_account [OF native_okD(4) [OF assms(1)] n c1 c2] res]
  have "map_of (metadata_table st) (na_name c) = None" using met by (auto simp: tab_create_def split: if_splits)
  from add_ram_usage_accounted [OF ram ok1 new_account_bytes [OF new met _ this c1 c2] ram_of_new_account [OF res]]
  show ?thesis by simp
qed

section \<open>Fees, configuration and deferred transactions\<close>

lemma code_bytes_cong: "code_table st' = code_table st \<Longrightarrow> code_bytes st' = code_bytes st"
  by (simp add: fun_eq_iff code_bytes_def)

lemma account_bytes_cong:
  assumes "account_table st' = account_table st" and "metadata_table st' = metadata_table st"
    and "code_table st' = code_table st"
  shows "account_bytes st' = account_bytes st"
  unfolding account_bytes_def fun_eq_iff code_bytes_cong [OF assms(3)] assms by simp

lemma billed_cong:
  assumes "auth_tables st' = auth_tables st" and "account_table st' = account_table st"
    and "metadata_table st' = metadata_table st" and "code_table st' = code_table st"
    and "generated_table st' = generated_table st"
  shows "billed ext st' = billed ext st"
  unfolding billed_def permission_bytes_def link_bytes_def deferred_bytes_def fun_eq_iff
    account_bytes_cong [OF assms(2-4)] assms by simp

lemma setfee_accounted:
  assumes "native_ok st" and "apply_setfee ext act st = Inr st'"
  shows "accounted ext st st'"
proof -
  from assms(2) obtain t where st': "st' = st\<lparr>fee_rows := t\<rparr>"
    by (auto simp: apply_setfee_def Let_def ebind_Inr eos_assert_Inr split: option.splits)
  have "billed ext st' = billed ext st" by (rule billed_cong) (simp_all add: st')
  moreover have "native_ok st'" using native_okD [OF assms(1)] unfolding native_ok_def by (simp add: st')
  ultimately show ?thesis by (simp add: accounted_def ram_of_def st')
qed

lemma setconfig_accounted:
  assumes "native_ok st" and "apply_setconfig_action ext act st = Inr st'"
  shows "accounted ext st st'"
proof -
  from assms(2) obtain cfg s where cfg: "apply_setconfig (map fst (authorization act)) cfg (system st) = Inr s"
    and st': "st' = st\<lparr>system := s\<rparr>"
    by (auto simp: apply_setconfig_action_def ebind_Inr)
  from apply_setconfig_frame [OF cfg] obtain cs g where
    r: "sys_resources s = (resources st)\<lparr>chain_configs := cs, gmr_config := g\<rparr>" by blast
  have "resource_inv (sys_resources s) = resource_inv (resources st)"
    unfolding resource_inv_def using limits_ok_cong [of "sys_resources s" "resources st"]
      usage_ok_cong [of "sys_resources s" "resources st"] by (simp add: r)
  moreover have "system_ok s" using apply_setconfig_result [OF native_okD(7) [OF assms(1)] cfg] by blast
  ultimately have "native_ok st'"
    using native_okD [OF assms(1)] unfolding native_ok_def by (simp add: st' r)
  moreover have "billed ext st' = billed ext st" by (rule billed_cong) (simp_all add: st')
  ultimately show ?thesis by (simp add: accounted_def ram_of_def st' r)
qed

lemma canceldelay_accounted:
  assumes "native_ok st" and "apply_canceldelay ext act st = Inr st'"
  shows "accounted ext st st'"
proof -
  from assms(2) obtain sid b where c: "cancel_deferred_transaction sid 0 st = Inr (b, st')"
    by (auto simp: apply_canceldelay_def require_authorization_def ebind_Inr eos_assert_Inr)
  show ?thesis
  proof (cases "find (\<lambda>g. gto_sender g = 0 \<and> gto_sender_id g = sid) (generated_table st)")
    case None
    with c assms(1) show ?thesis by (simp add: cancel_deferred_transaction_def accounted_def)
  next
    case (Some g)
    let ?d = "- int (billable_generated_transaction_object + length (packed_trx g))"
    let ?st = "st\<lparr>generated_table := remove1 g (generated_table st)\<rparr>"
    from c Some obtain st1 where ram: "add_ram_usage (gto_payer g) ?d st = Inr st1"
      and st': "st' = st1\<lparr>generated_table := remove1 g (generated_table st1)\<rparr>"
      by (auto simp: cancel_deferred_transaction_def ebind_Inr)
    have ram': "add_ram_usage (gto_payer g) ?d ?st = Inr st'"
      using ram by (cases "add_pending_ram_usage (gto_payer g) ?d (resources st)") (auto simp: st' add_ram_usage_def)
    from Some have g: "g \<in> set (generated_table st)" by (auto simp: find_Some_iff)
    have "account_bytes ?st = account_bytes st" by (rule account_bytes_cong) simp_all
    then have "billed ext ?st a = billed ext st a + (if a = gto_payer g then ?d else 0)" for a
      using sum_list_map_remove1 [OF g, of "\<lambda>g. if gto_payer g = a then
        billable_generated_transaction_object + length (packed_trx g) else 0"]
      by (auto simp: billed_def permission_bytes_def link_bytes_def deferred_bytes_def split: if_splits)
    moreover have "native_ok ?st" using native_okD [OF assms(1)] unfolding native_ok_def by simp
    moreover have "ram_of ?st = ram_of st" by (simp add: fun_eq_iff ram_of_def)
    ultimately show ?thesis using add_ram_usage_accounted [OF ram'] by blast
  qed
qed

section \<open>Contract interface and code\<close>

lemma conditional_ram:
  assumes "(if x \<noteq> y then add_ram_usage b (x - y) st else Inr st) = Inr st'" and "native_ok st"
    and "\<And>a. billed ext st a = billed ext st0 a + (if a = b then x - y else 0)" and "ram_of st = ram_of st0"
  shows "accounted ext st0 st'"
proof (cases "x = y")
  case True
  with assms show ?thesis by (simp add: accounted_def)
next
  case False
  with assms(1) have "add_ram_usage b (x - y) st = Inr st'" by simp
  then show ?thesis using assms(2-4) by (rule add_ram_usage_accounted)
qed

lemma code_refs_modify:
  "map_of metas a = Some m \<Longrightarrow>
     code_refs (tab_modify a m' metas) k + (if runs_code k m then 1 else 0) =
     code_refs metas k + (if runs_code k m' then 1 else 0)"
  unfolding code_refs_def by (rule tab_sum_modify)

lemma setabi_accounted:
  assumes "native_ok st" and "apply_setabi ext act st = Inr st'"
  shows "accounted ext st st'"
proof -
  note o = native_okD [OF assms(1)]
  have abi: "(if xs \<noteq> [] then xs else []) = xs" for xs :: bytes by simp
  from assms(2) obtain c :: setabi and x m where x: "map_of (account_table st) (sa_account c) = Some x"
    and m: "map_of (metadata_table st) (sa_account c) = Some m"
    and "(if length (sa_abi c) \<noteq> length (abi x) then
        add_ram_usage (sa_account c) (int (length (sa_abi c)) - int (length (abi x)))
          (st\<lparr>account_table := tab_modify (sa_account c) (x\<lparr>abi := sa_abi c\<rparr>) (account_table st),
             metadata_table := tab_modify (sa_account c) (m\<lparr>abi_sequence := wrap64 (Suc (abi_sequence m))\<rparr>) (metadata_table st)\<rparr>)
       else Inr (st\<lparr>account_table := tab_modify (sa_account c) (x\<lparr>abi := sa_abi c\<rparr>) (account_table st),
             metadata_table := tab_modify (sa_account c) (m\<lparr>abi_sequence := wrap64 (Suc (abi_sequence m))\<rparr>) (metadata_table st)\<rparr>)) = Inr st'"
    by (auto simp: apply_setabi_def require_authorization_def ebind_Inr eos_assert_Inr Let_def tab_get_def from_some_Inr
        abi cong: if_cong)
  then have st': "(if int (length (sa_abi c)) \<noteq> int (length (abi x)) then
        add_ram_usage (sa_account c) (int (length (sa_abi c)) - int (length (abi x)))
          (st\<lparr>account_table := tab_modify (sa_account c) (x\<lparr>abi := sa_abi c\<rparr>) (account_table st),
             metadata_table := tab_modify (sa_account c) (m\<lparr>abi_sequence := wrap64 (abi_sequence m + 1)\<rparr>) (metadata_table st)\<rparr>)
       else Inr (st\<lparr>account_table := tab_modify (sa_account c) (x\<lparr>abi := sa_abi c\<rparr>) (account_table st),
             metadata_table := tab_modify (sa_account c) (m\<lparr>abi_sequence := wrap64 (abi_sequence m + 1)\<rparr>) (metadata_table st)\<rparr>)) = Inr st'"
    by (simp only: of_nat_eq_iff Suc_eq_plus1)
  let ?m = "m\<lparr>abi_sequence := wrap64 (abi_sequence m + 1)\<rparr>"
  let ?st = "st\<lparr>account_table := tab_modify (sa_account c) (x\<lparr>abi := sa_abi c\<rparr>) (account_table st),
     metadata_table := tab_modify (sa_account c) ?m (metadata_table st)\<rparr>"
  have run: "runs_code k ?m = runs_code k m" for k by (simp add: runs_code_def code_key_def)
  have refs: "code_refs (tab_modify (sa_account c) ?m (metadata_table st)) = code_refs (metadata_table st)"
  proof (rule ext)
    fix k
    show "code_refs (tab_modify (sa_account c) ?m (metadata_table st)) k = code_refs (metadata_table st) k"
      using code_refs_modify [OF m, of ?m k] unfolding run by simp
  qed
  have "code_inv (tab_modify (sa_account c) ?m (metadata_table st)) (code_table st)"
    using o(5) code_inv_cong [OF refs] by blast
  then have ok: "native_ok ?st"
    using o rows.modify_ok [OF o(1)] rows.modify_ok [OF o(2)] unfolding native_ok_def by simp
  have cb: "code_bytes ?st = code_bytes st" by (rule code_bytes_cong) simp
  have cbm: "code_bytes st (m\<lparr>abi_sequence := n\<rparr>) = code_bytes st m" for n by (simp add: code_bytes_def code_key_def)
  have "account_bytes ?st a + (if a = sa_account c then length (abi x) else 0) =
      account_bytes st a + (if a = sa_account c then length (sa_abi c) else 0)" for a
    using x m unfolding account_bytes_def cb by (simp add: tab_modify_find cbm)
  then have "billed ext ?st a = billed ext st a +
      (if a = sa_account c then int (length (sa_abi c)) - int (length (abi x)) else 0)" for a
    by (force simp: billed_def permission_bytes_def link_bytes_def deferred_bytes_def split: if_splits)
  moreover have "ram_of ?st = ram_of st" by (simp add: fun_eq_iff ram_of_def)
  ultimately show ?thesis using conditional_ram [OF st' ok] by blast
qed

text \<open>
  The digest of contract code: not null, and different from the digests of other code that is in
  the table. This is all the code relies on.
\<close>

definition digest_ok :: "externals \<Rightarrow> action \<Rightarrow> native_state \<Rightarrow> bool" where
  "digest_ok ext act st \<longleftrightarrow> (\<forall>c. unpack_setcode ext (act_data act) = Inr c \<longrightarrow> sc_code c \<noteq> [] \<longrightarrow>
     code_digest ext (sc_code c) \<noteq> null_digest \<and>
     (\<forall>e. map_of (code_table st) (code_digest ext (sc_code c), 0, 0) = Some e \<longrightarrow> code e = sc_code c))"

lemma code_refs_bound:
  assumes "tab_ok metas" and "0 \<notin> set (tab_keys metas)"
  shows "code_refs metas k < 2 ^ 64"
proof -
  have "code_refs metas k \<le> length metas"
    unfolding code_refs_def tab_sum_def by (induction metas) auto
  also have "\<dots> = card (set (tab_keys metas))" using assms(1) distinct_card [of "tab_keys metas"] by (simp add: tab_ok_def)
  also have "\<dots> < card (UNIV :: name set)"
    using assms(2) by (intro psubset_card_mono) auto
  also have "\<dots> = 2 ^ 64" by (simp add: card_word)
  finally show ?thesis .
qed

lemma code_invD:
  assumes "code_inv metas codes"
  shows "tab_ok codes" "map_of codes k = None \<Longrightarrow> code_refs metas k = 0"
    "map_of codes k = Some e \<Longrightarrow> code_ref_count e = code_refs metas k"
    "map_of codes k = Some e \<Longrightarrow> 0 < code_refs metas k"
proof -
  show "tab_ok codes" using assms by (simp add: code_inv_def)
  have k: "case map_of codes k of None \<Rightarrow> code_refs metas k = 0
      | Some e \<Rightarrow> code_ref_count e = code_refs metas k \<and> 0 < code_refs metas k"
    using assms unfolding code_inv_def by blast
  then show "map_of codes k = None \<Longrightarrow> code_refs metas k = 0"
    "map_of codes k = Some e \<Longrightarrow> code_ref_count e = code_refs metas k"
    "map_of codes k = Some e \<Longrightarrow> 0 < code_refs metas k" by simp_all
qed

lemma runs_code_entry:
  assumes "code_inv metas codes" and "map_of metas a = Some m" and "code_hash m \<noteq> null_digest"
  shows "\<exists>e. map_of codes (code_key m) = Some e"
proof (rule ccontr)
  assume "\<nexists>e. map_of codes (code_key m) = Some e"
  then have "code_refs metas (code_key m) = 0" by (intro code_invD(2) [OF assms(1)]) (cases "map_of codes (code_key m)"; simp)
  moreover have "1 \<le> code_refs metas (code_key m)"
    using tab_sum_ge [OF assms(2), of "\<lambda>a m'. if runs_code (code_key m) m' then 1 else 0"] assms(3)
    by (simp add: code_refs_def runs_code_def)
  ultimately show False by simp
qed

text \<open>Two accounts with the same code count twice.\<close>

lemma code_refs_two:
  assumes "map_of metas a = Some m" and "map_of metas b = Some m'" and "a \<noteq> b"
    and "runs_code k m" and "runs_code k m'"
  shows "2 \<le> code_refs metas k"
  using assms
proof (induction metas)
  case (Cons x xs)
  then show ?case
    using tab_sum_ge [of xs b m' "\<lambda>a m. if runs_code k m then 1 else 0"]
      tab_sum_ge [of xs a m "\<lambda>a m. if runs_code k m then 1 else 0"]
    by (cases x) (auto simp: code_refs_def split: if_splits)
qed simp

section \<open>Replacing the code of an account\<close>

text \<open>The table after the old code has lost a reference and the new code has gained one.\<close>

definition swapped ::
  "(sha256 \<times> nat \<times> nat) option \<Rightarrow> (sha256 \<times> nat \<times> nat) option \<Rightarrow> code_object \<Rightarrow>
    (sha256 \<times> nat \<times> nat \<Rightarrow> code_object option) \<Rightarrow> sha256 \<times> nat \<times> nat \<Rightarrow> code_object option" where
  "swapped old new fresh codes k =
     (if new = Some k then
        Some (case codes k of Some e \<Rightarrow> e\<lparr>code_ref_count := wrap64 (code_ref_count e + 1)\<rparr> | None \<Rightarrow> fresh)
      else if old = Some k then
        (case codes k of Some e \<Rightarrow> if code_ref_count e = 1 then None
           else Some (e\<lparr>code_ref_count := sub64 (code_ref_count e) 1\<rparr>) | None \<Rightarrow> None)
      else codes k)"

definition running :: "account_metadata_object \<Rightarrow> (sha256 \<times> nat \<times> nat) option" where
  "running m = (if code_hash m = null_digest then None else Some (code_key m))"

lemma runs_running: "runs_code k m \<longleftrightarrow> running m = Some k"
  by (simp add: runs_code_def running_def)

lemma code_inv_swapped:
  assumes inv: "code_inv metas codes" and ok: "tab_ok metas" "0 \<notin> set (tab_keys metas)"
    and m: "map_of metas a = Some m" and diff: "running m' \<noteq> None \<Longrightarrow> running m' \<noteq> running m"
    and fresh: "code_ref_count fresh = 1" and tab: "tab_ok codes'"
    and codes': "map_of codes' = swapped (running m) (running m') fresh (map_of codes)"
  shows "code_inv (tab_modify a m' metas) codes'"
proof -
  let ?metas = "tab_modify a m' metas"
  have bound: "code_refs ?metas k < 2 ^ 64" "code_refs metas k < 2 ^ 64" for k
    using code_refs_bound [OF rows.modify_ok [OF ok(1)], of a m' k] code_refs_bound [OF ok, of k] ok(2) by simp_all
  have "case map_of codes' k of None \<Rightarrow> code_refs ?metas k = 0
      | Some e \<Rightarrow> code_ref_count e = code_refs ?metas k \<and> 0 < code_refs ?metas k" for k
  proof -
    have refs: "code_refs ?metas k + (if running m = Some k then 1 else 0) =
        code_refs metas k + (if running m' = Some k then 1 else 0)"
      using code_refs_modify [OF m, of m' k] by (simp only: runs_running)
    consider (new) "running m' = Some k" "running m \<noteq> Some k" | (old) "running m = Some k" "running m' \<noteq> Some k"
      | (same) "running m \<noteq> Some k" "running m' \<noteq> Some k"
      using diff by (cases "running m' = Some k"; cases "running m = Some k") auto
    then show ?thesis
    proof cases
      case new
      with refs have r: "code_refs ?metas k = code_refs metas k + 1" by simp
      show ?thesis
        using new(1) r bound(1) [of k] code_invD(2,3) [OF inv, of k] fresh
        by (cases "map_of codes k") (simp_all add: codes' swapped_def)
    next
      case old
      with refs have r: "code_refs metas k = code_refs ?metas k + 1" by simp
      then obtain e where e: "map_of codes k = Some e" using code_invD(2) [OF inv, of k] by (cases "map_of codes k") auto
      from code_invD(3) [OF inv e] r have c: "code_ref_count e = code_refs ?metas k + 1" by simp
      show ?thesis
        using old e c bound(2) [of k] r by (simp add: codes' swapped_def sub64_id)
    next
      case same
      with refs have "code_refs ?metas k = code_refs metas k" by simp
      with same code_invD(2-4) [OF inv, of k] show ?thesis
        by (cases "map_of codes k") (simp_all add: codes' swapped_def)
    qed
  qed
  with tab show ?thesis unfolding code_inv_def by blast
qed

text \<open>Other accounts keep their code; the lengths of entries never change.\<close>

lemma swapped_length:
  assumes inv: "code_inv metas codes" and m: "map_of metas a = Some m" and b: "map_of metas b = Some mb" "a \<noteq> b"
    and run: "running mb = Some k"
  shows "\<exists>e e'. map_of codes k = Some e \<and> swapped (running m) new fresh (map_of codes) k = Some e' \<and> code e' = code e"
proof -
  have "code_hash mb \<noteq> null_digest" "k = code_key mb" using run by (auto simp: running_def split: if_splits)
  with runs_code_entry [OF inv b(1)] obtain e where e: "map_of codes k = Some e" by auto
  have "code_ref_count e \<noteq> 1" if "running m = Some k"
    using code_refs_two [OF m b, of k] that run code_invD(3) [OF inv e] by (simp add: runs_running)
  with e show ?thesis by (auto simp: swapped_def)
qed

lemma code_tables_swapped:
  assumes "native_ok st" and m: "map_of (metadata_table st) (sc_account c) = Some m"
    and rel: "(if code_hash m \<noteq> null_digest then release_code ctl m hash st else Inr (0, st)) = Inr (old_size, st1)"
    and ref: "(if sc_code c \<noteq> [] then reference_code ctl c hash st1 else Inr st1) = Inr st2"
  obtains codes used fresh where "st2 = st\<lparr>code_table := codes, code_last_used := used\<rparr>" "tab_ok codes"
    "map_of codes = swapped (running m) (if sc_code c \<noteq> [] then Some (hash, sc_vmtype c, sc_vmversion c) else None)
       fresh (map_of (code_table st))"
    "code_ref_count fresh = 1" "code fresh = sc_code c"
    "old_size = int (code_bytes st m) * int setcode_ram_bytes_multiplier"
    "code_hash m \<noteq> null_digest \<Longrightarrow> code_hash m \<noteq> hash"
proof -
  note inv = native_okD(5) [OF assms(1)]
  note tab = code_invD(1) [OF inv]
  let ?fresh = "\<lparr>code = sc_code c, code_ref_count = 1, first_block_used = wrap32 (head_block_num ctl + 1)\<rparr>"
  let ?new = "(hash, sc_vmtype c, sc_vmversion c)"
  have "\<exists>codes used. st1 = st\<lparr>code_table := codes, code_last_used := used\<rparr> \<and> tab_ok codes \<and>
      map_of codes = swapped (running m) None ?fresh (map_of (code_table st)) \<and>
      old_size = int (code_bytes st m) * int setcode_ram_bytes_multiplier \<and>
      (code_hash m \<noteq> null_digest \<longrightarrow> code_hash m \<noteq> hash)"
  proof (cases "code_hash m = null_digest")
    case True
    with rel tab show ?thesis
      by (intro exI [of _ "code_table st"] exI [of _ "code_last_used st"])
        (simp add: running_def swapped_def fun_eq_iff code_bytes_def)
  next
    case False
    with runs_code_entry [OF inv m] obtain e where e: "map_of (code_table st) (code_key m) = Some e" by blast
    from rel False e have h: "code_hash m \<noteq> hash" and s: "old_size = int (length (code e)) * int setcode_ram_bytes_multiplier"
      and st1: "st1 = (if code_ref_count e = 1 then
           st\<lparr>code_table := tab_remove (code_key m) (code_table st),
              code_last_used := code_last_used st @ [(code_hash m, vm_type m, vm_version m, wrap32 (head_block_num ctl + 1))]\<rparr>
         else st\<lparr>code_table := tab_modify (code_key m) (e\<lparr>code_ref_count := sub64 (code_ref_count e) 1\<rparr>) (code_table st)\<rparr>)"
      by (auto simp: release_code_def tab_get_def eos_assert_Inr)
    have rm: "map_of (tab_remove (code_key m) (code_table st)) k = (if k = code_key m then None else map_of (code_table st) k)" for k
      using tab tab_remove_find [of "code_table st" "code_key m" k] by (simp add: tab_ok_def)
    show ?thesis
    proof (cases "code_ref_count e = 1")
      case True
      with False e h s st1 rm rows.remove_ok [OF tab, of "code_key m"] show ?thesis
        by (intro exI [of _ "tab_remove (code_key m) (code_table st)"] exI)
          (auto simp: running_def swapped_def fun_eq_iff code_bytes_def)
    next
      case ne: False
      with False e h s st1 rows.modify_ok [OF tab] show ?thesis
        by (intro exI [of _ "tab_modify (code_key m) (e\<lparr>code_ref_count := sub64 (code_ref_count e) 1\<rparr>) (code_table st)"]
            exI [of _ "code_last_used st"])
          (auto simp: running_def swapped_def fun_eq_iff code_bytes_def tab_modify_find)
    qed
  qed
  then obtain codes used where st1: "st1 = st\<lparr>code_table := codes, code_last_used := used\<rparr>" "tab_ok codes"
    "map_of codes = swapped (running m) None ?fresh (map_of (code_table st))"
    and s: "old_size = int (code_bytes st m) * int setcode_ram_bytes_multiplier"
      "code_hash m \<noteq> null_digest \<Longrightarrow> code_hash m \<noteq> hash" by blast
  show thesis
  proof (cases "sc_code c = []")
    case True
    with ref st1 s show thesis by (intro that [of used codes ?fresh]) simp_all
  next
    case False
    have nk: "running m \<noteq> Some ?new" using s(2) by (auto simp: running_def code_key_def)
    obtain codes2 where c2: "st2 = st\<lparr>code_table := codes2, code_last_used := used\<rparr>" "tab_ok codes2"
      "\<And>k. map_of codes2 k = (if k = ?new then Some (case map_of codes ?new of
           Some e \<Rightarrow> e\<lparr>code_ref_count := wrap64 (code_ref_count e + 1)\<rparr> | None \<Rightarrow> ?fresh) else map_of codes k)"
    proof (cases "map_of codes ?new")
      case None
      with ref False obtain t where t: "tab_create ?new ?fresh codes = Inr t" and st2: "st2 = st1\<lparr>code_table := t\<rparr>"
        by (auto simp: reference_code_def st1(1) ebind_Inr)
      show thesis
        by (rule that [of t]) (use t st2 None rows.create_ok [OF t st1(2)] rows.create_find [OF t] in \<open>simp_all add: st1(1)\<close>)
    next
      case (Some e)
      let ?t = "tab_modify ?new (e\<lparr>code_ref_count := wrap64 (code_ref_count e + 1)\<rparr>) codes"
      from ref False Some have "st2 = st1\<lparr>code_table := ?t\<rparr>" by (simp add: reference_code_def st1(1))
      then show thesis
        by (intro that [of ?t]) (use Some rows.modify_ok [OF st1(2)] in \<open>simp_all add: st1(1) tab_modify_find\<close>)
    qed
    have "map_of codes2 = swapped (running m) (Some ?new) ?fresh (map_of (code_table st))"
      unfolding fun_eq_iff using nk by (auto simp: c2(3) st1(3) swapped_def split: option.splits)
    with c2(1,2) s False show thesis by (intro that [of used codes2 ?fresh]) simp_all
  qed
qed

lemma swapped_bytes:
  assumes inv: "native_ok st" and m: "map_of (metadata_table st) a = Some m"
    and codes: "map_of (code_table st') = swapped (running m) (running m') fresh (map_of (code_table st))"
    and metas: "metadata_table st' = tab_modify a m' (metadata_table st)" and accs: "account_table st' = account_table st"
    and new: "\<And>k. running m' = Some k \<Longrightarrow> code fresh = c \<and> (\<forall>e. map_of (code_table st) k = Some e \<longrightarrow> code e = c)"
    and none: "running m' = None \<Longrightarrow> c = []"
  shows "account_bytes st' b + (if b = a then code_bytes st m * setcode_ram_bytes_multiplier else 0) =
    account_bytes st b + (if b = a then length c * setcode_ram_bytes_multiplier else 0)"
proof -
  have cb: "code_bytes t n = (case running n of None \<Rightarrow> 0 | Some k \<Rightarrow>
      (case map_of (code_table t) k of Some e \<Rightarrow> length (code e) | None \<Rightarrow> 0))" for t n
    by (simp add: code_bytes_def running_def)
  show ?thesis
  proof (cases "b = a")
    case True
    have "code_bytes st' m' = length c"
    proof (cases "running m'")
      case None
      with none show ?thesis by (simp add: cb)
    next
      case (Some k')
      with new show ?thesis by (auto simp: cb codes swapped_def split: option.splits)
    qed
    with True m show ?thesis by (simp add: account_bytes_def metas accs tab_modify_find)
  next
    case False
    have "code_bytes st' mb = code_bytes st mb" if mb: "map_of (metadata_table st) b = Some mb" for mb
    proof (cases "running mb")
      case (Some j)
      from swapped_length [OF native_okD(5) [OF inv] m mb _ Some, of "running m'" fresh] False
      obtain e e' where "map_of (code_table st) j = Some e" "map_of (code_table st') j = Some e'" "code e' = code e"
        unfolding codes by blast
      with Some show ?thesis by (simp add: cb)
    qed (simp add: cb)
    with False show ?thesis
      by (cases "map_of (metadata_table st) b") (simp_all add: account_bytes_def metas accs tab_modify_find)
  qed
qed

lemma int_moved:
  assumes "(a :: nat) + (if p then x * k else 0) = b + (if p then y * k else 0)"
  shows "int a = int b + (if p then int y * int k - int x * int k else 0)"
proof -
  from assms have "int (a + (if p then x * k else 0)) = int (b + (if p then y * k else 0))" by (rule arg_cong)
  then show ?thesis by (cases p) simp_all
qed

lemma setcode_steps:
  assumes "apply_setcode ctl ext act st = Inr st'"
  obtains c :: setcode and hash m m' old_size st1 st2 where "unpack_setcode ext (act_data act) = Inr c"
    "sc_vmtype c = 0" "sc_vmversion c = 0"
    "hash = (if sc_code c \<noteq> [] then code_digest ext (sc_code c) else null_digest)"
    "map_of (metadata_table st) (sc_account c) = Some m"
    "m' = m\<lparr>code_sequence := wrap64 (code_sequence m + 1), code_hash := hash, vm_type := sc_vmtype c,
       vm_version := sc_vmversion c, last_code_update := block_time ctl\<rparr>"
    "(if code_hash m \<noteq> null_digest then release_code ctl m hash st else Inr (0, st)) = Inr (old_size, st1)"
    "(if sc_code c \<noteq> [] then reference_code ctl c hash st1 else Inr st1) = Inr st2"
    "(if int (length (sc_code c)) * int setcode_ram_bytes_multiplier \<noteq> old_size then
        add_ram_usage (sc_account c) (int (length (sc_code c)) * int setcode_ram_bytes_multiplier - old_size)
          (st2\<lparr>metadata_table := tab_modify (sc_account c) m' (metadata_table st2)\<rparr>)
      else Inr (st2\<lparr>metadata_table := tab_modify (sc_account c) m' (metadata_table st2)\<rparr>)) = Inr st'"
proof -
  from assms obtain c :: setcode and m old_size st1 st2 where "unpack_setcode ext (act_data act) = Inr c"
    and "sc_vmtype c = 0" "sc_vmversion c = 0" and "map_of (metadata_table st) (sc_account c) = Some m"
    and "(if code_hash m \<noteq> null_digest then release_code ctl m (if sc_code c \<noteq> [] then code_digest ext (sc_code c) else null_digest) st
        else Inr (0, st)) = Inr (old_size, st1)"
    and "(if sc_code c \<noteq> [] then reference_code ctl c (if sc_code c \<noteq> [] then code_digest ext (sc_code c) else null_digest) st1
        else Inr st1) = Inr st2"
    and "(if int (length (sc_code c)) * int setcode_ram_bytes_multiplier \<noteq> old_size then
        add_ram_usage (sc_account c) (int (length (sc_code c)) * int setcode_ram_bytes_multiplier - old_size)
          (st2\<lparr>metadata_table := tab_modify (sc_account c) (m\<lparr>code_sequence := wrap64 (code_sequence m + 1),
            code_hash := (if sc_code c \<noteq> [] then code_digest ext (sc_code c) else null_digest), vm_type := sc_vmtype c,
            vm_version := sc_vmversion c, last_code_update := block_time ctl\<rparr>) (metadata_table st2)\<rparr>)
        else Inr (st2\<lparr>metadata_table := tab_modify (sc_account c) (m\<lparr>code_sequence := wrap64 (code_sequence m + 1),
            code_hash := (if sc_code c \<noteq> [] then code_digest ext (sc_code c) else null_digest), vm_type := sc_vmtype c,
            vm_version := sc_vmversion c, last_code_update := block_time ctl\<rparr>) (metadata_table st2)\<rparr>)) = Inr st'"
    unfolding apply_setcode_def require_authorization_def data_as_def ebind_Inr eos_assert_Inr Let_def
      tab_get_def from_some_Inr of_nat_0_less_iff length_greater_0_conv
    by (auto simp: ebind_Inr simp del: of_nat_eq_iff of_nat_mult)
  from that [OF this(1-3) refl this(4) refl this(5-7)] show thesis .
qed

text \<open>
  The state before the memory is charged: the account runs the new code, and the code table is
  swapped from the old code to the new.
\<close>

lemma setcode_swaps:
  assumes ok: "native_ok st" and dig: "digest_ok ext act st" and act: "apply_setcode ctl ext act st = Inr st'"
  obtains c :: setcode and m m' codes used fresh where "unpack_setcode ext (act_data act) = Inr c"
    "map_of (metadata_table st) (sc_account c) = Some m"
    "running m' = (if sc_code c \<noteq> [] then Some (code_digest ext (sc_code c), 0, 0) else None)"
    "running m' \<noteq> None \<Longrightarrow> running m' \<noteq> running m"
    "tab_ok codes" "map_of codes = swapped (running m) (running m') fresh (map_of (code_table st))"
    "code_ref_count fresh = 1" "code fresh = sc_code c"
    "\<And>k e. running m' = Some k \<Longrightarrow> map_of (code_table st) k = Some e \<Longrightarrow> code e = sc_code c"
    "(if int (length (sc_code c)) * int setcode_ram_bytes_multiplier \<noteq> int (code_bytes st m) * int setcode_ram_bytes_multiplier
      then add_ram_usage (sc_account c)
        (int (length (sc_code c)) * int setcode_ram_bytes_multiplier - int (code_bytes st m) * int setcode_ram_bytes_multiplier)
        (st\<lparr>code_table := codes, code_last_used := used, metadata_table := tab_modify (sc_account c) m' (metadata_table st)\<rparr>)
      else Inr (st\<lparr>code_table := codes, code_last_used := used,
        metadata_table := tab_modify (sc_account c) m' (metadata_table st)\<rparr>)) = Inr st'"
proof (rule setcode_steps [OF act])
  fix c :: setcode and hash m m' old_size st1 st2
  assume up: "unpack_setcode ext (act_data act) = Inr c" and vm: "sc_vmtype c = 0" "sc_vmversion c = 0"
    and hash: "hash = (if sc_code c \<noteq> [] then code_digest ext (sc_code c) else null_digest)"
    and m: "map_of (metadata_table st) (sc_account c) = Some m"
    and m': "m' = m\<lparr>code_sequence := wrap64 (code_sequence m + 1), code_hash := hash, vm_type := sc_vmtype c,
       vm_version := sc_vmversion c, last_code_update := block_time ctl\<rparr>"
    and rel: "(if code_hash m \<noteq> null_digest then release_code ctl m hash st else Inr (0, st)) = Inr (old_size, st1)"
    and ref: "(if sc_code c \<noteq> [] then reference_code ctl c hash st1 else Inr st1) = Inr st2"
    and st': "(if int (length (sc_code c)) * int setcode_ram_bytes_multiplier \<noteq> old_size then
        add_ram_usage (sc_account c) (int (length (sc_code c)) * int setcode_ram_bytes_multiplier - old_size)
          (st2\<lparr>metadata_table := tab_modify (sc_account c) m' (metadata_table st2)\<rparr>)
      else Inr (st2\<lparr>metadata_table := tab_modify (sc_account c) m' (metadata_table st2)\<rparr>)) = Inr st'"
  from dig up have d: "sc_code c \<noteq> [] \<Longrightarrow> hash \<noteq> null_digest"
    "sc_code c \<noteq> [] \<Longrightarrow> map_of (code_table st) (hash, 0, 0) = Some e \<Longrightarrow> code e = sc_code c" for e
    by (auto simp: digest_ok_def hash)
  have run: "running m' = (if sc_code c \<noteq> [] then Some (hash, 0, 0) else None)"
    using d(1) by (auto simp: running_def code_key_def vm hash m')
  show thesis
  proof (rule code_tables_swapped [OF ok m rel ref])
    fix codes used fresh
    assume st2: "st2 = st\<lparr>code_table := codes, code_last_used := used\<rparr>" and tab: "tab_ok codes"
      and codes: "map_of codes = swapped (running m) (if sc_code c \<noteq> [] then
        Some (hash, sc_vmtype c, sc_vmversion c) else None) fresh (map_of (code_table st))"
      and fresh: "code_ref_count fresh = 1" "code fresh = sc_code c"
      and old: "old_size = int (code_bytes st m) * int setcode_ram_bytes_multiplier"
      and diff: "code_hash m \<noteq> null_digest \<Longrightarrow> code_hash m \<noteq> hash"
    have "map_of codes = swapped (running m) (running m') fresh (map_of (code_table st))"
      unfolding run codes by (simp add: vm)
    moreover have "running m' \<noteq> running m" if "running m' \<noteq> None"
      using that diff unfolding run by (auto simp: running_def code_key_def split: if_splits)
    moreover have "code e = sc_code c" if "running m' = Some k" "map_of (code_table st) k = Some e" for k e
      using that d(2) by (auto simp: run split: if_splits)
    moreover have "running m' = (if sc_code c \<noteq> [] then Some (code_digest ext (sc_code c), 0, 0) else None)"
      unfolding run by (simp add: hash)
    moreover have same: "metadata_table st2 = metadata_table st" by (simp add: st2)
    ultimately show thesis
      using that [OF up m _ _ tab _ fresh, of m' used] st' unfolding same old unfolding st2 by blast
  qed
qed

lemma setcode_accounted:
  assumes ok: "native_ok st" and dig: "digest_ok ext act st" and act: "apply_setcode ctl ext act st = Inr st'"
  shows "accounted ext st st'"
proof (rule setcode_swaps [OF assms])
  fix c :: setcode and m m' codes used fresh
  let ?st = "st\<lparr>code_table := codes, code_last_used := used, metadata_table := tab_modify (sc_account c) m' (metadata_table st)\<rparr>"
  let ?x = "int (length (sc_code c)) * int setcode_ram_bytes_multiplier"
  let ?y = "int (code_bytes st m) * int setcode_ram_bytes_multiplier"
  assume m: "map_of (metadata_table st) (sc_account c) = Some m"
    and run: "running m' = (if sc_code c \<noteq> [] then Some (code_digest ext (sc_code c), 0, 0) else None)"
    and diff: "running m' \<noteq> None \<Longrightarrow> running m' \<noteq> running m" and tab: "tab_ok codes"
    and codes: "map_of codes = swapped (running m) (running m') fresh (map_of (code_table st))"
    and fresh: "code_ref_count fresh = 1" "code fresh = sc_code c"
    and same: "\<And>k e. running m' = Some k \<Longrightarrow> map_of (code_table st) k = Some e \<Longrightarrow> code e = sc_code c"
    and st': "(if ?x \<noteq> ?y then add_ram_usage (sc_account c) (?x - ?y) ?st else Inr ?st) = Inr st'"
  note o = native_okD [OF ok]
  have zero: "0 \<notin> set (tab_keys (metadata_table st))" using auth_invD(4) [OF o(4)] o(3) by simp
  have ok3: "native_ok ?st"
    using o rows.modify_ok [OF o(2)] code_inv_swapped [OF o(5,2) zero m diff fresh(1) tab codes]
    unfolding native_ok_def by simp
  have "account_bytes ?st b + (if b = sc_account c then code_bytes st m * setcode_ram_bytes_multiplier else 0) =
      account_bytes st b + (if b = sc_account c then length (sc_code c) * setcode_ram_bytes_multiplier else 0)" for b
  proof (rule swapped_bytes [OF ok m, where m' = m' and fresh = fresh])
    show "map_of (code_table ?st) = swapped (running m) (running m') fresh (map_of (code_table st))"
      using codes by simp
    show "running m' = None \<Longrightarrow> sc_code c = []" unfolding run by (auto split: if_splits)
  qed (use fresh(2) same in simp_all)
  then have acc: "int (account_bytes ?st b) = int (account_bytes st b) + (if b = sc_account c then ?x - ?y else 0)" for b
    by (rule int_moved)
  have rest: "permission_bytes ext ?st b = permission_bytes ext st b" "link_bytes ?st b = link_bytes st b"
    "deferred_bytes ?st b = deferred_bytes st b" for b
    unfolding permission_bytes_def link_bytes_def deferred_bytes_def by simp_all
  have "billed ext ?st b = billed ext st b + (if b = sc_account c then ?x - ?y else 0)" for b
    unfolding billed_def acc rest by (rule add.assoc [symmetric])
  moreover have "ram_of ?st = ram_of st" by (simp add: fun_eq_iff ram_of_def)
  ultimately show ?thesis using conditional_ram [OF st' ok3] by blast
qed

end
