(* ===== verification/Native_System.thy ===== *)
theory Native_System
  imports Native_Accounting
begin

text \<open>
  The native actions as a transition system: a step dispatches an action to the handler that the
  controller registered for it. Whatever actions are executed, in whatever order, the tables stay
  well-formed and the memory charged to an account follows the bytes of its rows. The theory also
  states what \<open>setcode\<close>, \<open>newaccount\<close> and \<open>setfee\<close> leave behind.
\<close>

section \<open>Runs of native actions\<close>

lemma handler_accounted:
  assumes "find_apply_handler receiver scope n = Some h" and ok: "native_ok st" and dig: "digest_ok ext act st"
    and run: "h ctl ext act st = Inr st'"
  shows "accounted ext st st'"
proof -
  from assms(1) have "(n, h) \<in> set native_handlers"
    by (auto simp: find_apply_handler_def dest: map_of_SomeD split: if_splits)
  then have "h \<in> {apply_newaccount, apply_setcode, \<lambda>ctl. apply_setabi, apply_updateauth, \<lambda>ctl. apply_deleteauth,
      apply_linkauth, \<lambda>ctl. apply_unlinkauth, \<lambda>ctl. apply_canceldelay, \<lambda>ctl. apply_setconfig_action, \<lambda>ctl. apply_setfee}"
    by (auto simp: native_handlers_def)
  with run show ?thesis
    by (auto dest: newaccount_accounted [OF ok] setcode_accounted [OF ok dig] setabi_accounted [OF ok]
        updateauth_accounted [OF ok] deleteauth_accounted [OF ok] linkauth_accounted [OF ok] unlinkauth_accounted [OF ok]
        canceldelay_accounted [OF ok] setconfig_accounted [OF ok] setfee_accounted [OF ok])
qed

inductive native_step :: "externals \<Rightarrow> native_state \<Rightarrow> native_state \<Rightarrow> bool" for ext where
  dispatch: "find_apply_handler system_account_name (act_account act) (act_name act) = Some h \<Longrightarrow>
    digest_ok ext act st \<Longrightarrow> h ctl ext act st = Inr st' \<Longrightarrow> native_step ext st st'"

inductive_cases native_stepE: "native_step ext st st'"

text \<open>What an account has been charged beyond the bytes of its rows.\<close>

definition overcharge :: "externals \<Rightarrow> native_state \<Rightarrow> account_name \<Rightarrow> int" where
  "overcharge ext st a = ram_of st a - billed ext st a"

lemma accounted_overcharge: "accounted ext st st' \<longleftrightarrow> native_ok st' \<and> overcharge ext st' = overcharge ext st"
  by (auto simp: accounted_def overcharge_def fun_eq_iff algebra_simps)

interpretation native: invariant_system "\<lambda>st. native_ok st \<and> overcharge ext st = g" "native_step ext"
  "\<lambda>st. native_ok st \<and> overcharge ext st = g" for ext g
  by unfold_locales (auto elim!: native_stepE dest: handler_accounted simp: accounted_overcharge)

text \<open>
  C2. Memory is conserved: along every sequence of native actions, from a well-formed state, the
  tables of accounts, metadata, code, permissions, links and resource usage stay well-formed (code
  reference counts equal the number of accounts that run the code, every account has its owner and
  active permissions, only owner permissions are roots), and the memory usage recorded for every
  account changes by exactly the change in the billable bytes of the rows it pays for.
\<close>

theorem native_run_conserves_memory:
  assumes "native_ok st" and "(native_step ext)\<^sup>*\<^sup>* st st'"
  shows "native_ok st' \<and> (\<forall>a. ram_of st' a - ram_of st a = billed ext st' a - billed ext st a)"
proof -
  have "native_ok st' \<and> overcharge ext st' = overcharge ext st"
    using native.run_inv [OF assms(2)] assms(1) by blast
  then show ?thesis by (auto simp: overcharge_def fun_eq_iff algebra_simps)
qed

section \<open>What the handlers leave behind\<close>

lemma conditional_ram_frame:
  assumes "(if x \<noteq> y then add_ram_usage b (x - y) st else Inr st) = Inr st'"
  shows "account_table st' = account_table st" "metadata_table st' = metadata_table st" "code_table st' = code_table st"
    "auth_tables st' = auth_tables st"
  using assms by (auto simp: add_ram_usage_def ebind_Inr split: if_splits)

text \<open>
  C18. After \<open>setcode\<close> the account runs the code of the action: with an empty code it runs none, and
  otherwise its metadata names a code object that holds exactly the bytes of the action. The code
  that every other account runs is untouched.
\<close>

theorem setcode_installs_code:
  assumes "native_ok st" and "digest_ok ext act st" and "apply_setcode ctl ext act st = Inr st'"
    and "unpack_setcode ext (act_data act) = Inr c"
  shows "\<exists>m'. map_of (metadata_table st') (sc_account c) = Some m' \<and>
    (if sc_code c = [] then running m' = None
     else \<exists>k e. running m' = Some k \<and> map_of (code_table st') k = Some e \<and> code e = sc_code c) \<and>
    (\<forall>b m k e. b \<noteq> sc_account c \<longrightarrow> map_of (metadata_table st) b = Some m \<longrightarrow> running m = Some k \<longrightarrow>
       map_of (code_table st) k = Some e \<longrightarrow> (\<exists>e'. map_of (metadata_table st') b = Some m \<and>
         map_of (code_table st') k = Some e' \<and> code e' = code e))"
proof (rule setcode_swaps [OF assms(1-3)])
  fix c1 :: setcode and m m' codes used fresh
  assume up: "unpack_setcode ext (act_data act) = Inr c1" and m: "map_of (metadata_table st) (sc_account c1) = Some m"
    and run: "running m' = (if sc_code c1 \<noteq> [] then Some (code_digest ext (sc_code c1), 0, 0) else None)"
    and codes: "map_of codes = swapped (running m) (running m') fresh (map_of (code_table st))"
    and fresh: "code fresh = sc_code c1"
    and same: "\<And>k e. running m' = Some k \<Longrightarrow> map_of (code_table st) k = Some e \<Longrightarrow> code e = sc_code c1"
    and st': "(if int (length (sc_code c1)) * int setcode_ram_bytes_multiplier \<noteq> int (code_bytes st m) * int setcode_ram_bytes_multiplier
      then add_ram_usage (sc_account c1)
        (int (length (sc_code c1)) * int setcode_ram_bytes_multiplier - int (code_bytes st m) * int setcode_ram_bytes_multiplier)
        (st\<lparr>code_table := codes, code_last_used := used, metadata_table := tab_modify (sc_account c1) m' (metadata_table st)\<rparr>)
      else Inr (st\<lparr>code_table := codes, code_last_used := used,
        metadata_table := tab_modify (sc_account c1) m' (metadata_table st)\<rparr>)) = Inr st'"
  from up assms(4) have c: "c1 = c" by simp
  have tabs: "metadata_table st' = tab_modify (sc_account c) m' (metadata_table st)" "code_table st' = codes"
    using conditional_ram_frame(2,3) [OF st'] by (simp_all add: c)
  have new: "\<exists>e. map_of codes k = Some e \<and> code e = sc_code c" if "running m' = Some k" for k
    using that fresh same by (auto simp: codes swapped_def c split: option.splits)
  have other: "\<exists>e'. map_of codes k = Some e' \<and> code e' = code e"
    if "b \<noteq> sc_account c" "map_of (metadata_table st) b = Some mb" "running mb = Some k" "map_of (code_table st) k = Some e"
    for b mb k e
    using swapped_length [OF native_okD(5) [OF assms(1)] m [unfolded c] that(2) not_sym [OF that(1)] that(3), of "running m'" fresh] that(4)
    by (auto simp: codes)
  have "map_of (metadata_table st') (sc_account c) = Some m'" using m by (simp add: tabs tab_modify_find c)
  moreover have "if sc_code c = [] then running m' = None
     else \<exists>k e. running m' = Some k \<and> map_of (code_table st') k = Some e \<and> code e = sc_code c"
    using new by (auto simp: run c tabs)
  ultimately show ?thesis using other by (auto simp: tabs tab_modify_find)
qed

text \<open>
  C21. After \<open>newaccount\<close> the account, which did not exist, exists with no contract, and has an owner
  permission at the root of its tree and an active permission below it, with the authorities of
  the action.
\<close>

theorem newaccount_creates_account:
  assumes "native_ok st" and "apply_newaccount ctl ext act st = Inr st'" and "unpack_newaccount ext (act_data act) = Inr c"
  shows "map_of (account_table st) (na_name c) = None \<and> map_of (metadata_table st') (na_name c) = Some new_metadata \<and>
    (\<exists>i p j q. find_by_owner (auth_tables st') (na_name c) owner_name = Some (i, p) \<and> parent p = 0 \<and> auth p = na_owner c \<and>
      find_by_owner (auth_tables st') (na_name c) active_name = Some (j, q) \<and> parent q = i \<and> auth q = na_active c)"
proof -
  from assms(2,3) obtain accs metas i db1 j db2 where n: "na_name c \<noteq> 0"
    and new: "map_of (account_table st) (na_name c) = None"
    and met: "tab_create (na_name c) new_metadata (metadata_table st) = Inr metas"
    and c1: "create_permission (block_time ctl) (na_name c) owner_name 0 (na_owner c) 0 (auth_tables st) = Inr (i, db1)"
    and c2: "create_permission (block_time ctl) (na_name c) active_name i (na_active c) 0 db1 = Inr (j, db2)"
    and st': "metadata_table st' = metas" "auth_tables st' = db2"
    by (auto simp: apply_newaccount_def require_authorization_def data_as_def ebind_Inr eos_assert_Inr Let_def
        add_ram_usage_def)
  note inv = native_okD(4) [OF assms(1)]
  obtain r where r: "map_of (permissions (auth_tables st)) 0 = Some r" using perm_root [OF auth_invD(2) [OF inv]] by blast
  have nm: "named_level (na_name c, owner_name)" "named_level (na_name c, active_name)"
    using n by (simp_all add: named_level_def permission_constant_values)
  note p1 = create_permission_Inr [OF auth_invD(1) [OF inv] nm(1) c1 r disjI1 [OF refl]]
  let ?p = "\<lparr>usage_id = next_usage (auth_tables st), parent = 0, owner = na_name c, perm_name = owner_name,
    last_updated = block_time ctl, auth = na_owner c\<rparr>"
  let ?q = "\<lparr>usage_id = next_usage db1, parent = i, owner = na_name c, perm_name = active_name,
    last_updated = block_time ctl, auth = na_active c\<rparr>"
  have row1: "map_of (permissions db1) i = Some ?p" by (simp add: p1(6))
  note p2 = create_permission_Inr [OF p1(1) nm(2) c2 row1, simplified]
  have tree: "perm_tree_ok db1" "perm_tree_ok db2" using p1(1) p2(1) by (simp_all add: perms_ok_def)
  have "i \<noteq> j" using perm_id_less [OF tree(1) row1] p2(3) by simp
  then have "find_by_owner db2 (na_name c) owner_name = Some (i, ?p)" "find_by_owner db2 (na_name c) active_name = Some (j, ?q)"
    unfolding find_by_owner_Some [OF tree(2)] using p1(4) p2(4) by (simp_all add: p2(6) row1)
  with new rows.create_find [OF met] show ?thesis by (auto simp: st')
qed

lemma setfee_row:
  assumes "apply_setfee ext act st = Inr st'" and "unpack_setfee ext (act_data act) = Inr c"
  shows "map_of (fee_rows st') (sf_account c, sf_action c) = Some \<lparr>fee = sf_fee c, cpu_limit = sf_cpu_limit c,
      net_limit = sf_net_limit c, ram_limit = sf_ram_limit c\<rparr>" and "0 < amount (sf_fee c)" "amount (sf_fee c) \<le> 2000000"
  using assms by (auto simp: apply_setfee_def data_as_def ebind_Inr eos_assert_Inr Let_def tab_modify_find tab_create_Inr
      map_add_def split: option.splits)

lemma foreign_fee_blocks:
  assumes "map_of db (account, a) = Some f" and "sym (fee f) \<noteq> core_symbol" and "(account, a) \<in> set actions"
    and "sym s0 = core_symbol"
  shows "\<exists>e. efold (\<lambda>(account, act) total. ebind (get_required_fee_action db account act) (\<lambda>f. asset_add_assign total f))
    actions s0 = Inl e"
  using assms(3,4)
proof (induction actions arbitrary: s0)
  case (Cons x actions)
  obtain acc n where x: "x = (acc, n)" by (cases x)
  show ?case
  proof (cases "ebind (get_required_fee_action db acc n) (\<lambda>f. asset_add_assign s0 f)")
    case (Inr t)
    then have t: "sym t = core_symbol" using Cons.prems(2) by (auto simp: ebind_Inr asset_add_assign_def eos_assert_Inr)
    have "(acc, n) \<noteq> (account, a)"
      using Inr assms(1,2) Cons.prems(2)
      by (auto simp: ebind_Inr asset_add_assign_def eos_assert_Inr get_required_fee_action_def Let_def asset_eq_def core_asset_def)
    with Cons.prems(1) have "(account, a) \<in> set actions" by (auto simp: x)
    from Cons.IH [OF this t] Inr show ?thesis by (simp add: x)
  qed (simp add: x)
qed simp

text \<open>
  C30. The symbol of a fee is not checked: \<open>setfee\<close> accepts a fee in another symbol than the core
  symbol, and from then on the fee of every transaction that contains the action cannot be
  computed, because the sum of the fees is in the core symbol.
\<close>

theorem setfee_foreign_symbol_blocks:
  assumes "apply_setfee ext act st = Inr st'" and "unpack_setfee ext (act_data act) = Inr c"
    and "sym (sf_fee c) \<noteq> core_symbol" and "(sf_account c, sf_action c) \<in> set actions"
  shows "\<exists>e. get_required_fee (fee_rows st') actions = Inl e"
  unfolding get_required_fee_def
  by (rule foreign_fee_blocks [OF setfee_row(1) [OF assms(1,2)] _ assms(4)]) (simp_all add: assms(3) core_asset_def)

section \<open>Witnesses\<close>

text \<open>Account 1, with its permissions of \<open>sample_db\<close> and no code.\<close>

definition sample_native :: native_state where
  "sample_native =
     \<lparr>auth_tables = sample_db, account_table = [(1, \<lparr>creation_date = 0, abi = []\<rparr>)], metadata_table = [(1, new_metadata)],
      code_table = [], fee_rows = [], generated_table = [],
      system = sample_system\<lparr>sys_resources := (initialize_database empty_contract_db [])\<lparr>
        account_limits := [((False, 1), new_limits)], account_usage := [(1, new_usage)]\<rparr>\<rparr>,
      validate_ram_usage = [], account_ram_deltas = [], code_last_used = []\<rparr>"

lemma sample_native_resources: "resource_inv (resources sample_native)"
proof -
  have "initialize_account 1 (initialize_database empty_contract_db []) = Inr (resources sample_native)"
    by (simp add: initialize_account_def tab_create_def sample_native_def sample_system_def initialize_database_def)
  then have "(resource_step (\<lambda>_. Inr 0))\<^sup>*\<^sup>* (initialize_database empty_contract_db []) (resources sample_native)"
    by (blast intro: resource_step.intros(1))
  from limits.reachable_inv [OF _ this] show ?thesis by blast
qed

lemma sample_native_ok: "native_ok sample_native"
proof -
  have "auth_inv {1} sample_db"
    by (rule auth_invI [OF sample_db_ok])
      (auto simp: sample_db_def tab_ok_def find_by_owner_def default_permission_def permission_constant_values split: if_splits)
  moreover have "code_inv [(1, new_metadata)] []"
    by (simp add: code_inv_def tab_ok_def code_refs_def runs_code_def new_metadata_def)
  moreover have "system_ok (system sample_native)"
    by (simp add: system_ok_def sample_native_def sample_system_def lists_ok_def tab_ok_def gmr_parameters_validate_def
        initialize_database_def default_gmr_def)
  moreover note sample_native_resources
  ultimately show ?thesis
    unfolding native_ok_def by (simp add: sample_native_def tab_ok_def)
qed

definition sample_native_control :: native_control where
  "sample_native_control = \<lparr>block_interval = 3000, block_time = 5, head_block_num = 10, max_delay = 100,
     only_link_to_existing = True, enforce_key_blacklist = False, key_blacklist = []\<rparr>"

definition sample_externals :: externals where
  "sample_externals =
     \<lparr>unpack_updateauth = (\<lambda>_. Inl Overflow_exception), unpack_deleteauth = (\<lambda>_. Inl Overflow_exception),
      unpack_linkauth = (\<lambda>_. Inr \<lparr>la_account = 1, la_code = 1, la_type = 3, la_requirement = active_name\<rparr>),
      unpack_unlinkauth = (\<lambda>_. Inl Overflow_exception), unpack_canceldelay = (\<lambda>_. Inl Overflow_exception),
      unpack_transaction = (\<lambda>_. Inl Overflow_exception),
      unpack_newaccount = (\<lambda>_. Inr \<lparr>na_creator = 1, na_name = 0x3000000000000000, na_owner = authority_of_key 4 0, na_active = authority_of_key 5 0\<rparr>),
      unpack_setcode = (\<lambda>_. Inr \<lparr>sc_account = 1, sc_vmtype = 0, sc_vmversion = 0, sc_code = [0, 97, 115]\<rparr>),
      unpack_setfee = (\<lambda>_. Inr \<lparr>sf_account = 1, sf_action = 3, sf_fee = \<lparr>amount = 7, sym = core_symbol + 1\<rparr>,
        sf_cpu_limit = 0, sf_net_limit = 0, sf_ram_limit = 0\<rparr>),
      unpack_setabi = (\<lambda>_. Inl Overflow_exception), unpack_setconfig = (\<lambda>_. Inl Overflow_exception),
      key_order = (<), key_pack_size = (\<lambda>_. 34), code_digest = (\<lambda>c. Sha256 1 0 0 (of_nat (length c))), wasm_validate = (\<lambda>_. Inr ())\<rparr>"

definition sample_native_action :: "name \<Rightarrow> action" where
  "sample_native_action n = \<lparr>act_account = system_account_name, act_name = n, authorization = [(1, active_name)], act_data = []\<rparr>"

lemma sample_handlers:
  "find_apply_handler system_account_name system_account_name linkauth_name = Some apply_linkauth"
  by (simp add: find_apply_handler_def native_handlers_def constant_values permission_constant_values)

lemmas sample_simps = sample_native_def sample_externals_def sample_native_control_def sample_native_action_def
  require_authorization_def has_authorization_def data_as_def tab_get_def

lemma charge_ok:
  assumes "map_of (account_usage (resources st)) a = Some new_usage" and "0 \<le> d" and "d < 2 ^ 63"
  shows "\<exists>st'. add_ram_usage a d st = Inr st' \<and> auth_tables st' = auth_tables st"
  using assms by (auto simp: add_ram_usage_def add_pending_ram_usage_def tab_get_def new_usage_def eos_assert_def nat_le_iff)

lemma sample_linkauth:
  "\<exists>st'. apply_linkauth sample_native_control sample_externals (sample_native_action linkauth_name) sample_native = Inr st' \<and>
     links (auth_tables st') = [((1, 1, 3), active_name)]"
proof -
  let ?st = "sample_native\<lparr>auth_tables := sample_db\<lparr>links := [((1, 1, 3), active_name)]\<rparr>\<rparr>"
  have "apply_linkauth sample_native_control sample_externals (sample_native_action linkauth_name) sample_native =
      add_ram_usage 1 (int billable_permission_link_object) ?st"
    by (simp add: apply_linkauth_def sample_simps permission_for_link_def sample_db_def find_permission_def find_by_owner_def
        tab_create_def permission_constant_values default_permission_def Let_def cong: if_cong)
  moreover have "\<exists>st'. add_ram_usage 1 (int billable_permission_link_object) ?st = Inr st' \<and> auth_tables st' = auth_tables ?st"
    by (rule charge_ok) (simp_all add: sample_native_def billable_permission_link_object_def billable_size_v_def
        billable_alignment_def overhead_per_row_per_index_ram_bytes_def)
  ultimately show ?thesis by auto
qed

lemma sample_digest_ok: "digest_ok sample_externals act sample_native"
  by (simp add: digest_ok_def sample_simps null_digest_def)

theorem native_run_conserves_memory_witness:
  "\<exists>st'. (native_step sample_externals)\<^sup>*\<^sup>* sample_native st' \<and> native_ok st' \<and> links (auth_tables st') \<noteq> [] \<and>
     ram_of st' 1 - ram_of sample_native 1 = billed sample_externals st' 1 - billed sample_externals sample_native 1"
proof -
  obtain st' where run: "apply_linkauth sample_native_control sample_externals (sample_native_action linkauth_name) sample_native = Inr st'"
    and "links (auth_tables st') = [((1, 1, 3), active_name)]"
    using sample_linkauth by blast
  have "native_step sample_externals sample_native st'"
    using run by (intro dispatch [where act = "sample_native_action linkauth_name" and h = apply_linkauth] sample_digest_ok)
      (simp_all add: sample_handlers sample_native_action_def)
  then have steps: "(native_step sample_externals)\<^sup>*\<^sup>* sample_native st'" by blast
  from native_run_conserves_memory [OF sample_native_ok steps] steps \<open>links (auth_tables st') = _\<close>
  show ?thesis by auto
qed

theorem setcode_installs_code_witness:
  "\<exists>st' m' k e. apply_setcode sample_native_control sample_externals (sample_native_action setcode_name) sample_native = Inr st' \<and>
     map_of (metadata_table st') 1 = Some m' \<and> running m' = Some k \<and> map_of (code_table st') k = Some e \<and>
     code e = [0, 97, 115]"
proof -
  obtain st' where run: "apply_setcode sample_native_control sample_externals (sample_native_action setcode_name) sample_native = Inr st'"
  proof -
    let ?h = "Sha256 1 0 0 3"
    let ?st = "sample_native\<lparr>code_table := [((?h, 0, 0), \<lparr>code = [0, 97, 115], code_ref_count = 1, first_block_used = 11\<rparr>)],
      metadata_table := [(1, new_metadata\<lparr>code_sequence := 1, code_hash := ?h, last_code_update := 5\<rparr>)]\<rparr>"
    have "apply_setcode sample_native_control sample_externals (sample_native_action setcode_name) sample_native =
        add_ram_usage 1 30 ?st"
      by (simp add: apply_setcode_def sample_simps reference_code_def tab_create_def null_digest_def new_metadata_def
          setcode_ram_bytes_multiplier_def Let_def cong: if_cong)
    moreover have "\<exists>st'. add_ram_usage 1 30 ?st = Inr st' \<and> auth_tables st' = auth_tables ?st"
      by (rule charge_ok) (simp_all add: sample_native_def)
    ultimately show thesis using that by auto
  qed
  have "unpack_setcode sample_externals (act_data (sample_native_action setcode_name)) =
      Inr \<lparr>sc_account = 1, sc_vmtype = 0, sc_vmversion = 0, sc_code = [0, 97, 115]\<rparr>" by (simp add: sample_externals_def)
  from setcode_installs_code [OF sample_native_ok sample_digest_ok run this] run show ?thesis by auto
qed

lemma sample_name: "name_to_string 0x3000000000000000 = ''a''"
  by code_simp

lemma sample_newaccount:
  "\<exists>st'. apply_newaccount sample_native_control sample_externals (sample_native_action newaccount_name) sample_native = Inr st'"
proof -
  obtain r where r: "initialize_account 0x3000000000000000 (resources sample_native) = Inr r"
    "map_of (account_usage r) 0x3000000000000000 = Some new_usage"
    by (simp add: initialize_account_def tab_create_def sample_native_def sample_system_def initialize_database_def)
  obtain i db1 j db2 where
    c: "create_permission 5 0x3000000000000000 owner_name 0 (authority_of_key 4 0) 0 sample_db = Inr (i, db1)"
      "create_permission 5 0x3000000000000000 active_name i (authority_of_key 5 0) 0 db1 = Inr (j, db2)"
    by (simp add: create_permission_eq sample_db_def find_by_owner_def default_permission_def permission_constant_values
        Let_def)
  have v: "validate (<) (authority_of_key 4 0)" "validate (<) (authority_of_key 5 0)"
    by (simp_all add: validate_def authority_of_key_def)
  let ?x = "\<lparr>creation_date = set_time_point 3000 block_timestamp_epoch 5, abi = []\<rparr>"
  let ?st = "sample_native\<lparr>account_table := account_table sample_native @ [(0x3000000000000000, ?x)],
    metadata_table := metadata_table sample_native @ [(0x3000000000000000, new_metadata)], auth_tables := db2,
    system := (system sample_native)\<lparr>sys_resources := r\<rparr>\<rparr>"
  let ?d = "int overhead_per_account_ram_bytes + 2 * int billable_permission_object +
     int (get_billable_size (\<lambda>_. 34) (authority_of_key 4 0)) + int (get_billable_size (\<lambda>_. 34) (authority_of_key 5 0))"
  have "\<exists>st'. add_ram_usage 0x3000000000000000 ?d ?st = Inr st' \<and> auth_tables st' = auth_tables ?st"
    by (rule charge_ok) (use r(2) in \<open>simp_all add: overhead_per_account_ram_bytes_def billable_permission_object_def
      overhead_per_row_per_index_ram_bytes_def get_billable_size_def billable_size_v_def billable_alignment_def billable_shared_authority_def fixed_overhead_shared_vector_ram_bytes_def
      authority_of_key_def\<close>)
  moreover have "apply_newaccount sample_native_control sample_externals (sample_native_action newaccount_name) sample_native =
      add_ram_usage 0x3000000000000000 ?d ?st"
    using r(1) c v by (simp add: apply_newaccount_def sample_simps sample_name has_prefix_def tab_create_def
        validate_authority_precondition_def authority_of_key_def [of _ 0] Let_def)
  ultimately show ?thesis by auto
qed

theorem newaccount_creates_account_witness:
  "\<exists>st' i p. apply_newaccount sample_native_control sample_externals (sample_native_action newaccount_name) sample_native = Inr st' \<and>
     find_by_owner (auth_tables st') 0x3000000000000000 owner_name = Some (i, p) \<and> auth p = authority_of_key 4 0"
proof -
  obtain st' where run: "apply_newaccount sample_native_control sample_externals (sample_native_action newaccount_name) sample_native = Inr st'"
    using sample_newaccount by blast
  have "unpack_newaccount sample_externals (act_data (sample_native_action newaccount_name)) =
      Inr \<lparr>na_creator = 1, na_name = 0x3000000000000000, na_owner = authority_of_key 4 0, na_active = authority_of_key 5 0\<rparr>"
    by (simp add: sample_externals_def)
  from newaccount_creates_account [OF sample_native_ok run this] run show ?thesis by auto
qed

theorem setfee_foreign_symbol_blocks_witness:
  "\<exists>st' e. apply_setfee sample_externals (sample_native_action setfee_name) sample_native = Inr st' \<and>
     get_required_fee (fee_rows st') [(1, 3)] = Inl e"
proof -
  obtain st' where run: "apply_setfee sample_externals (sample_native_action setfee_name) sample_native = Inr st'"
    by (simp add: apply_setfee_def sample_simps tab_create_def)
  have "unpack_setfee sample_externals (act_data (sample_native_action setfee_name)) =
      Inr \<lparr>sf_account = 1, sf_action = 3, sf_fee = \<lparr>amount = 7, sym = core_symbol + 1\<rparr>,
        sf_cpu_limit = 0, sf_net_limit = 0, sf_ram_limit = 0\<rparr>" by (simp add: sample_externals_def)
  from setfee_foreign_symbol_blocks [OF run this, of "[(1, 3)]"] run show ?thesis by simp
qed

end
