(* ===== verification/Intrinsic_Whitelist.thy ===== *)
theory Intrinsic_Whitelist
  imports Chain_Prelude "HOL-Library.Multiset" "HOL-Library.List_Lexorder" "HOL-Library.Char_ord"
begin

text \<open>
  The whitelist of intrinsics that contracts may import (\<open>whitelisted_intrinsics.cpp\<close>), a flat
  multimap from the hash of a name to the name, and its snapshot as part of the protocol state
  (\<open>protocol_state_object.cpp\<close>). The hash is \<open>std::hash<std::string>\<close>, whose value the language does
  not fix: it is the argument \<open>hash\<close>.
\<close>

type_synonym whitelisted_intrinsics_type = "(nat \<times> string) list"

text \<open>
  An iterator is the rest of the container from its position on; \<open>end()\<close> is the empty rest.
\<close>

fun find_intrinsic_helper :: "nat \<Rightarrow> string \<Rightarrow> whitelisted_intrinsics_type \<Rightarrow> bool \<times> whitelisted_intrinsics_type" where
  "find_intrinsic_helper h name [] = (False, [])"
| "find_intrinsic_helper h name ((k, v) # itr) =
     (if k = h then (if v = name then (True, (k, v) # itr) else find_intrinsic_helper h name itr)
      else (False, (k, v) # itr))"

definition mm_lower_bound :: "nat \<Rightarrow> whitelisted_intrinsics_type \<Rightarrow> whitelisted_intrinsics_type" where
  "mm_lower_bound h w = dropWhile (\<lambda>p. fst p < h) w"

definition find_intrinsic :: "whitelisted_intrinsics_type \<Rightarrow> nat \<Rightarrow> string \<Rightarrow> whitelisted_intrinsics_type" where
  "find_intrinsic w h name =
     (case find_intrinsic_helper h name (mm_lower_bound h w) of (found, itr) \<Rightarrow> if \<not> found then [] else itr)"

definition is_intrinsic_whitelisted :: "(string \<Rightarrow> nat) \<Rightarrow> whitelisted_intrinsics_type \<Rightarrow> string \<Rightarrow> bool" where
  "is_intrinsic_whitelisted hash w name = fst (find_intrinsic_helper (hash name) name (mm_lower_bound (hash name) w))"

text \<open>\<open>flat_multimap::emplace\<close> inserts after the elements with the same key.\<close>

definition mm_emplace :: "nat \<Rightarrow> string \<Rightarrow> whitelisted_intrinsics_type \<Rightarrow> whitelisted_intrinsics_type" where
  "mm_emplace h name w = takeWhile (\<lambda>p. fst p \<le> h) w @ (h, name) # dropWhile (\<lambda>p. fst p \<le> h) w"

definition add_intrinsic_to_whitelist ::
  "(string \<Rightarrow> nat) \<Rightarrow> string \<Rightarrow> whitelisted_intrinsics_type \<Rightarrow> whitelisted_intrinsics_type res" where
  "add_intrinsic_to_whitelist hash name w =
     eos_assert (find_intrinsic w (hash name) name = []) Database_exception (Inr (mm_emplace (hash name) name w))"

definition remove_intrinsic_from_whitelist ::
  "(string \<Rightarrow> nat) \<Rightarrow> string \<Rightarrow> whitelisted_intrinsics_type \<Rightarrow> whitelisted_intrinsics_type res" where
  "remove_intrinsic_from_whitelist hash name w =
     (let itr = find_intrinsic w (hash name) name in
      eos_assert (itr \<noteq> []) Database_exception (Inr (take (length w - length itr) w @ tl itr)))"

text \<open>A \<open>std::set<std::string>\<close> is the ascending list of its elements.\<close>

definition reset_intrinsic_whitelist :: "(string \<Rightarrow> nat) \<Rightarrow> string list \<Rightarrow> whitelisted_intrinsics_type" where
  "reset_intrinsic_whitelist hash s = foldl (\<lambda>w name. mm_emplace (hash name) name w) [] s"

definition convert_intrinsic_whitelist_to_set :: "whitelisted_intrinsics_type \<Rightarrow> string list" where
  "convert_intrinsic_whitelist_to_set w = foldl (\<lambda>s p. insort_insert (snd p) s) [] w"

section \<open>The protocol state\<close>

record protocol_state_object =
  activated_features :: "(sha256 \<times> nat) list"
  preactivated_features :: "sha256 list"
  whitelisted_intrinsics :: whitelisted_intrinsics_type
  num_supported_key_types :: nat

record snapshot_protocol_state_object =
  snapshot_activated :: "(sha256 \<times> nat) list"
  snapshot_preactivated :: "sha256 list"
  snapshot_intrinsics :: "string list"
  snapshot_key_types :: nat

definition to_snapshot_row :: "protocol_state_object \<Rightarrow> snapshot_protocol_state_object" where
  "to_snapshot_row v =
     \<lparr>snapshot_activated = activated_features v, snapshot_preactivated = preactivated_features v,
      snapshot_intrinsics = convert_intrinsic_whitelist_to_set (whitelisted_intrinsics v),
      snapshot_key_types = num_supported_key_types v\<rparr>"

definition from_snapshot_row :: "(string \<Rightarrow> nat) \<Rightarrow> snapshot_protocol_state_object \<Rightarrow> protocol_state_object" where
  "from_snapshot_row hash row =
     \<lparr>activated_features = snapshot_activated row, preactivated_features = snapshot_preactivated row,
      whitelisted_intrinsics = reset_intrinsic_whitelist hash (snapshot_intrinsics row),
      num_supported_key_types = snapshot_key_types row\<rparr>"

section \<open>The whitelist as a set of names\<close>

text \<open>Every name is filed under its hash, once, and the keys ascend.\<close>

definition whitelist_ok :: "(string \<Rightarrow> nat) \<Rightarrow> whitelisted_intrinsics_type \<Rightarrow> bool" where
  "whitelist_ok hash w \<longleftrightarrow> sorted (map fst w) \<and> (\<forall>(k, v) \<in> set w. k = hash v) \<and> distinct (map snd w)"

definition names_in :: "whitelisted_intrinsics_type \<Rightarrow> string set" where
  "names_in w = snd ` set w"

lemma find_helper_sorted:
  assumes "sorted (map fst w)" and "\<forall>(k, v) \<in> set w. h \<le> k"
  shows "if (h, name) \<in> set w then \<exists>a b. w = a @ (h, name) # b \<and> find_intrinsic_helper h name w = (True, (h, name) # b)
    else \<not> fst (find_intrinsic_helper h name w)"
  using assms
proof (induction h name w rule: find_intrinsic_helper.induct)
  case (2 h name k v itr)
  show ?case
  proof (cases "k = h \<and> v \<noteq> name")
    case True
    with 2 have "if (h, name) \<in> set itr then \<exists>a b. itr = a @ (h, name) # b \<and> find_intrinsic_helper h name itr = (True, (h, name) # b)
      else \<not> fst (find_intrinsic_helper h name itr)" by simp
    moreover from True have "find_intrinsic_helper h name ((k, v) # itr) = find_intrinsic_helper h name itr" by simp
    ultimately show ?thesis using True by (auto intro: exI [of _ "(k, v) # _"] split: if_splits)
  next
    case False
    with 2(2,3) show ?thesis by (cases "k = h") (auto intro: exI [of _ "[]"])
  qed
qed simp

lemma find_intrinsic_exact:
  assumes "whitelist_ok hash w"
  shows "if name \<in> names_in w then \<exists>a b. w = a @ (hash name, name) # b \<and> find_intrinsic w (hash name) name = (hash name, name) # b
    else find_intrinsic w (hash name) name = []"
    and "is_intrinsic_whitelisted hash w name \<longleftrightarrow> name \<in> names_in w"
proof -
  let ?r = "dropWhile (\<lambda>p. fst p < hash name) w" and ?l = "takeWhile (\<lambda>p. fst p < hash name) w"
  from assms have s: "sorted (map fst w)" and k: "\<forall>p \<in> set w. fst p = hash (snd p)"
    by (auto simp: whitelist_ok_def)
  have r: "\<forall>(k, v) \<in> set ?r. hash name \<le> k"
  proof (cases ?r)
    case (Cons x xs)
    then have "hash name \<le> fst x" using hd_dropWhile [of "\<lambda>p. fst p < hash name" w] by auto
    moreover have "sorted (map fst (x # xs))" using sorted_dropWhile [OF s, of "\<lambda>k. k < hash name"] Cons
      by (simp add: dropWhile_map comp_def)
    ultimately show ?thesis unfolding Cons by auto
  next
    case Nil
    show ?thesis unfolding Nil by simp
  qed
  have split: "set w = set ?l \<union> set ?r" by (metis set_append takeWhile_dropWhile_id)
  have "(hash name, name) \<notin> set ?l" by (auto dest: set_takeWhileD)
  with split have "(hash name, name) \<in> set ?r \<longleftrightarrow> (hash name, name) \<in> set w" by blast
  moreover have "(hash name, name) \<in> set w \<longleftrightarrow> name \<in> names_in w"
  proof
    assume "name \<in> names_in w"
    then obtain p where "p \<in> set w" "snd p = name" by (auto simp: names_in_def)
    moreover from this k have "p = (hash name, name)" by (simp add: prod_eq_iff)
    ultimately show "(hash name, name) \<in> set w" by simp
  qed (auto simp: names_in_def intro: rev_image_eqI)
  ultimately have mem: "(hash name, name) \<in> set ?r \<longleftrightarrow> name \<in> names_in w" by blast
  have sr: "sorted (map fst ?r)" using sorted_dropWhile [OF s, of "\<lambda>k. k < hash name"] by (simp add: dropWhile_map comp_def)
  note f = find_helper_sorted [OF sr r, of name, unfolded mem]
  show "is_intrinsic_whitelisted hash w name \<longleftrightarrow> name \<in> names_in w"
  proof (cases "name \<in> names_in w")
    case True
    with f have "fst (find_intrinsic_helper (hash name) name ?r)" unfolding if_P [OF True] by force
    with True show ?thesis unfolding is_intrinsic_whitelisted_def mm_lower_bound_def by blast
  next
    case False
    with f show ?thesis unfolding is_intrinsic_whitelisted_def mm_lower_bound_def by simp
  qed
  show "if name \<in> names_in w then \<exists>a b. w = a @ (hash name, name) # b \<and> find_intrinsic w (hash name) name = (hash name, name) # b
    else find_intrinsic w (hash name) name = []"
  proof (cases "name \<in> names_in w")
    case True
    with f obtain a b where r: "?r = a @ (hash name, name) # b"
      "find_intrinsic_helper (hash name) name ?r = (True, (hash name, name) # b)" unfolding if_P [OF True] by blast
    have "w = ?l @ ?r" by (rule takeWhile_dropWhile_id [symmetric])
    then have "w = (?l @ a) @ (hash name, name) # b" unfolding r(1) by (simp only: append.assoc)
    moreover have "find_intrinsic w (hash name) name = (hash name, name) # b"
      unfolding find_intrinsic_def mm_lower_bound_def r(2) by simp
    ultimately show ?thesis unfolding if_P [OF True] by blast
  next
    case False
    with f show ?thesis by (simp add: find_intrinsic_def mm_lower_bound_def case_prod_beta)
  qed
qed

lemma mm_emplace_mset: "mset (mm_emplace h name w) = add_mset (h, name) (mset w)"
proof -
  have "mset w = mset (takeWhile (\<lambda>p. fst p \<le> h) w) + mset (dropWhile (\<lambda>p. fst p \<le> h) w)"
    by (metis mset_append takeWhile_dropWhile_id)
  then show ?thesis by (simp add: mm_emplace_def)
qed

lemma mm_emplace_sorted:
  assumes "sorted (map fst w)"
  shows "sorted (map fst (mm_emplace h name w))"
proof -
  let ?l = "takeWhile (\<lambda>p. fst p \<le> h) w" and ?r = "dropWhile (\<lambda>p. fst p \<le> h) w"
  have "sorted (map fst ?l @ map fst ?r)" using assms unfolding map_append [symmetric] takeWhile_dropWhile_id .
  then have lr: "sorted (map fst ?l)" "sorted (map fst ?r)" "\<forall>x \<in> set ?l. \<forall>y \<in> set ?r. fst x \<le> fst y"
    unfolding sorted_append by simp_all
  moreover have "\<forall>x \<in> set ?l. fst x \<le> h" by (auto dest: set_takeWhileD)
  moreover have "\<forall>y \<in> set ?r. h \<le> fst y"
  proof (cases ?r)
    case (Cons y ys)
    have "h < fst y" using hd_dropWhile [of "\<lambda>p. fst p \<le> h" w] Cons by auto
    moreover have "\<forall>z \<in> set ys. fst y \<le> fst z" using lr(2) unfolding Cons by simp
    ultimately show ?thesis unfolding Cons by fastforce
  next
    case Nil
    show ?thesis unfolding Nil by simp
  qed
  ultimately show ?thesis by (auto simp: mm_emplace_def sorted_append)
qed

lemma whitelist_ok_mset:
  "mset w' = add_mset (hash name, name) (mset w) \<Longrightarrow> sorted (map fst w') \<Longrightarrow> name \<notin> names_in w \<Longrightarrow>
    whitelist_ok hash w \<Longrightarrow> whitelist_ok hash w' \<and> names_in w' = insert name (names_in w)"
proof -
  assume m: "mset w' = add_mset (hash name, name) (mset w)" and s: "sorted (map fst w')"
    and n: "name \<notin> names_in w" and ok: "whitelist_ok hash w"
  from m have set: "set w' = insert (hash name, name) (set w)" by (metis set_mset_add_mset_insert set_mset_mset)
  from m have "mset (map snd w') = add_mset name (mset (map snd w))" by simp
  then have "mset (map snd w') = mset (name # map snd w)" by simp
  then have "distinct (map snd w') \<longleftrightarrow> distinct (name # map snd w)" by (rule mset_eq_imp_distinct_iff)
  with n ok s set show ?thesis by (auto simp: whitelist_ok_def names_in_def)
qed

text \<open>
  C27. The whitelist is a set of names: whatever the hash function, in a whitelist that was built by
  these operations a name counts as whitelisted exactly when it was added; adding a name twice and
  removing an absent name are refused, and both change nothing else.
\<close>

theorem whitelist_is_set:
  assumes "whitelist_ok hash w"
  shows "(is_intrinsic_whitelisted hash w other \<longleftrightarrow> other \<in> names_in w) \<and>
    (case add_intrinsic_to_whitelist hash name w of
       Inl e \<Rightarrow> name \<in> names_in w \<and> e = Database_exception
     | Inr w' \<Rightarrow> name \<notin> names_in w \<and> whitelist_ok hash w' \<and> names_in w' = insert name (names_in w)) \<and>
    (case remove_intrinsic_from_whitelist hash name w of
       Inl e \<Rightarrow> name \<notin> names_in w \<and> e = Database_exception
     | Inr w' \<Rightarrow> name \<in> names_in w \<and> whitelist_ok hash w' \<and> names_in w' = names_in w - {name})"
proof (intro conjI)
  note f = find_intrinsic_exact [OF assms]
  show "is_intrinsic_whitelisted hash w other \<longleftrightarrow> other \<in> names_in w" by (rule f(2))
  show "case add_intrinsic_to_whitelist hash name w of
       Inl e \<Rightarrow> name \<in> names_in w \<and> e = Database_exception
     | Inr w' \<Rightarrow> name \<notin> names_in w \<and> whitelist_ok hash w' \<and> names_in w' = insert name (names_in w)"
  proof (cases "name \<in> names_in w")
    case True
    with f(1) [of name] have "find_intrinsic w (hash name) name \<noteq> []" by auto
    with True show ?thesis by (simp add: add_intrinsic_to_whitelist_def eos_assert_def)
  next
    case False
    with f(1) [of name] have "find_intrinsic w (hash name) name = []" by simp
    moreover have "sorted (map fst w)" using assms by (simp add: whitelist_ok_def)
    ultimately show ?thesis
      using whitelist_ok_mset [OF mm_emplace_mset mm_emplace_sorted _ assms] False
      by (simp add: add_intrinsic_to_whitelist_def eos_assert_def)
  qed
  show "case remove_intrinsic_from_whitelist hash name w of
       Inl e \<Rightarrow> name \<notin> names_in w \<and> e = Database_exception
     | Inr w' \<Rightarrow> name \<in> names_in w \<and> whitelist_ok hash w' \<and> names_in w' = names_in w - {name}"
  proof (cases "name \<in> names_in w")
    case True
    with f(1) [of name] obtain a b where w: "w = a @ (hash name, name) # b"
      and i: "find_intrinsic w (hash name) name = (hash name, name) # b" by auto
    from i have "remove_intrinsic_from_whitelist hash name w = Inr (a @ b)"
      by (simp add: remove_intrinsic_from_whitelist_def eos_assert_def Let_def w)
    moreover have "whitelist_ok hash (a @ b)" "names_in (a @ b) = names_in w - {name}"
      using assms by (force simp: whitelist_ok_def w names_in_def sorted_append)+
    ultimately show ?thesis using True by simp
  next
    case False
    with f(1) [of name] show ?thesis by (simp add: remove_intrinsic_from_whitelist_def eos_assert_def)
  qed
qed

theorem whitelist_is_set_witness:
  "whitelist_ok length [(1, ''a''), (3, ''abc''), (3, ''xyz'')] \<and>
   \<not> is_intrinsic_whitelisted length [(1, ''a''), (3, ''abc''), (3, ''xyz'')] ''abd'' \<and>
   add_intrinsic_to_whitelist length ''xyz'' [(1, ''a''), (3, ''abc''), (3, ''xyz'')] = Inl Database_exception"
proof -
  have ok: "whitelist_ok length [(1, ''a''), (3, ''abc''), (3, ''xyz'')]" by (simp add: whitelist_ok_def)
  from whitelist_is_set [OF ok, of "''abd''" "''xyz''"] show ?thesis
    using ok by (auto simp: names_in_def split: sum.splits)
qed

section \<open>Snapshots\<close>

lemma convert_fold:
  "sorted s \<and> distinct s \<Longrightarrow> sorted (foldl (\<lambda>s p. insort_insert (snd p) s) s w) \<and>
    distinct (foldl (\<lambda>s p. insort_insert (snd p) s) s w) \<and>
    set (foldl (\<lambda>s p. insort_insert (snd p) s) s w) = set s \<union> names_in w"
  by (induction w arbitrary: s)
    (auto simp: names_in_def sorted_insort_insert distinct_insort_insert set_insort_insert)

lemma reset_fold:
  assumes "distinct s" and "set s \<inter> names_in w = {}" and "whitelist_ok hash w"
  shows "whitelist_ok hash (foldl (\<lambda>w name. mm_emplace (hash name) name w) w s) \<and>
    names_in (foldl (\<lambda>w name. mm_emplace (hash name) name w) w s) = names_in w \<union> set s"
  using assms
proof (induction s arbitrary: w)
  case (Cons name s)
  have "sorted (map fst w)" using Cons.prems(3) by (simp add: whitelist_ok_def)
  from whitelist_ok_mset [OF mm_emplace_mset mm_emplace_sorted [OF this] _ Cons.prems(3)] Cons.prems(2)
  have step: "whitelist_ok hash (mm_emplace (hash name) name w)" "names_in (mm_emplace (hash name) name w) = insert name (names_in w)"
    by auto
  with Cons.IH [of "mm_emplace (hash name) name w"] Cons.prems show ?case by auto
qed simp

lemma whitelist_ok_determined:
  assumes "whitelist_ok hash w" "whitelist_ok hash w'" "names_in w = names_in w'"
  shows "mset w = mset w'"
proof -
  have m: "mset w = image_mset (\<lambda>v. (hash v, v)) (mset (map snd w))" if "whitelist_ok hash w" for w
  proof -
    have "map (\<lambda>p. (hash (snd p), snd p)) w = w"
      using that by (intro map_idI) (auto simp: whitelist_ok_def)
    then have "map (\<lambda>v. (hash v, v)) (map snd w) = w" by (simp add: comp_def)
    from arg_cong [OF this, of mset] show ?thesis unfolding mset_map by (rule sym)
  qed
  have "mset (map snd w) = mset (map snd w')"
    using assms by (intro set_eq_iff_mset_eq_distinct [THEN iffD1]) (auto simp: whitelist_ok_def names_in_def)
  with m [OF assms(1)] m [OF assms(2)] show ?thesis by (simp only:)
qed

text \<open>
  C28. The protocol state survives a snapshot: reading back the row that was written gives the same
  activated and preactivated features in the same order, and the same whitelist up to the order
  of names with equal hash.
\<close>

theorem protocol_state_snapshot_round_trip:
  assumes "whitelist_ok hash (whitelisted_intrinsics v)"
  shows "\<exists>w. from_snapshot_row hash (to_snapshot_row v) = v\<lparr>whitelisted_intrinsics := w\<rparr> \<and> whitelist_ok hash w \<and>
    mset w = mset (whitelisted_intrinsics v)"
proof -
  let ?s = "convert_intrinsic_whitelist_to_set (whitelisted_intrinsics v)"
  have s: "distinct ?s" "set ?s = names_in (whitelisted_intrinsics v)"
    using convert_fold [of "[]" "whitelisted_intrinsics v"] by (simp_all add: convert_intrinsic_whitelist_to_set_def)
  have "whitelist_ok hash []" by (simp add: whitelist_ok_def)
  from reset_fold [OF s(1) _ this] have r: "whitelist_ok hash (reset_intrinsic_whitelist hash ?s)"
    "names_in (reset_intrinsic_whitelist hash ?s) = names_in (whitelisted_intrinsics v)"
    by (simp_all add: reset_intrinsic_whitelist_def s names_in_def)
  with whitelist_ok_determined [OF r(1) assms r(2)] show ?thesis
    by (intro exI [of _ "reset_intrinsic_whitelist hash ?s"]) (simp add: from_snapshot_row_def to_snapshot_row_def)
qed

theorem protocol_state_snapshot_round_trip_witness:
  "\<exists>w. from_snapshot_row length (to_snapshot_row \<lparr>activated_features = [(Sha256 1 0 0 0, 7)], preactivated_features = [],
      whitelisted_intrinsics = [(3, ''xyz''), (3, ''abc'')], num_supported_key_types = 2\<rparr>) =
    \<lparr>activated_features = [(Sha256 1 0 0 0, 7)], preactivated_features = [], whitelisted_intrinsics = w,
      num_supported_key_types = 2\<rparr> \<and> mset w = {#(3, ''xyz''), (3, ''abc'')#}"
  using protocol_state_snapshot_round_trip [of length "\<lparr>activated_features = [(Sha256 1 0 0 0, 7)],
      preactivated_features = [], whitelisted_intrinsics = [(3, ''xyz''), (3, ''abc'')], num_supported_key_types = 2\<rparr>"]
  by (auto simp: whitelist_ok_def)

end
