(* ===== verification/Spec2Isabelle.thy ===== *)
theory Spec2Isabelle
  imports Chain_Prelude Chain_Names Chain_Assets Finality Fork_Branches Resource_Closing Native_System Intrinsic_Whitelist
begin

text \<open>
  A verification development of the chain library of Codex.Relay
  (\<open>src/libraries/chain\<close>), the part of the node that decides which blocks are valid, which of
  them are irreversible, which transactions are authorized and what they are charged.

  \<^bold>\<open>How the program is put together.\<close> Blocks arrive with a header. The header state
  (\<open>block_header_state.cpp\<close>) checks the header against the schedule of producers and advances the
  confirmation counts that make blocks irreversible. The fork database (\<open>fork_database.cpp\<close>) keeps
  the reversible blocks and names the head of the best branch. The actions of the transactions in
  a block are first authorized (\<open>authorization_manager.cpp\<close>, with \<open>authority_checker.hpp\<close>), then
  executed; the native actions of the system account (\<open>eosio_contract.cpp\<close>) change the tables of
  accounts, permissions, links, code and fees and charge memory, while cpu, net and memory are
  metered by \<open>resource_limits.cpp\<close>, fees by \<open>txfee_manager.cpp\<close>, and the parameters that
  producers may change come from \<open>chain_config.cpp\<close> and \<open>config_on_chain.cpp\<close>.

  \<^bold>\<open>Conventions.\<close> A call that may throw returns \<open>chain_exception + 'a\<close>, with \<open>Inl\<close> the exception
  type that the code names; undefined behaviour of the source (an iterator past the end, a division
  by zero) is the separate value \<open>Undefined_behaviour\<close>. A database table is a list of keyed rows
  (\<open>Chain_Tables\<close>); an object of the database is the row, and an operation of the code that changes
  the database returns the changed tables. Names are 64-bit words. Other machine integers are
  naturals or integers, with the reduction (\<open>wrap8\<close>, \<open>wrap32\<close>, \<open>wrap64\<close>, \<open>wrap128\<close>) or the range
  check of the source written out where the code relies on it. Code of other repositories, such as
  the hash, signature and serialization functions of \<open>fc\<close>, is an argument of the definitions that
  use it.

  \<^bold>\<open>Theories.\<close>
  \<^item> \<open>Chain_Prelude\<close>: results and exceptions, wrap-around, sorted maps, ordered indices, the
    interface of transition systems with an invariant.
  \<^item> \<open>Chain_Names\<close> (\<open>name.hpp\<close>, \<open>name.cpp\<close>) and \<open>Chain_Assets\<close> (\<open>symbol.hpp\<close>, \<open>asset.hpp\<close>,
    \<open>asset.cpp\<close>): printing and parsing of names, symbols and assets, and their arithmetic.
  \<^item> \<open>Block_Header\<close> (\<open>block_timestamp.hpp\<close>, \<open>producer_schedule.hpp\<close>, \<open>block_header.cpp\<close>,
    \<open>protocol_feature_activation.cpp\<close>), \<open>Merkle\<close> (\<open>merkle.cpp\<close>, \<open>incremental_merkle.hpp\<close>),
    \<open>Header_State\<close> (\<open>block_header_state.cpp\<close>, \<open>block_state.cpp\<close>) and \<open>Finality\<close>: two thirds of the
    producers stand behind an irreversible block, irreversibility never goes back, a block that a
    producer builds is accepted by the others, schedules change by the rules, and the incremental
    merkle root is the merkle root of all block ids.
  \<^item> \<open>Fork_Database\<close> (\<open>fork_database.cpp\<close>), \<open>Fork_Choice\<close> and \<open>Fork_Branches\<close>: the head is the best
    valid block in every reachable state, branches are paths that end at the common ancestor, and
    advancing the root or removing a block cuts exactly the right subtree.
  \<^item> \<open>Chain_Tables\<close> (\<open>contract_table_objects.hpp\<close>, \<open>apply_context.cpp\<close>, \<open>memory_db.cpp\<close>):
    tables and the interface of keyed rows, with what a lookup returns after each change.
  \<^item> \<open>Chain_Constants\<close>, \<open>Chain_Config\<close>, \<open>System_Config\<close> (\<open>config.hpp.in\<close>, \<open>chain_config.cpp\<close>,
    \<open>config_on_chain.cpp\<close>, \<open>txfee_manager.cpp\<close> and the lists of \<open>controller.cpp\<close>): what validation
    accepts, what \<open>setconfig\<close> changes, and when a transaction has a fee and which.
  \<^item> \<open>Resource_Limits\<close> (\<open>resource_limits.cpp\<close>, \<open>resource_limits_private.hpp\<close>), \<open>Resource_Bounds\<close>,
    \<open>Resource_Totals\<close> and \<open>Resource_Closing\<close> (the resource part of \<open>finalize_block\<close> in
    \<open>controller.cpp\<close>): the exact value of a usage accumulator, totals that are the sums over the
    accounts in every reachable state, the relation of what an account is billed to the limits
    that the queries report, and that a block can be closed in every reachable state when the block
    limits stay below $2^{32}$, but not after a net limit of $2^{58}$ or more.
  \<^item> \<open>Authority\<close> (\<open>authority.hpp\<close>), \<open>Authority_Checker\<close> (\<open>authority_checker.hpp\<close>) and
    \<open>Authority_Semantics\<close>: the checker, with its cache, depth limit and used keys, against the
    declarative meaning of holding a permission.
  \<^item> \<open>Permissions\<close> and \<open>Authorization\<close> (\<open>permission_object.hpp\<close>, \<open>authorization_manager.cpp\<close>): the
    permission tree and the check of the authorizations that a transaction declares.
  \<^item> \<open>Native_Actions\<close> (\<open>eosio_contract.cpp\<close>), \<open>Native_Invariants\<close>, \<open>Native_Accounting\<close> and
    \<open>Native_System\<close>: the native handlers, the invariant that they keep, and the conservation of the
    memory that accounts are charged for.
  \<^item> \<open>Intrinsic_Whitelist\<close> (\<open>whitelisted_intrinsics.cpp\<close>, \<open>protocol_state_object.cpp\<close>): the
    whitelist of intrinsics, a multimap keyed by hash, behaves as a set of names whatever the hash,
    and the protocol state survives a snapshot.

  \<^bold>\<open>Interfaces.\<close> The locales state what one part relies on in another: sorted maps (\<open>table\<close>,
  interpreted as \<open>fm\<close>), tables with a unique key (\<open>unique_table\<close>, interpreted as \<open>rows\<close>), the
  comparators of ordered indices (\<open>strict_weak_order\<close>, \<open>strict_linear_order\<close>), digests that are
  computed incrementally (\<open>accumulator\<close>), and transition systems with an invariant
  (\<open>invariant_system\<close>), interpreted for the header state, the fork database, the resource limits,
  the closing of blocks and the native actions.

  \<^bold>\<open>Loops.\<close> Loops over containers are structural recursion. Loops whose end depends on the data
  are \<open>function\<close>s with a measure, or \<open>partial_function (option)\<close> where a malformed database could
  make them run forever (\<open>satisfies_walk\<close> and the walks of the fork database); then the theorems show that they return on well-formed
  data. No definition uses fuel.

  \<^bold>\<open>Failed calls.\<close> A call that throws returns the exception alone. The database undoes the changes
  of a failed transaction or block, so no state is lost; the fork database has no such undo, and the
  index that \<open>advance_root\<close> leaves when one of its removals throws is not modelled.

  \<^bold>\<open>Not modelled.\<close> The compilers and interpreters of contracts (\<open>wasm-jit\<close>, \<open>webassembly\<close>,
  \<open>wasm_interface.cpp\<close>, the softfloat builtins) and the contracts themselves; the ABI serializer
  and the packing of transactions; the protocol feature manager and the genesis data;
  the files and sockets of the node (block log, snapshots, plugins, programs); threads and signals;
  most of \<open>controller.cpp\<close>, \<open>transaction_context.cpp\<close> and \<open>apply_context.cpp\<close>, which drive the parts
  above. The serialization of data, the cryptography and the database are code of other
  repositories and enter as arguments.
\<close>

end
